(* ===== verification/GoPrelude.thy ===== *)
theory GoPrelude
  imports Main "HOL-Library.Word"
begin

text \<open>
  Shared vocabulary of the development: the byte strings and the fixed-width integers of Go,
  the error monad in which fallible Go functions are written, and the generic list lemmas the
  component theories use.

  Go's \<open>int64\<close>, \<open>uint64\<close> and \<open>uint32\<close> are modelled by \<^typ>\<open>int\<close> with the wrap-around written
  out: every arithmetic operation of the source is an operation on \<^typ>\<open>int\<close> followed by
  \<open>i64\<close>, \<open>u64\<close> or \<open>u32\<close>. Bytes, on which the code works bitwise, are 8-bit words.
\<close>

unbundle bit_operations_syntax

named_theorems go_simps "equations of the error monad and of the wrap-around functions"

section \<open>Byte strings\<close>

type_synonym byte = "8 word"
type_synonym bytes = "byte list"

section \<open>Fixed-width integers\<close>

definition i64 :: "int \<Rightarrow> int" where
  "i64 x = (x + 9223372036854775808) mod 18446744073709551616 - 9223372036854775808"

definition u64 :: "int \<Rightarrow> int" where
  "u64 x = x mod 18446744073709551616"

definition u32 :: "int \<Rightarrow> int" where
  "u32 x = x mod 4294967296"

definition i32 :: "int \<Rightarrow> int" where
  "i32 x = (x + 2147483648) mod 4294967296 - 2147483648"

text \<open>Go's integer division truncates towards zero.\<close>

definition quotI :: "int \<Rightarrow> int \<Rightarrow> int" where
  "quotI a b = sgn a * sgn b * (\<bar>a\<bar> div \<bar>b\<bar>)"

definition MaxInt64 :: int where
  "MaxInt64 = 9223372036854775807"

definition MinInt64 :: int where
  "MinInt64 = - 9223372036854775808"

definition MaxUint64 :: int where
  "MaxUint64 = 18446744073709551615"

definition MaxInt32 :: int where
  "MaxInt32 = 2147483647"

definition MinInt32 :: int where
  "MinInt32 = - 2147483648"

definition MaxUint32 :: int where
  "MaxUint32 = 4294967295"

lemmas go_int_consts =
  MaxInt64_def MinInt64_def MaxUint64_def MaxInt32_def MinInt32_def MaxUint32_def

definition is_i64 :: "int \<Rightarrow> bool" where
  "is_i64 x \<longleftrightarrow> - 9223372036854775808 \<le> x \<and> x \<le> 9223372036854775807"

definition is_u64 :: "int \<Rightarrow> bool" where
  "is_u64 x \<longleftrightarrow> 0 \<le> x \<and> x \<le> 18446744073709551615"

definition is_u32 :: "int \<Rightarrow> bool" where
  "is_u32 x \<longleftrightarrow> 0 \<le> x \<and> x \<le> 4294967295"

lemma is_i64_i64 [simp]: "is_i64 (i64 x)"
  by (simp add: is_i64_def i64_def)

lemma is_u64_u64 [simp]: "is_u64 (u64 x)"
  by (simp add: is_u64_def u64_def)

lemma is_u32_u32 [simp]: "is_u32 (u32 x)"
  by (simp add: is_u32_def u32_def)

lemma i64_id [simp]: "is_i64 x \<Longrightarrow> i64 x = x"
  by (simp add: is_i64_def i64_def)

lemma u64_id [simp]: "is_u64 x \<Longrightarrow> u64 x = x"
  by (simp add: is_u64_def u64_def)

lemma u32_id [simp]: "is_u32 x \<Longrightarrow> u32 x = x"
  by (simp add: is_u32_def u32_def)

text \<open>
  The two overflow idioms of the code: adding a non-negative value overflows exactly when the
  wrapped sum is negative, and subtracting a non-negative value from a non-negative one never
  wraps.
\<close>

lemma i64_wrap_high:
  assumes "MaxInt64 < x" "x < 27670116110564327424"
  shows "i64 x = x - 18446744073709551616"
proof -
  have "(x + 9223372036854775808) mod 18446744073709551616 =
      (x + 9223372036854775808 - 18446744073709551616) mod 18446744073709551616"
    by (rule minus_mod_self2 [symmetric])
  also have "\<dots> = x + 9223372036854775808 - 18446744073709551616"
    using assms by (intro mod_pos_pos_trivial) (simp_all add: MaxInt64_def)
  finally show ?thesis by (simp add: i64_def)
qed

lemma i64_add_nonneg:
  assumes "0 \<le> a" "is_i64 a" "0 \<le> b" "is_i64 b"
  shows "i64 (a + b) < 0 \<longleftrightarrow> MaxInt64 < a + b"
    and "\<not> i64 (a + b) < 0 \<Longrightarrow> i64 (a + b) = a + b"
proof -
  have "i64 (a + b) = (if a + b \<le> MaxInt64 then a + b else a + b - 18446744073709551616)"
    using assms i64_wrap_high [of "a + b"] i64_id [of "a + b"]
    by (auto simp: is_i64_def MaxInt64_def not_le)
  moreover have "a + b < 18446744073709551616"
    using assms by (simp add: is_i64_def)
  ultimately show "i64 (a + b) < 0 \<longleftrightarrow> MaxInt64 < a + b"
    and "\<not> i64 (a + b) < 0 \<Longrightarrow> i64 (a + b) = a + b"
    using assms by (auto split: if_splits)
qed

lemma i64_sub_nonneg:
  assumes "0 \<le> a" "is_i64 a" "0 \<le> b" "is_i64 b"
  shows "i64 (a - b) = a - b"
  using assms by (intro i64_id) (simp add: is_i64_def)

section \<open>Fallible functions\<close>

definition bindE :: "'e + 'a \<Rightarrow> ('a \<Rightarrow> 'e + 'b) \<Rightarrow> 'e + 'b" where
  "bindE m f = (case m of Inl e \<Rightarrow> Inl e | Inr x \<Rightarrow> f x)"

definition errIf :: "bool \<Rightarrow> 'e \<Rightarrow> 'e + unit" where
  "errIf c e = (if c then Inl e else Inr ())"

lemma bindE_simps [simp, go_simps]:
  "bindE (Inl e) f = Inl e"
  "bindE (Inr x) f = f x"
  by (simp_all add: bindE_def)

lemma errIf_simps [simp, go_simps]:
  "errIf True e = Inl e"
  "errIf False e = Inr ()"
  by (simp_all add: errIf_def)

lemma bindE_Inr_iff: "bindE m f = Inr y \<longleftrightarrow> (\<exists>x. m = Inr x \<and> f x = Inr y)"
  by (cases m) auto

lemma bindE_Inl_iff: "bindE m f = Inl e \<longleftrightarrow> m = Inl e \<or> (\<exists>x. m = Inr x \<and> f x = Inl e)"
  by (cases m) auto

lemma errIf_Inr_iff [simp]: "errIf c e = Inr u \<longleftrightarrow> \<not> c"
  by (simp add: errIf_def)

lemma errIf_Inl_iff [simp]: "errIf c e = Inl e' \<longleftrightarrow> c \<and> e' = e"
  by (auto simp: errIf_def)

lemma bindE_errIf: "bindE (errIf c e) f = (if c then Inl e else f ())"
  by simp


end
