(* ===== verification/TrieKeys.thy ===== *)
theory TrieKeys
  imports GoPrelude
begin

text \<open>
  The key codec of the Patricia Merkle trie (\<open>data/trie/node.go\<close>): byte keys become sequences of
  hex nibbles, reversed and closed by the terminator 16, and back. The terminator makes the set of
  encoded keys prefix free, which is what the node operations rely on when they split a node.
\<close>

datatype trie_error =
    ErrInvalidNode
  | ErrInvalidEncoding
  | ErrUnmarshal
  | ErrDbGet
  | ErrValueTooShort
  | ErrChildPosOutOfRange
  | ErrNodeNotFound
  | ErrEmptyBranchNode
  | ErrEmptyExtensionNode
  | ErrEmptyLeafNode
  | ErrInvalidLength
  | ErrInvalidHexKey
  | ErrInvalidBranchNodeChildrenCount
  | PanicIndexOutOfRange
  | PanicNilNode
  | DepthExceeded

definition nrOfChildren :: nat where
  "nrOfChildren = 17"

definition hexTerminator :: byte where
  "hexTerminator = 16"

definition nibbleSize :: nat where
  "nibbleSize = 4"

definition nibbleMask :: byte where
  "nibbleMask = 15"

text \<open>The loop of \<open>keyBytesToHex\<close> fills the result from its end towards its start.\<close>

fun keyBytesToHex_loop :: "bytes \<Rightarrow> bytes \<Rightarrow> bytes" where
  "keyBytesToHex_loop [] acc = acc"
| "keyBytesToHex_loop (b # bs) acc =
     keyBytesToHex_loop bs ((b AND nibbleMask) # drop_bit nibbleSize b # acc)"

definition keyBytesToHex :: "bytes \<Rightarrow> bytes" where
  "keyBytesToHex str = keyBytesToHex_loop str [hexTerminator]"

definition hasOnlyNibbles :: "bytes \<Rightarrow> bool" where
  "hasOnlyNibbles key = list_all (\<lambda>nibble. \<not> hexTerminator \<le> nibble) key"

fun hexToKeyBytes_loop :: "bytes \<Rightarrow> bytes \<Rightarrow> bytes" where
  "hexToKeyBytes_loop (lo # hi # r) acc =
     hexToKeyBytes_loop r ((push_bit nibbleSize hi OR lo) # acc)"
| "hexToKeyBytes_loop _ acc = acc"

definition hexToKeyBytes :: "bytes \<Rightarrow> trie_error + bytes" where
  "hexToKeyBytes hex =
     (if length hex = 0 \<or> last hex \<noteq> hexTerminator then Inl ErrInvalidHexKey
      else let h = butlast hex in
        if list_ex (\<lambda>nibble. hexTerminator \<le> nibble) h then Inl ErrInvalidHexKey
        else if length h mod 2 \<noteq> 0 then Inl ErrInvalidLength
        else Inr (hexToKeyBytes_loop h []))"

fun prefixLen :: "bytes \<Rightarrow> bytes \<Rightarrow> nat" where
  "prefixLen (a # as) (b # bs) = (if a \<noteq> b then 0 else Suc (prefixLen as bs))"
| "prefixLen _ _ = 0"

definition isCanonicalLeafKey :: "bytes \<Rightarrow> bool" where
  "isCanonicalLeafKey key =
     (if length key = 0 then True
      else if last key \<noteq> hexTerminator then False
      else hasOnlyNibbles (butlast key))"

definition childPosOutOfRange :: "byte \<Rightarrow> bool" where
  "childPosOutOfRange pos \<longleftrightarrow> nrOfChildren \<le> unat pos"

lemmas key_consts = nrOfChildren_def hexTerminator_def nibbleSize_def nibbleMask_def

section \<open>Nibbles\<close>

lemma low_nibble_bound: "\<not> hexTerminator \<le> b AND nibbleMask"
  using word_and_le1 [of b 15] by (simp add: word_le_nat_alt key_consts)

lemma high_nibble_bound: "\<not> hexTerminator \<le> drop_bit nibbleSize b"
proof -
  have "unat b < 2 ^ LENGTH(8)"
    by (rule unsigned_less)
  then have "unat (b div 16) < 16"
    by (simp add: unat_div less_mult_imp_div_less)
  then show ?thesis
    by (simp add: key_consts word_le_nat_alt drop_bit_eq_div)
qed

lemma nibbleMask_mask: "nibbleMask = mask 4"
  by (simp add: nibbleMask_def mask_eq_exp_minus_1)

lemma nibbles_join: "push_bit nibbleSize (drop_bit nibbleSize b) OR (b AND nibbleMask) = b"
  unfolding nibbleSize_def nibbleMask_mask by (rule bit_word_eqI) (auto simp: bit_simps)

lemma nibble_take_bit: "\<not> hexTerminator \<le> x \<Longrightarrow> take_bit 4 x = x"
proof -
  assume "\<not> hexTerminator \<le> x"
  then have "unat x < 2 ^ 4"
    by (simp add: hexTerminator_def word_le_nat_alt)
  then have "unat (take_bit 4 x) = unat x"
    by (simp add: unsigned_take_bit_eq take_bit_nat_eq_self)
  then show ?thesis by (rule unsigned_word_eqI)
qed

lemma nibbles_split:
  assumes "\<not> hexTerminator \<le> lo" "\<not> hexTerminator \<le> hi"
  shows "(push_bit nibbleSize hi OR lo) AND nibbleMask = lo"
    and "drop_bit nibbleSize (push_bit nibbleSize hi OR lo) = hi"
proof -
  have lo: "bit lo n \<Longrightarrow> n < 4" and hi: "bit hi n \<Longrightarrow> n < 4" for n
    using assms [THEN nibble_take_bit] by (metis bit_take_bit_iff)+
  show "(push_bit nibbleSize hi OR lo) AND nibbleMask = lo"
    unfolding nibbleSize_def nibbleMask_mask
    by (rule bit_word_eqI) (auto simp: bit_simps dest: lo)
  show "drop_bit nibbleSize (push_bit nibbleSize hi OR lo) = hi"
    unfolding nibbleSize_def
    by (rule bit_word_eqI) (use hi in \<open>auto simp: bit_simps dest: lo; fastforce\<close>)
qed

section \<open>Encoded keys\<close>

text \<open>
  \<open>canonical\<close> is the shape of a non-empty path through the trie: nibbles, then the terminator.
\<close>

definition canonical :: "bytes \<Rightarrow> bool" where
  "canonical key \<longleftrightarrow> key \<noteq> [] \<and> isCanonicalLeafKey key"

lemma canonical_Nil [simp]: "\<not> canonical []"
  by (simp add: canonical_def)

lemma canonical_Cons:
  "canonical (x # xs) \<longleftrightarrow>
     (if xs = [] then x = hexTerminator else \<not> hexTerminator \<le> x \<and> canonical xs)"
  by (auto simp: canonical_def isCanonicalLeafKey_def hasOnlyNibbles_def)

lemma canonical_append:
  "hasOnlyNibbles ns \<Longrightarrow> canonical (ns @ key) \<longleftrightarrow> canonical key"
  by (induction ns) (auto simp: canonical_Cons hasOnlyNibbles_def)

lemma canonical_byte: "canonical acc \<Longrightarrow> canonical ((b AND nibbleMask) # drop_bit nibbleSize b # acc)"
  by (auto simp: canonical_Cons low_nibble_bound high_nibble_bound)

lemma keyBytesToHex_loop_canonical:
  "canonical acc \<Longrightarrow> canonical (keyBytesToHex_loop str acc)"
  by (induction str arbitrary: acc) (simp_all add: canonical_byte)

lemma keyBytesToHex_canonical: "canonical (keyBytesToHex str)"
  unfolding keyBytesToHex_def
  by (rule keyBytesToHex_loop_canonical) (simp add: canonical_Cons)

lemma keyBytesToHex_loop_length:
  "length (keyBytesToHex_loop str acc) = 2 * length str + length acc"
  by (induction str acc rule: keyBytesToHex_loop.induct) auto

text \<open>Reading the nibbles back undoes the loop, one byte at a time.\<close>

lemma keyBytesToHex_loop_acc:
  "keyBytesToHex_loop str acc = keyBytesToHex_loop str [] @ acc"
proof (induction str arbitrary: acc)
  case (Cons b bs)
  from Cons [of "(b AND nibbleMask) # drop_bit nibbleSize b # acc"]
    Cons [of "[b AND nibbleMask, drop_bit nibbleSize b]"]
  show ?case by simp
qed simp

lemma hexToKeyBytes_loop_append:
  "even (length xs) \<Longrightarrow>
     hexToKeyBytes_loop (xs @ ys) acc = hexToKeyBytes_loop ys (hexToKeyBytes_loop xs acc)"
  by (induction xs acc rule: hexToKeyBytes_loop.induct) auto

lemma hexToKeyBytes_loop_inverse:
  "hexToKeyBytes_loop (keyBytesToHex_loop str []) acc = str @ acc"
proof (induction str arbitrary: acc)
  case (Cons b bs)
  have "keyBytesToHex_loop (b # bs) [] =
      keyBytesToHex_loop bs [] @ [b AND nibbleMask, drop_bit nibbleSize b]"
    using keyBytesToHex_loop_acc [of bs "[b AND nibbleMask, drop_bit nibbleSize b]"] by simp
  then show ?case
    using Cons by (simp add: hexToKeyBytes_loop_append keyBytesToHex_loop_length nibbles_join)
qed simp

lemma keyBytesToHex_snoc: "keyBytesToHex str = keyBytesToHex_loop str [] @ [hexTerminator]"
  unfolding keyBytesToHex_def by (rule keyBytesToHex_loop_acc)

lemma keyBytesToHex_nibbles: "hasOnlyNibbles (keyBytesToHex_loop str [])"
  using keyBytesToHex_canonical [of str]
  by (simp add: keyBytesToHex_snoc canonical_def isCanonicalLeafKey_def)

lemma keyBytesToHex_inverse: "hexToKeyBytes (keyBytesToHex str) = Inr str"
  using keyBytesToHex_nibbles [of str]
  by (auto simp: hexToKeyBytes_def keyBytesToHex_snoc hexToKeyBytes_loop_inverse
      keyBytesToHex_loop_length hasOnlyNibbles_def list_ex_iff list_all_iff)

lemma keyBytesToHex_inj: "keyBytesToHex s = keyBytesToHex t \<Longrightarrow> s = t"
  by (metis keyBytesToHex_inverse Inr_inject)

text \<open>Conversely, whatever decodes was an encoded key.\<close>

lemma keyBytesToHex_loop_reencode:
  "hasOnlyNibbles xs \<Longrightarrow> even (length xs) \<Longrightarrow>
     keyBytesToHex_loop (hexToKeyBytes_loop xs acc) [] = keyBytesToHex_loop acc [] @ xs"
proof (induction xs acc rule: hexToKeyBytes_loop.induct)
  case (1 lo hi r acc)
  let ?b = "push_bit nibbleSize hi OR lo"
  have "\<not> hexTerminator \<le> lo" "\<not> hexTerminator \<le> hi"
    using 1 by (simp_all add: hasOnlyNibbles_def)
  note nib = nibbles_split [OF this]
  have "keyBytesToHex_loop (?b # acc) [] = keyBytesToHex_loop acc [lo, hi]"
    by (simp only: keyBytesToHex_loop.simps nib)
  then have "keyBytesToHex_loop (?b # acc) [] = keyBytesToHex_loop acc [] @ [lo, hi]"
    using keyBytesToHex_loop_acc [of acc "[lo, hi]"] by simp
  moreover have "keyBytesToHex_loop (hexToKeyBytes_loop r (?b # acc)) [] =
      keyBytesToHex_loop (?b # acc) [] @ r"
    by (rule 1) (use 1 in \<open>simp_all add: hasOnlyNibbles_def\<close>)
  ultimately show ?case
    by simp
qed auto

lemma hexToKeyBytes_encoded:
  assumes "hexToKeyBytes h = Inr str"
  shows "h = keyBytesToHex str"
proof -
  from assms have "h \<noteq> []" "last h = hexTerminator" "hasOnlyNibbles (butlast h)"
      "even (length (butlast h))" "str = hexToKeyBytes_loop (butlast h) []"
    by (auto simp: hexToKeyBytes_def Let_def hasOnlyNibbles_def list_ex_iff list_all_iff
        split: if_splits)
  then show ?thesis
    using keyBytesToHex_loop_reencode [of "butlast h" "[]"] append_butlast_last_id [of h]
    by (simp add: keyBytesToHex_snoc)
qed

text \<open>
  C35: the hex codec of trie keys is exact. Decoding an encoded key gives the key back, so distinct
  byte keys have distinct paths through the trie, and nothing that is not an encoded key decodes:
  every other nibble string is rejected with an error.
\<close>

theorem hexToKeyBytes_exact:
  "hexToKeyBytes h = Inr str \<longleftrightarrow> h = keyBytesToHex str"
  using hexToKeyBytes_encoded keyBytesToHex_inverse by blast

section \<open>Prefix freeness\<close>

lemma prefixLen_le: "prefixLen a b \<le> length a" "prefixLen a b \<le> length b"
  by (induction a b rule: prefixLen.induct) auto

lemma prefixLen_take: "take (prefixLen a b) a = take (prefixLen a b) b"
  by (induction a b rule: prefixLen.induct) auto

lemma prefixLen_differ:
  "prefixLen a b < length a \<Longrightarrow> prefixLen a b < length b \<Longrightarrow>
     a ! prefixLen a b \<noteq> b ! prefixLen a b"
  by (induction a b rule: prefixLen.induct) auto

text \<open>
  Two different canonical keys part before either of them ends: the branch positions that
  \<open>leafNode.insert\<close> reads at the end of the common prefix exist in both.
\<close>

lemma canonical_prefixLen:
  "canonical a \<Longrightarrow> canonical b \<Longrightarrow> a \<noteq> b \<Longrightarrow>
     prefixLen a b < length a \<and> prefixLen a b < length b"
proof (induction a b rule: prefixLen.induct)
  case (1 a as b bs)
  then show ?case
    by (auto simp: canonical_Cons split: if_splits)
qed auto

end
