(* ===== verification/TrieNode.thy ===== *)
theory TrieNode
  imports TrieKeys
begin

text \<open>
  The three node kinds of the Patricia Merkle trie (\<open>data/trie/leafNode.go\<close>, \<open>extensionNode.go\<close>,
  \<open>branchNode.go\<close>, \<open>node.go\<close>) and their \<open>tryGet\<close>, \<open>insert\<close> and \<open>delete\<close> methods.

  A node is either in memory or collapsed: a parent then holds only the hash of the child, and the
  methods load it from the database on the way down (\<open>resolveIfCollapsed\<close>). The database and the
  protobuf codec are not part of this code: they are the fields of \<open>trie_env\<close>.

  The Go methods mutate their receiver. A method that fails therefore returns the receiver as the
  failed call left it (children resolved, or a child already changed) beside the error, and a method
  that succeeds returns the node that takes the receiver's place. The methods call each other through
  the \<open>node\<close> interface: each is a definition that takes the recursive call as an argument, and
  \<open>node_tryGet\<close>, \<open>node_insert\<close> and \<open>node_delete\<close> tie the knot with a bound on the call depth.
\<close>

section \<open>Nodes\<close>

record baseNode =
  bhash :: "bytes option"
  bdirty :: bool

record leafNode =
  ln_Key :: bytes
  ln_Value :: "bytes option"
  ln_base :: baseNode

datatype node = LN leafNode | EN extensionNode | BN branchNode
  and extensionNode =
    ExtensionNode (en_Key: bytes) (en_EncodedChild: bytes) (en_child: "node option") (en_base: baseNode)
  and branchNode =
    BranchNode (bn_EncodedChildren: "bytes list") (bn_children: "node option list") (bn_base: baseNode)

text \<open>A nil slice and an empty one are told apart only where the code compares with nil.\<close>

definition slice :: "bytes option \<Rightarrow> bytes" where
  "slice b = (case b of None \<Rightarrow> [] | Some x \<Rightarrow> x)"

definition newBase :: baseNode where
  "newBase = \<lparr>bhash = None, bdirty = True\<rparr>"

definition newLeafNode :: "bytes \<Rightarrow> bytes option \<Rightarrow> leafNode" where
  "newLeafNode key value = \<lparr>ln_Key = key, ln_Value = value, ln_base = newBase\<rparr>"

definition newExtensionNode :: "bytes \<Rightarrow> node option \<Rightarrow> extensionNode" where
  "newExtensionNode key child = ExtensionNode key [] child newBase"

definition newBranchNode :: branchNode where
  "newBranchNode = BranchNode (replicate nrOfChildren []) (replicate nrOfChildren None) newBase"

definition en_set_child :: "node option \<Rightarrow> extensionNode \<Rightarrow> extensionNode" where
  "en_set_child c en = ExtensionNode (en_Key en) (en_EncodedChild en) c (en_base en)"

definition bn_set_child :: "byte \<Rightarrow> node option \<Rightarrow> branchNode \<Rightarrow> branchNode" where
  "bn_set_child pos c bn =
     BranchNode (bn_EncodedChildren bn) ((bn_children bn)[unat pos := c]) (bn_base bn)"

definition bn_set_enc :: "byte \<Rightarrow> bytes \<Rightarrow> branchNode \<Rightarrow> branchNode" where
  "bn_set_enc pos h bn =
     BranchNode ((bn_EncodedChildren bn)[unat pos := h]) (bn_children bn) (bn_base bn)"

definition bn_set_base :: "baseNode \<Rightarrow> branchNode \<Rightarrow> branchNode" where
  "bn_set_base b bn = BranchNode (bn_EncodedChildren bn) (bn_children bn) b"

fun node_base :: "node \<Rightarrow> baseNode" where
  "node_base (LN ln) = ln_base ln"
| "node_base (EN en) = en_base en"
| "node_base (BN bn) = bn_base bn"

definition node_getHash :: "node \<Rightarrow> bytes option" where
  "node_getHash n = bhash (node_base n)"

definition node_isDirty :: "node \<Rightarrow> bool" where
  "node_isDirty n = bdirty (node_base n)"

fun node_setGivenHash :: "bytes \<Rightarrow> node \<Rightarrow> node" where
  "node_setGivenHash h (LN ln) = LN (ln\<lparr>ln_base := (ln_base ln)\<lparr>bhash := Some h\<rparr>\<rparr>)"
| "node_setGivenHash h (EN en) =
     EN (ExtensionNode (en_Key en) (en_EncodedChild en) (en_child en) ((en_base en)\<lparr>bhash := Some h\<rparr>))"
| "node_setGivenHash h (BN bn) = BN (bn_set_base ((bn_base bn)\<lparr>bhash := Some h\<rparr>) bn)"

text \<open>The hash a node had before it was changed, recorded only if the node was not dirty.\<close>

definition oldHashOf :: "baseNode \<Rightarrow> bytes list" where
  "oldHashOf b = (if \<not> bdirty b then [slice (bhash b)] else [])"

section \<open>Loading nodes from the database\<close>

record trie_env =
  dbGet :: "bytes \<Rightarrow> bytes option"
  unmarshalLn :: "bytes \<Rightarrow> (bytes \<times> bytes option) option"
  unmarshalEn :: "bytes \<Rightarrow> (bytes \<times> bytes) option"
  unmarshalBn :: "bytes \<Rightarrow> bytes list option"

definition decodedBase :: baseNode where
  "decodedBase = \<lparr>bhash = None, bdirty = False\<rparr>"

definition checkDecodedNodeShape :: "node \<Rightarrow> trie_error + unit" where
  "checkDecodedNodeShape n =
     (case n of
        BN bn \<Rightarrow> errIf (length (bn_EncodedChildren bn) \<noteq> nrOfChildren) ErrInvalidBranchNodeChildrenCount
      | _ \<Rightarrow> Inr ())"

definition unmarshalNode :: "trie_env \<Rightarrow> byte \<Rightarrow> bytes \<Rightarrow> trie_error + node" where
  "unmarshalNode env nodeType enc =
     (if nodeType = 0 then
        (case unmarshalEn env enc of
           None \<Rightarrow> Inl ErrUnmarshal
         | Some (k, c) \<Rightarrow> Inr (EN (ExtensionNode k c None decodedBase)))
      else if nodeType = 1 then
        (case unmarshalLn env enc of
           None \<Rightarrow> Inl ErrUnmarshal
         | Some (k, v) \<Rightarrow> Inr (LN \<lparr>ln_Key = k, ln_Value = v, ln_base = decodedBase\<rparr>))
      else if nodeType = 2 then
        (case unmarshalBn env enc of
           None \<Rightarrow> Inl ErrUnmarshal
         | Some cs \<Rightarrow> Inr (BN (BranchNode cs (replicate nrOfChildren None) decodedBase)))
      else Inl ErrInvalidNode)"

definition decodeNode :: "trie_env \<Rightarrow> bytes \<Rightarrow> trie_error + node" where
  "decodeNode env encNode =
     (if length encNode < 1 then Inl ErrInvalidEncoding
      else bindE (unmarshalNode env (last encNode) (butlast encNode)) (\<lambda>newNode.
           bindE (checkDecodedNodeShape newNode) (\<lambda>_. Inr newNode)))"

definition getNodeFromDBAndDecode :: "trie_env \<Rightarrow> bytes \<Rightarrow> trie_error + node" where
  "getNodeFromDBAndDecode env n =
     (case dbGet env n of None \<Rightarrow> Inl ErrDbGet | Some encChild \<Rightarrow> decodeNode env encChild)"

section \<open>Resolving collapsed children\<close>

definition leafNode_isEmptyOrNil :: "leafNode \<Rightarrow> trie_error + unit" where
  "leafNode_isEmptyOrNil ln = errIf (ln_Value ln = None) ErrEmptyLeafNode"

definition extensionNode_isEmptyOrNil :: "extensionNode \<Rightarrow> trie_error + unit" where
  "extensionNode_isEmptyOrNil en =
     errIf (en_child en = None \<and> length (en_EncodedChild en) = 0) ErrEmptyExtensionNode"

definition branchNode_isEmptyOrNil :: "branchNode \<Rightarrow> trie_error + unit" where
  "branchNode_isEmptyOrNil bn =
     (if length (bn_EncodedChildren bn) \<noteq> nrOfChildren then Inl ErrInvalidBranchNodeChildrenCount
      else if list_ex (\<lambda>i. bn_children bn ! i \<noteq> None \<or> length (bn_EncodedChildren bn ! i) \<noteq> 0)
                [0..<nrOfChildren] then Inr ()
      else Inl ErrEmptyBranchNode)"

definition extensionNode_isCollapsed :: "extensionNode \<Rightarrow> bool" where
  "extensionNode_isCollapsed en \<longleftrightarrow> en_child en = None \<and> length (en_EncodedChild en) \<noteq> 0"

definition branchNode_isPosCollapsed :: "branchNode \<Rightarrow> byte \<Rightarrow> bool" where
  "branchNode_isPosCollapsed bn pos \<longleftrightarrow>
     bn_children bn ! unat pos = None \<and> length (bn_EncodedChildren bn ! unat pos) \<noteq> 0"

definition extensionNode_resolveCollapsed :: "trie_env \<Rightarrow> extensionNode \<Rightarrow> trie_error + extensionNode" where
  "extensionNode_resolveCollapsed env en =
     bindE (extensionNode_isEmptyOrNil en) (\<lambda>_.
     bindE (getNodeFromDBAndDecode env (en_EncodedChild en)) (\<lambda>child.
       Inr (en_set_child (Some (node_setGivenHash (en_EncodedChild en) child)) en)))"

definition branchNode_resolveCollapsed :: "trie_env \<Rightarrow> branchNode \<Rightarrow> byte \<Rightarrow> trie_error + branchNode" where
  "branchNode_resolveCollapsed env bn pos =
     bindE (branchNode_isEmptyOrNil bn) (\<lambda>_.
       if childPosOutOfRange pos then Inl ErrChildPosOutOfRange
       else let enc = bn_EncodedChildren bn ! unat pos in
         if length enc \<noteq> 0 then
           bindE (getNodeFromDBAndDecode env enc) (\<lambda>child.
             Inr (bn_set_child pos (Some (node_setGivenHash enc child)) bn))
         else Inr bn)"

definition extensionNode_resolveIfCollapsed :: "trie_env \<Rightarrow> extensionNode \<Rightarrow> trie_error + extensionNode" where
  "extensionNode_resolveIfCollapsed env en =
     bindE (extensionNode_isEmptyOrNil en) (\<lambda>_.
       if extensionNode_isCollapsed en then extensionNode_resolveCollapsed env en else Inr en)"

definition branchNode_resolveIfCollapsed :: "trie_env \<Rightarrow> branchNode \<Rightarrow> byte \<Rightarrow> trie_error + branchNode" where
  "branchNode_resolveIfCollapsed env bn pos =
     bindE (branchNode_isEmptyOrNil bn) (\<lambda>_.
       if branchNode_isPosCollapsed bn pos then branchNode_resolveCollapsed env bn pos else Inr bn)"

fun resolveIfCollapsed :: "trie_env \<Rightarrow> node \<Rightarrow> byte \<Rightarrow> trie_error + node" where
  "resolveIfCollapsed env (LN ln) pos = bindE (leafNode_isEmptyOrNil ln) (\<lambda>_. Inr (LN ln))"
| "resolveIfCollapsed env (EN en) pos = map_sum id EN (extensionNode_resolveIfCollapsed env en)"
| "resolveIfCollapsed env (BN bn) pos = map_sum id BN (branchNode_resolveIfCollapsed env bn pos)"

section \<open>Lookup\<close>

type_synonym get_result = "trie_error + bytes option"

definition leafNode_tryGet :: "leafNode \<Rightarrow> bytes \<Rightarrow> leafNode \<times> get_result" where
  "leafNode_tryGet ln key =
     (case leafNode_isEmptyOrNil ln of
        Inl e \<Rightarrow> (ln, Inl e)
      | Inr _ \<Rightarrow> if key = ln_Key ln then (ln, Inr (ln_Value ln)) else (ln, Inr None))"

definition extensionNode_tryGet ::
  "(node \<Rightarrow> bytes \<Rightarrow> node \<times> get_result) \<Rightarrow> trie_env \<Rightarrow> extensionNode \<Rightarrow> bytes \<Rightarrow> extensionNode \<times> get_result"
where
  "extensionNode_tryGet tryGet env en key =
     (case extensionNode_isEmptyOrNil en of
        Inl e \<Rightarrow> (en, Inl e)
      | Inr _ \<Rightarrow>
        if length key < length (en_Key en) then (en, Inr None)
        else if en_Key en \<noteq> take (length (en_Key en)) key then (en, Inr None)
        else
          (case extensionNode_resolveIfCollapsed env en of
             Inl e \<Rightarrow> (en, Inl e)
           | Inr en' \<Rightarrow>
             (case en_child en' of
                None \<Rightarrow> (en', Inl PanicNilNode)
              | Some c \<Rightarrow>
                (case tryGet c (drop (length (en_Key en)) key) of
                   (c', r) \<Rightarrow> (en_set_child (Some c') en', r)))))"

definition branchNode_tryGet ::
  "(node \<Rightarrow> bytes \<Rightarrow> node \<times> get_result) \<Rightarrow> trie_env \<Rightarrow> branchNode \<Rightarrow> bytes \<Rightarrow> branchNode \<times> get_result"
where
  "branchNode_tryGet tryGet env bn key =
     (case branchNode_isEmptyOrNil bn of
        Inl e \<Rightarrow> (bn, Inl e)
      | Inr _ \<Rightarrow>
        (case key of
           [] \<Rightarrow> (bn, Inr None)
         | childPos # key' \<Rightarrow>
           if childPosOutOfRange childPos then (bn, Inl ErrChildPosOutOfRange)
           else
             (case branchNode_resolveIfCollapsed env bn childPos of
                Inl e \<Rightarrow> (bn, Inl e)
              | Inr bn' \<Rightarrow>
                (case bn_children bn' ! unat childPos of
                   None \<Rightarrow> (bn', Inr None)
                 | Some c \<Rightarrow>
                   (case tryGet c key' of (c', r) \<Rightarrow> (bn_set_child childPos (Some c') bn', r))))))"

primrec node_tryGet :: "nat \<Rightarrow> trie_env \<Rightarrow> node \<Rightarrow> bytes \<Rightarrow> node \<times> get_result" where
  "node_tryGet 0 env n key = (n, Inl DepthExceeded)"
| "node_tryGet (Suc depth) env n key =
     (case n of
        LN ln \<Rightarrow> map_prod LN id (leafNode_tryGet ln key)
      | EN en \<Rightarrow> map_prod EN id (extensionNode_tryGet (node_tryGet depth env) env en key)
      | BN bn \<Rightarrow> map_prod BN id (branchNode_tryGet (node_tryGet depth env) env bn key))"

section \<open>Insertion\<close>

text \<open>
  The results of \<open>insert\<close> and \<open>delete\<close>: the error and the receiver as the failed call left it, or
  the triple of the Go method (whether the node changed, the node that replaces the receiver, nil if
  it is gone, and the hashes of the replaced nodes). A call that returns \<open>dirty = false\<close> returns its
  receiver, whose children it may have resolved.
\<close>

type_synonym update_result = "(trie_error \<times> node) + (bool \<times> node option \<times> bytes list)"

definition leafNode_insert :: "leafNode \<Rightarrow> leafNode \<Rightarrow> update_result" where
  "leafNode_insert ln n =
     (case leafNode_isEmptyOrNil ln of
        Inl e \<Rightarrow> Inl (e, LN ln)
      | Inr _ \<Rightarrow>
        let oldHash = oldHashOf (ln_base ln) in
        if ln_Key n = ln_Key ln then
          (if slice (ln_Value ln) = slice (ln_Value n) then Inr (False, Some (LN ln), [])
           else Inr (True, Some (LN (ln\<lparr>ln_Value := ln_Value n, ln_base := newBase\<rparr>)), oldHash))
        else
          let keyMatchLen = prefixLen (ln_Key n) (ln_Key ln) in
          if length (ln_Key ln) \<le> keyMatchLen \<or> length (ln_Key n) \<le> keyMatchLen
          then Inl (PanicIndexOutOfRange, LN ln)
          else
            let oldChildPos = ln_Key ln ! keyMatchLen;
                newChildPos = ln_Key n ! keyMatchLen in
            if childPosOutOfRange oldChildPos \<or> childPosOutOfRange newChildPos
            then Inl (ErrChildPosOutOfRange, LN ln)
            else
              let newLnOld = newLeafNode (drop (keyMatchLen + 1) (ln_Key ln)) (ln_Value ln);
                  newLnNew = newLeafNode (drop (keyMatchLen + 1) (ln_Key n)) (ln_Value n);
                  bn = bn_set_child newChildPos (Some (LN newLnNew))
                        (bn_set_child oldChildPos (Some (LN newLnOld)) newBranchNode) in
              if keyMatchLen = 0 then Inr (True, Some (BN bn), oldHash)
              else Inr (True, Some (EN (newExtensionNode (take keyMatchLen (ln_Key ln)) (Some (BN bn)))), oldHash))"

definition extensionNode_insert ::
  "(node \<Rightarrow> leafNode \<Rightarrow> update_result) \<Rightarrow> trie_env \<Rightarrow> extensionNode \<Rightarrow> leafNode \<Rightarrow> update_result"
where
  "extensionNode_insert insrt env en n =
     (case extensionNode_isEmptyOrNil en of
        Inl e \<Rightarrow> Inl (e, EN en)
      | Inr _ \<Rightarrow>
        (case extensionNode_resolveIfCollapsed env en of
           Inl e \<Rightarrow> Inl (e, EN en)
         | Inr en' \<Rightarrow>
           let keyMatchLen = prefixLen (ln_Key n) (en_Key en') in
           if keyMatchLen = length (en_Key en') then
             (case en_child en' of
                None \<Rightarrow> Inl (PanicNilNode, EN en')
              | Some c \<Rightarrow>
                (case insrt c (n\<lparr>ln_Key := drop keyMatchLen (ln_Key n)\<rparr>) of
                   Inl (e, c') \<Rightarrow> Inl (e, EN (en_set_child (Some c') en'))
                 | Inr (dirty, newNode, oldHashes) \<Rightarrow>
                   if \<not> dirty then Inr (False, Some (EN (en_set_child newNode en')), [])
                   else Inr (True, Some (EN (newExtensionNode (en_Key en') newNode)),
                             oldHashes @ oldHashOf (en_base en'))))
           else if length (ln_Key n) \<le> keyMatchLen then Inl (PanicIndexOutOfRange, EN en')
           else
             let oldHash = oldHashOf (en_base en');
                 oldChildPos = en_Key en' ! keyMatchLen;
                 newChildPos = ln_Key n ! keyMatchLen in
             if childPosOutOfRange oldChildPos \<or> childPosOutOfRange newChildPos
             then Inl (ErrChildPosOutOfRange, EN en')
             else
               let following = newExtensionNode (drop (keyMatchLen + 1) (en_Key en')) (en_child en');
                   oldChild = (if length (en_Key following) < 1 then en_child en' else Some (EN following));
                   bn = bn_set_child newChildPos (Some (LN (n\<lparr>ln_Key := drop (keyMatchLen + 1) (ln_Key n)\<rparr>)))
                         (bn_set_child oldChildPos oldChild newBranchNode) in
               if keyMatchLen = 0 then Inr (True, Some (BN bn), oldHash)
               else Inr (True, Some (EN (newExtensionNode (take keyMatchLen (en_Key en')) (Some (BN bn)))), oldHash)))"

definition branchNode_insert ::
  "(node \<Rightarrow> leafNode \<Rightarrow> update_result) \<Rightarrow> trie_env \<Rightarrow> branchNode \<Rightarrow> leafNode \<Rightarrow> update_result"
where
  "branchNode_insert insrt env bn n =
     (case branchNode_isEmptyOrNil bn of
        Inl e \<Rightarrow> Inl (e, BN bn)
      | Inr _ \<Rightarrow>
        (case ln_Key n of
           [] \<Rightarrow> Inl (ErrValueTooShort, BN bn)
         | childPos # key' \<Rightarrow>
           if childPosOutOfRange childPos then Inl (ErrChildPosOutOfRange, BN bn)
           else
             (case branchNode_resolveIfCollapsed env bn childPos of
                Inl e \<Rightarrow> Inl (e, BN bn)
              | Inr bn' \<Rightarrow>
                (case bn_children bn' ! unat childPos of
                   Some c \<Rightarrow>
                     (case insrt c (n\<lparr>ln_Key := key'\<rparr>) of
                        Inl (e, c') \<Rightarrow> Inl (e, BN (bn_set_child childPos (Some c') bn'))
                      | Inr (dirty, newNode, oldHashes) \<Rightarrow>
                        if \<not> dirty then Inr (False, Some (BN (bn_set_child childPos newNode bn')), [])
                        else Inr (True, Some (BN (bn_set_base newBase (bn_set_child childPos newNode bn'))),
                                  oldHashes @ oldHashOf (bn_base bn')))
                 | None \<Rightarrow>
                     Inr (True,
                          Some (BN (bn_set_base newBase
                                 (bn_set_child childPos (Some (LN (newLeafNode key' (ln_Value n)))) bn'))),
                          oldHashOf (bn_base bn'))))))"

primrec node_insert :: "nat \<Rightarrow> trie_env \<Rightarrow> node \<Rightarrow> leafNode \<Rightarrow> update_result" where
  "node_insert 0 env m n = Inl (DepthExceeded, m)"
| "node_insert (Suc depth) env m n =
     (case m of
        LN ln \<Rightarrow> leafNode_insert ln n
      | EN en \<Rightarrow> extensionNode_insert (node_insert depth env) env en n
      | BN bn \<Rightarrow> branchNode_insert (node_insert depth env) env bn n)"

section \<open>Deletion\<close>

definition leafNode_delete :: "leafNode \<Rightarrow> bytes \<Rightarrow> update_result" where
  "leafNode_delete ln key =
     (if key = ln_Key ln then Inr (True, None, oldHashOf (ln_base ln))
      else Inr (False, Some (LN ln), []))"

definition leafNode_reduceNode :: "byte \<Rightarrow> leafNode \<Rightarrow> node \<times> bool" where
  "leafNode_reduceNode pos ln = (LN (newLeafNode (pos # ln_Key ln) (ln_Value ln)), True)"

definition extensionNode_reduceNode :: "byte \<Rightarrow> extensionNode \<Rightarrow> node \<times> bool" where
  "extensionNode_reduceNode pos en = (EN (newExtensionNode (pos # en_Key en) (en_child en)), True)"

definition branchNode_reduceNode :: "byte \<Rightarrow> branchNode \<Rightarrow> node \<times> bool" where
  "branchNode_reduceNode pos bn = (EN (newExtensionNode [pos] (Some (BN bn))), False)"

definition node_reduceNode :: "byte \<Rightarrow> node \<Rightarrow> node \<times> bool" where
  "node_reduceNode pos n =
     (case n of
        LN ln \<Rightarrow> leafNode_reduceNode pos ln
      | EN en \<Rightarrow> extensionNode_reduceNode pos en
      | BN bn \<Rightarrow> branchNode_reduceNode pos bn)"

definition extensionNode_delete ::
  "(node \<Rightarrow> bytes \<Rightarrow> update_result) \<Rightarrow> trie_env \<Rightarrow> extensionNode \<Rightarrow> bytes \<Rightarrow> update_result"
where
  "extensionNode_delete del env en key =
     (case extensionNode_isEmptyOrNil en of
        Inl e \<Rightarrow> Inl (e, EN en)
      | Inr _ \<Rightarrow>
        if length key = 0 then Inl (ErrValueTooShort, EN en)
        else if prefixLen key (en_Key en) < length (en_Key en) then Inr (False, Some (EN en), [])
        else
          (case extensionNode_resolveIfCollapsed env en of
             Inl e \<Rightarrow> Inl (e, EN en)
           | Inr en' \<Rightarrow>
             (case en_child en' of
                None \<Rightarrow> Inl (PanicNilNode, EN en')
              | Some c \<Rightarrow>
                (case del c (drop (length (en_Key en')) key) of
                   Inl (e, c') \<Rightarrow> Inl (e, EN (en_set_child (Some c') en'))
                 | Inr (dirty, newNode, oldHashes) \<Rightarrow>
                   if \<not> dirty then Inr (False, Some (EN (en_set_child newNode en')), [])
                   else
                     let oldHashes' = oldHashes @ oldHashOf (en_base en') in
                     (case newNode of
                        Some (LN ln) \<Rightarrow>
                          Inr (True, Some (LN (newLeafNode (en_Key en' @ ln_Key ln) (ln_Value ln))), oldHashes')
                      | Some (EN en'') \<Rightarrow>
                          Inr (True, Some (EN (newExtensionNode (en_Key en' @ en_Key en'') (en_child en''))), oldHashes')
                      | _ \<Rightarrow> Inr (True, Some (EN (newExtensionNode (en_Key en') newNode)), oldHashes'))))))"

definition validateDeleteInput :: "branchNode \<Rightarrow> bytes \<Rightarrow> trie_error + unit" where
  "validateDeleteInput bn key =
     bindE (branchNode_isEmptyOrNil bn) (\<lambda>_.
       case key of
         [] \<Rightarrow> Inl ErrValueTooShort
       | p # _ \<Rightarrow> errIf (childPosOutOfRange p) ErrChildPosOutOfRange)"

text \<open>\<open>handleDirtyNode\<close> drops the node's hash and records it, if the node was clean.\<close>

definition handleDirtyNode :: "branchNode \<Rightarrow> bytes list \<Rightarrow> branchNode \<times> bytes list" where
  "handleDirtyNode bn oldHashes =
     (bn_set_base ((bn_base bn)\<lparr>bhash := None\<rparr>) bn, oldHashes @ oldHashOf (bn_base bn))"

definition updateChildReference :: "byte \<Rightarrow> node option \<Rightarrow> branchNode \<Rightarrow> branchNode" where
  "updateChildReference childPos newNode bn =
     (let bn' = bn_set_child childPos newNode bn in
      if newNode = None then bn_set_enc childPos [] bn' else bn')"

definition childSlots :: "branchNode \<Rightarrow> nat list" where
  "childSlots bn =
     filter (\<lambda>i. bn_children bn ! i \<noteq> None \<or> length (bn_EncodedChildren bn ! i) \<noteq> 0) [0..<nrOfChildren]"

definition getChildPosition :: "branchNode \<Rightarrow> trie_error + nat \<times> nat" where
  "getChildPosition bn =
     (if length (bn_EncodedChildren bn) \<noteq> nrOfChildren then Inl ErrInvalidBranchNodeChildrenCount
      else Inr (length (childSlots bn), if childSlots bn = [] then 0 else last (childSlots bn)))"

definition reduceNodeIfNecessary :: "trie_env \<Rightarrow> branchNode \<Rightarrow> bytes list \<Rightarrow> update_result" where
  "reduceNodeIfNecessary env bn oldHashes =
     (case getChildPosition bn of
        Inl e \<Rightarrow> Inl (e, BN bn)
      | Inr (numChildren, p) \<Rightarrow>
        if numChildren = 1 then
          let pos = of_nat p in
          (case branchNode_resolveIfCollapsed env bn pos of
             Inl e \<Rightarrow> Inl (e, BN bn)
           | Inr bn' \<Rightarrow>
             (case bn_children bn' ! p of
                None \<Rightarrow> Inl (PanicNilNode, BN bn')
              | Some c \<Rightarrow>
                (case resolveIfCollapsed env c pos of
                   Inl e \<Rightarrow> Inl (e, BN bn')
                 | Inr c' \<Rightarrow>
                   (case node_reduceNode pos c' of
                      (newNode, newChildHash) \<Rightarrow>
                        Inr (True, Some newNode,
                             if newChildHash then oldHashes @ oldHashOf (node_base c') else oldHashes)))))
        else Inr (True, Some (BN (bn_set_base ((bn_base bn)\<lparr>bdirty := True\<rparr>) bn)), oldHashes))"

definition branchNode_delete ::
  "(node \<Rightarrow> bytes \<Rightarrow> update_result) \<Rightarrow> trie_env \<Rightarrow> branchNode \<Rightarrow> bytes \<Rightarrow> update_result"
where
  "branchNode_delete del env bn key =
     (case validateDeleteInput bn key of
        Inl e \<Rightarrow> Inl (e, BN bn)
      | Inr _ \<Rightarrow>
        let childPos = hd key; remainingKey = tl key in
        (case branchNode_resolveIfCollapsed env bn childPos of
           Inl e \<Rightarrow> Inl (e, BN bn)
         | Inr bn' \<Rightarrow>
           (case bn_children bn' ! unat childPos of
              None \<Rightarrow> Inr (False, Some (BN bn'), [])
            | Some c \<Rightarrow>
              (case del c remainingKey of
                 Inl (e, c') \<Rightarrow> Inl (e, BN (bn_set_child childPos (Some c') bn'))
               | Inr (dirty, newNode, oldHashes) \<Rightarrow>
                 if \<not> dirty then Inr (False, Some (BN (bn_set_child childPos newNode bn')), [])
                 else
                   (case handleDirtyNode bn' oldHashes of
                      (bn1, oldHashes') \<Rightarrow>
                        reduceNodeIfNecessary env (updateChildReference childPos newNode bn1) oldHashes')))))"

primrec node_delete :: "nat \<Rightarrow> trie_env \<Rightarrow> node \<Rightarrow> bytes \<Rightarrow> update_result" where
  "node_delete 0 env n key = Inl (DepthExceeded, n)"
| "node_delete (Suc depth) env n key =
     (case n of
        LN ln \<Rightarrow> leafNode_delete ln key
      | EN en \<Rightarrow> extensionNode_delete (node_delete depth env) env en key
      | BN bn \<Rightarrow> branchNode_delete (node_delete depth env) env bn key)"

end
