(* ===== verification/TrieMap.thy ===== *)
theory TrieMap
  imports TrieNode
begin

text \<open>
  Correctness of the node operations of \<open>TrieNode\<close>. \<open>wf_node\<close> is the shape the operations keep:
  leaves end in the terminator, an extension is non-empty and leads to a branch, a branch has at
  least two children, and every collapsed child can be loaded from the database. \<open>holds env n k v\<close>
  is the abstract content of the (partly collapsed) tree below \<open>n\<close>. Lookup reads it, insertion and
  deletion update it at one key, and none of them can fail on a well-formed node.
\<close>

section \<open>The children of a node, in memory or in the database\<close>

definition loaded :: "trie_env \<Rightarrow> bytes \<Rightarrow> node option" where
  "loaded env enc =
     (if enc = [] then None
      else case getNodeFromDBAndDecode env enc of
             Inl _ \<Rightarrow> None | Inr c \<Rightarrow> Some (node_setGivenHash enc c))"

definition en_at :: "trie_env \<Rightarrow> extensionNode \<Rightarrow> node option" where
  "en_at env en = (case en_child en of Some c \<Rightarrow> Some c | None \<Rightarrow> loaded env (en_EncodedChild en))"

definition bn_at :: "trie_env \<Rightarrow> branchNode \<Rightarrow> byte \<Rightarrow> node option" where
  "bn_at env bn p =
     (if childPosOutOfRange p then None
      else case bn_children bn ! unat p of
        Some c \<Rightarrow> Some c | None \<Rightarrow> loaded env (bn_EncodedChildren bn ! unat p))"

text \<open>Both slices of a branch have 17 entries and every collapsed child loads.\<close>

definition bn_shape :: "trie_env \<Rightarrow> branchNode \<Rightarrow> bool" where
  "bn_shape env bn \<longleftrightarrow>
     length (bn_EncodedChildren bn) = nrOfChildren \<and> length (bn_children bn) = nrOfChildren \<and>
     (\<forall>i<nrOfChildren. bn_children bn ! i = None \<and> bn_EncodedChildren bn ! i \<noteq> [] \<longrightarrow>
        loaded env (bn_EncodedChildren bn ! i) \<noteq> None)"

definition term_leaf :: "node \<Rightarrow> bool" where
  "term_leaf n \<longleftrightarrow> (\<exists>ln. n = LN ln \<and> ln_Key ln = [] \<and> ln_Value ln \<noteq> None)"

inductive wf_node :: "trie_env \<Rightarrow> node \<Rightarrow> bool" for env :: trie_env where
  wf_LN: "canonical (ln_Key ln) \<Longrightarrow> ln_Value ln \<noteq> None \<Longrightarrow> wf_node env (LN ln)"
| wf_EN: "en_Key en \<noteq> [] \<Longrightarrow> hasOnlyNibbles (en_Key en) \<Longrightarrow> en_at env en = Some (BN bn) \<Longrightarrow>
     wf_node env (BN bn) \<Longrightarrow> wf_node env (EN en)"
| wf_BN: "bn_shape env bn \<Longrightarrow> 2 \<le> length (childSlots bn) \<Longrightarrow>
     (\<And>p c. p < hexTerminator \<Longrightarrow> bn_at env bn p = Some c \<Longrightarrow> wf_node env c) \<Longrightarrow>
     (\<And>c. bn_at env bn hexTerminator = Some c \<Longrightarrow> term_leaf c) \<Longrightarrow> wf_node env (BN bn)"

inductive holds :: "trie_env \<Rightarrow> node \<Rightarrow> bytes \<Rightarrow> bytes \<Rightarrow> bool" for env :: trie_env where
  holds_LN: "ln_Value ln = Some v \<Longrightarrow> holds env (LN ln) (ln_Key ln) v"
| holds_EN: "en_at env en = Some c \<Longrightarrow> holds env c k v \<Longrightarrow> holds env (EN en) (en_Key en @ k) v"
| holds_BN: "bn_at env bn p = Some c \<Longrightarrow> holds env c k v \<Longrightarrow> holds env (BN bn) (p # k) v"

inductive_simps holds_LN_iff: "holds env (LN ln) k v"
inductive_simps holds_EN_iff: "holds env (EN en) k v"
inductive_simps holds_BN_iff: "holds env (BN bn) k v"
inductive_cases wf_LN_E: "wf_node env (LN ln)"
inductive_cases wf_EN_E: "wf_node env (EN en)"
inductive_cases wf_BN_E: "wf_node env (BN bn)"

lemmas holds_iffs = holds_LN_iff holds_EN_iff holds_BN_iff

fun is_BN :: "node \<Rightarrow> bool" where
  "is_BN (BN _) = True"
| "is_BN _ = False"

section \<open>Positions\<close>

lemma pos_in_range: "\<not> childPosOutOfRange p \<longleftrightarrow> p < hexTerminator \<or> p = hexTerminator"
proof -
  have "unat p < 17 \<longleftrightarrow> unat p < 16 \<or> unat p = 16" by arith
  moreover have "unat p = 16 \<longleftrightarrow> p = 16"
    using unsigned_word_eqI [of p 16] by auto
  ultimately show ?thesis
    by (simp add: childPosOutOfRange_def nrOfChildren_def hexTerminator_def word_less_nat_alt not_le)
qed

lemma pos_of_nat: "i < nrOfChildren \<Longrightarrow> unat (of_nat i :: byte) = i"
  by (simp add: unsigned_of_nat take_bit_nat_eq_self nrOfChildren_def)

lemma pos_of_nat_range: "i < nrOfChildren \<Longrightarrow> \<not> childPosOutOfRange (of_nat i)"
  by (simp add: childPosOutOfRange_def pos_of_nat)

lemma range_pos_nat: "\<not> childPosOutOfRange p \<Longrightarrow> unat p < nrOfChildren"
  by (simp add: childPosOutOfRange_def)

lemma nibble_range: "p < hexTerminator \<Longrightarrow> \<not> childPosOutOfRange p"
  by (simp add: pos_in_range)

section \<open>Branches as maps from positions to children\<close>

lemma bn_set_sel [simp]:
  "bn_EncodedChildren (bn_set_child p c bn) = bn_EncodedChildren bn"
  "bn_children (bn_set_child p c bn) = (bn_children bn)[unat p := c]"
  "bn_base (bn_set_child p c bn) = bn_base bn"
  "bn_EncodedChildren (bn_set_enc p h bn) = (bn_EncodedChildren bn)[unat p := h]"
  "bn_children (bn_set_enc p h bn) = bn_children bn"
  "bn_base (bn_set_enc p h bn) = bn_base bn"
  "bn_EncodedChildren (bn_set_base b bn) = bn_EncodedChildren bn"
  "bn_children (bn_set_base b bn) = bn_children bn"
  "bn_base (bn_set_base b bn) = b"
  by (simp_all add: bn_set_child_def bn_set_enc_def bn_set_base_def)

lemma en_set_sel [simp]:
  "en_Key (en_set_child c en) = en_Key en"
  "en_EncodedChild (en_set_child c en) = en_EncodedChild en"
  "en_child (en_set_child c en) = c"
  "en_base (en_set_child c en) = en_base en"
  "en_set_child c (en_set_child d en) = en_set_child c en"
  by (simp_all add: en_set_child_def)

lemma bn_at_out: "childPosOutOfRange p \<Longrightarrow> bn_at env bn p = None"
  by (simp add: bn_at_def)

lemma bn_at_range: "bn_at env bn p = Some c \<Longrightarrow> \<not> childPosOutOfRange p"
  by (auto simp: bn_at_def)

lemma bn_at_set_base [simp]: "bn_at env (bn_set_base b bn) = bn_at env bn"
  by (rule ext) (simp add: bn_at_def split: option.split)

lemma bn_at_set_child:
  assumes "length (bn_children bn) = nrOfChildren" "\<not> childPosOutOfRange p"
  shows "bn_at env (bn_set_child p (Some c) bn) = (bn_at env bn)(p := Some c)"
proof (rule ext)
  fix q
  have "unat p < length (bn_children bn)"
    using assms by (simp add: childPosOutOfRange_def)
  moreover have "unat p = unat q \<longleftrightarrow> p = q"
    using unsigned_word_eqI [of p q] by auto
  ultimately show "bn_at env (bn_set_child p (Some c) bn) q = ((bn_at env bn)(p := Some c)) q"
    using assms by (auto simp: bn_at_def nth_list_update split: option.split)
qed

lemma bn_at_clear:
  assumes "bn_shape env bn" "\<not> childPosOutOfRange p"
  shows "bn_at env (bn_set_enc p [] (bn_set_child p None bn)) = (bn_at env bn)(p := None)"
proof (rule ext)
  fix q
  have "unat p < length (bn_children bn)" "unat p < length (bn_EncodedChildren bn)"
    using assms by (simp_all add: childPosOutOfRange_def bn_shape_def)
  moreover have "unat p = unat q \<longleftrightarrow> p = q"
    using unsigned_word_eqI [of p q] by auto
  ultimately show "bn_at env (bn_set_enc p [] (bn_set_child p None bn)) q = ((bn_at env bn)(p := None)) q"
    using assms by (auto simp: bn_at_def nth_list_update loaded_def split: option.split)
qed

lemma bn_shape_set_base [simp]: "bn_shape env (bn_set_base b bn) = bn_shape env bn"
  by (simp add: bn_shape_def)

lemma bn_shape_set_child: "bn_shape env bn \<Longrightarrow> bn_shape env (bn_set_child p (Some c) bn)"
  by (cases "unat p < nrOfChildren")
    (auto simp: bn_shape_def nth_list_update list_update_beyond split: if_splits)

lemma bn_shape_clear: "bn_shape env bn \<Longrightarrow> bn_shape env (bn_set_enc p [] (bn_set_child p None bn))"
  by (cases "unat p < nrOfChildren")
    (auto simp: bn_shape_def nth_list_update list_update_beyond split: if_splits)

lemma bn_shape_new [simp]: "bn_shape env newBranchNode"
  by (simp add: bn_shape_def newBranchNode_def)

lemma bn_at_new [simp]: "bn_at env newBranchNode p = None"
  by (simp add: bn_at_def newBranchNode_def loaded_def childPosOutOfRange_def)

text \<open>The occupied slots that the code counts are the positions with a child.\<close>

lemma slot_occupied:
  assumes "bn_shape env bn" "\<not> childPosOutOfRange p"
  shows "bn_children bn ! unat p \<noteq> None \<or> length (bn_EncodedChildren bn ! unat p) \<noteq> 0 \<longleftrightarrow>
    bn_at env bn p \<noteq> None"
  using assms
  by (auto simp: bn_at_def bn_shape_def loaded_def childPosOutOfRange_def not_le split: option.splits)

lemma childSlots_iff:
  assumes "bn_shape env bn"
  shows "i \<in> set (childSlots bn) \<longleftrightarrow> i < nrOfChildren \<and> bn_at env bn (of_nat i) \<noteq> None"
  using slot_occupied [OF assms, of "of_nat i"]
  by (auto simp: childSlots_def pos_of_nat pos_of_nat_range)

lemma childSlots_distinct: "distinct (childSlots bn)"
  by (simp add: childSlots_def)

lemma childSlots_card:
  assumes "bn_shape env bn"
  shows "length (childSlots bn) = card {p. bn_at env bn p \<noteq> None}"
proof -
  have "bij_betw of_nat (set (childSlots bn)) {p. bn_at env bn p \<noteq> None}"
  proof (rule bij_betw_byWitness [where f' = unat])
    show "\<forall>i\<in>set (childSlots bn). unat (of_nat i :: byte) = i"
      by (simp add: childSlots_iff [OF assms] pos_of_nat)
    show "\<forall>p\<in>{p. bn_at env bn p \<noteq> None}. of_nat (unat p) = p"
      by simp
    show "of_nat ` set (childSlots bn) \<subseteq> {p. bn_at env bn p \<noteq> None}"
      by (auto simp: childSlots_iff [OF assms])
    show "unat ` {p. bn_at env bn p \<noteq> None} \<subseteq> set (childSlots bn)"
      using bn_at_range by (fastforce simp: childSlots_iff [OF assms] childPosOutOfRange_def)
  qed
  then show ?thesis
    using bij_betw_same_card distinct_card [OF childSlots_distinct] by metis
qed

lemma isEmptyOrNil_BN:
  "bn_shape env bn \<Longrightarrow> bn_at env bn p = Some c \<Longrightarrow> branchNode_isEmptyOrNil bn = Inr ()"
  using slot_occupied [of env bn p] bn_at_range [of env bn p c]
  by (auto simp: branchNode_isEmptyOrNil_def bn_shape_def list_ex_iff childPosOutOfRange_def)

section \<open>Resolving keeps the content\<close>

lemma resolve_EN:
  assumes "en_at env en = Some c"
  shows "extensionNode_isEmptyOrNil en = Inr ()"
    and "extensionNode_resolveIfCollapsed env en = Inr (en_set_child (Some c) en)"
  using assms
  by (cases en; auto simp: extensionNode_resolveIfCollapsed_def extensionNode_isEmptyOrNil_def
      errIf_def extensionNode_isCollapsed_def extensionNode_resolveCollapsed_def en_at_def loaded_def
      en_set_child_def split: option.splits sum.splits if_splits)+

lemma resolve_BN:
  assumes "bn_shape env bn" "branchNode_isEmptyOrNil bn = Inr ()" "\<not> childPosOutOfRange p"
  obtains bn' where "branchNode_resolveIfCollapsed env bn p = Inr bn'"
    and "bn_children bn' ! unat p = bn_at env bn p"
    and "bn_at env bn' = bn_at env bn" and "bn_shape env bn'"
    and "bn_base bn' = bn_base bn"
proof (cases "branchNode_isPosCollapsed bn p")
  case True
  then have coll: "bn_children bn ! unat p = None" "bn_EncodedChildren bn ! unat p \<noteq> []"
    by (auto simp: branchNode_isPosCollapsed_def)
  then have "loaded env (bn_EncodedChildren bn ! unat p) \<noteq> None"
    using assms range_pos_nat [of p] unfolding bn_shape_def by blast
  then obtain c where c: "getNodeFromDBAndDecode env (bn_EncodedChildren bn ! unat p) = Inr c"
    by (auto simp: loaded_def split: sum.splits if_splits)
  let ?c = "node_setGivenHash (bn_EncodedChildren bn ! unat p) c"
  have at: "bn_at env bn p = Some ?c"
    using coll c assms by (simp add: bn_at_def loaded_def)
  have "branchNode_resolveIfCollapsed env bn p = Inr (bn_set_child p (Some ?c) bn)"
    using True coll c assms
    by (simp add: branchNode_resolveIfCollapsed_def branchNode_resolveCollapsed_def Let_def)
  moreover have "bn_children (bn_set_child p (Some ?c) bn) ! unat p = bn_at env bn p"
    using at assms by (simp add: bn_shape_def childPosOutOfRange_def)
  moreover have "bn_at env (bn_set_child p (Some ?c) bn) = bn_at env bn"
    using at assms by (simp add: bn_at_set_child bn_shape_def fun_upd_idem)
  ultimately show ?thesis
    using that assms bn_shape_set_child bn_set_sel(3) by metis
next
  case False
  then have "branchNode_resolveIfCollapsed env bn p = Inr bn"
    using assms by (simp add: branchNode_resolveIfCollapsed_def)
  moreover have "bn_children bn ! unat p = bn_at env bn p"
    using False assms by (auto simp: bn_at_def branchNode_isPosCollapsed_def loaded_def split: option.splits)
  ultimately show ?thesis
    using that assms by blast
qed

section \<open>Lookup\<close>

text \<open>What a well-formed node looks like from the outside, for each kind.\<close>

lemma wf_BN_child:
  assumes "wf_node env (BN bn)" "canonical (p # k)" "bn_at env bn p = Some c"
  shows "wf_node env c \<and> canonical k \<or> term_leaf c \<and> k = []"
  using assms by (auto elim!: wf_BN_E simp: canonical_Cons not_le split: if_splits)

lemma wf_BN_occupied:
  assumes "wf_node env (BN bn)"
  obtains p c where "bn_at env bn p = Some c"
proof -
  from assms have "bn_shape env bn" "2 \<le> length (childSlots bn)"
    by (auto elim: wf_BN_E)
  then have "{p. bn_at env bn p \<noteq> None} \<noteq> {}"
    using childSlots_card by fastforce
  then show ?thesis using that by auto
qed

lemma wf_BN_shape:
  assumes "wf_node env (BN bn)"
  shows "bn_shape env bn" "branchNode_isEmptyOrNil bn = Inr ()"
proof -
  show "bn_shape env bn"
    using assms by (auto elim: wf_BN_E)
  moreover obtain p c where "bn_at env bn p = Some c"
    using assms by (rule wf_BN_occupied)
  ultimately show "branchNode_isEmptyOrNil bn = Inr ()"
    by (rule isEmptyOrNil_BN)
qed

text \<open>
  Replacing children of a branch by well-formed ones, without emptying a slot, keeps it well formed.
\<close>

lemma wf_BN_I:
  assumes "bn_shape env bn" "2 \<le> card {p. bn_at env bn p \<noteq> None}"
    and "\<And>p c. p < hexTerminator \<Longrightarrow> bn_at env bn p = Some c \<Longrightarrow> wf_node env c"
    and "\<And>c. bn_at env bn hexTerminator = Some c \<Longrightarrow> term_leaf c"
  shows "wf_node env (BN bn)"
  using assms by (intro wf_BN) (auto simp: childSlots_card)

lemma wf_BN_card:
  assumes "wf_node env (BN bn)"
  shows "2 \<le> card {p. bn_at env bn p \<noteq> None}"
  using assms by (auto elim!: wf_BN_E simp: childSlots_card)

lemma finite_positions: "finite {p::byte. P p}"
  by (rule finite_subset [OF subset_UNIV]) simp

lemma wf_BN_upd:
  assumes "wf_node env (BN bn)" "bn_shape env bn'" "bn_at env bn' = (bn_at env bn)(p := Some c)"
    and "p < hexTerminator \<Longrightarrow> wf_node env c" and "p = hexTerminator \<Longrightarrow> term_leaf c"
  shows "wf_node env (BN bn')"
proof (rule wf_BN_I [OF assms(2)])
  have "{q. bn_at env bn q \<noteq> None} \<subseteq> {q. bn_at env bn' q \<noteq> None}"
    using assms(3) by auto
  then have "card {q. bn_at env bn q \<noteq> None} \<le> card {q. bn_at env bn' q \<noteq> None}"
    by (intro card_mono) (rule finite_positions)
  with wf_BN_card [OF assms(1)] show "2 \<le> card {q. bn_at env bn' q \<noteq> None}" by simp
  show "wf_node env d" if "q < hexTerminator" "bn_at env bn' q = Some d" for q d
    using that assms by (auto elim!: wf_BN_E split: if_splits)
  show "term_leaf d" if "bn_at env bn' hexTerminator = Some d" for d
    using that assms by (auto elim!: wf_BN_E split: if_splits)
qed

lemma wf_BN_same:
  assumes "wf_node env (BN bn)" "bn_shape env bn'" "bn_at env bn' = bn_at env bn"
  shows "wf_node env (BN bn')"
  using assms wf_BN_card [OF assms(1)] by (intro wf_BN_I) (auto elim!: wf_BN_E)

lemma wf_EN_I:
  "en_Key en \<noteq> [] \<Longrightarrow> hasOnlyNibbles (en_Key en) \<Longrightarrow> en_child en = Some (BN bn) \<Longrightarrow>
     wf_node env (BN bn) \<Longrightarrow> wf_node env (EN en)"
  by (rule wf_EN [of en env bn]) (auto simp: en_at_def)

lemma holds_BN_at: "holds env (BN bn) (p # k) v \<longleftrightarrow> (\<exists>c. bn_at env bn p = Some c \<and> holds env c k v)"
  by (auto simp: holds_BN_iff)

lemma holds_BN_same: "bn_at env bn' = bn_at env bn \<Longrightarrow> holds env (BN bn') k v \<longleftrightarrow> holds env (BN bn) k v"
  by (auto simp: holds_BN_iff)

lemma holds_BN_Nil: "\<not> holds env (BN bn) [] v"
  by (auto simp: holds_BN_iff)

lemma holds_BN_upd:
  assumes "bn_at env bn' = (bn_at env bn)(p := Some c)"
  shows "holds env (BN bn') k v \<longleftrightarrow>
    (case k of [] \<Rightarrow> False | q # ks \<Rightarrow> if q = p then holds env c ks v else holds env (BN bn) k v)"
  using assms by (cases k) (auto simp: holds_BN_at holds_BN_Nil)

lemma holds_EN_child:
  "en_child en = Some c \<Longrightarrow> holds env (EN en) k v \<longleftrightarrow> (\<exists>k'. k = en_Key en @ k' \<and> holds env c k' v)"
  by (auto simp: holds_EN_iff en_at_def)

lemma tryGet_leaf:
  "ln_Value ln \<noteq> None \<Longrightarrow> leafNode_tryGet ln key = (ln, Inr (if key = ln_Key ln then ln_Value ln else None))"
  by (auto simp: leafNode_tryGet_def leafNode_isEmptyOrNil_def errIf_def)

text \<open>The contract of a lookup: the node keeps its content and its kind, the result is the content.\<close>

definition get_ok :: "trie_env \<Rightarrow> node \<Rightarrow> bytes \<Rightarrow> node \<times> get_result \<Rightarrow> bool" where
  "get_ok env n key res \<longleftrightarrow>
     (\<exists>n' r. res = (n', Inr r) \<and> wf_node env n' \<and> is_BN n' = is_BN n \<and>
        (\<forall>k v. holds env n' k v \<longleftrightarrow> holds env n k v) \<and> (\<forall>v. r = Some v \<longleftrightarrow> holds env n key v))"

lemma tryGet_BN:
  assumes wf: "wf_node env (BN bn)" and key: "canonical (p # k)"
    and depth: "0 < depth"
    and IH: "\<And>c. bn_at env bn p = Some c \<Longrightarrow> wf_node env c \<Longrightarrow> canonical k \<Longrightarrow>
      get_ok env c k (node_tryGet depth env c k)"
  shows "get_ok env (BN bn) (p # k) (map_prod BN id (branchNode_tryGet (node_tryGet depth env) env bn (p # k)))"
proof -
  have p: "\<not> childPosOutOfRange p"
    using key by (auto simp: canonical_Cons pos_in_range not_le split: if_splits)
  note shape = wf_BN_shape [OF wf]
  obtain bn' where bn': "branchNode_resolveIfCollapsed env bn p = Inr bn'"
      "bn_children bn' ! unat p = bn_at env bn p" "bn_at env bn' = bn_at env bn" "bn_shape env bn'"
    using resolve_BN [OF shape p] by metis
  note run = branchNode_tryGet_def shape(2) p bn'
  show ?thesis
  proof (cases "bn_at env bn p")
    case None
    then show ?thesis
      using wf_BN_same [OF wf bn'(4,3)] holds_BN_same [OF bn'(3)]
      by (auto simp: run get_ok_def holds_BN_at)
  next
    case (Some c)
    have upd: "bn_at env (bn_set_child p (Some c') bn') = (bn_at env bn)(p := Some c')" for c'
      using bn'(3,4) p by (subst bn_at_set_child) (auto simp: bn_shape_def)
    have sh: "bn_shape env (bn_set_child p (Some c') bn')" for c'
      by (rule bn_shape_set_child) (rule bn'(4))
    consider "wf_node env c" "canonical k" "p < hexTerminator" | "term_leaf c" "k = []"
      using wf_BN_child [OF wf key Some] wf key Some
      by (auto simp: canonical_Cons not_le split: if_splits)
    then show ?thesis
    proof cases
      case 1
      from IH [OF Some 1(1,2)] obtain c' r where
        c': "node_tryGet depth env c k = (c', Inr r)" "wf_node env c'"
        "\<And>k v. holds env c' k v \<longleftrightarrow> holds env c k v" "\<And>v. r = Some v \<longleftrightarrow> holds env c k v"
        unfolding get_ok_def by blast
      have "wf_node env (BN (bn_set_child p (Some c') bn'))"
        by (rule wf_BN_upd [OF wf sh upd]) (use c' 1 in auto)
      moreover have "holds env (BN (bn_set_child p (Some c') bn')) k' v \<longleftrightarrow> holds env (BN bn) k' v" for k' v
        using c'(3) Some
        by (auto simp: holds_BN_upd [OF upd] holds_BN_Nil holds_BN_at split: list.split)
      ultimately show ?thesis
        using Some c' by (auto simp: run get_ok_def holds_BN_at)
    next
      case 2
      then obtain ln where ln: "c = LN ln" "ln_Key ln = []" "ln_Value ln \<noteq> None"
        by (auto simp: term_leaf_def)
      then have "node_tryGet depth env c k = (c, Inr (ln_Value ln))"
        using depth 2 by (cases depth) (auto simp: tryGet_leaf)
      moreover have "wf_node env (BN (bn_set_child p (Some c) bn'))"
        by (rule wf_BN_same [OF wf sh]) (use Some upd in \<open>auto simp: fun_upd_idem\<close>)
      moreover have "holds env (BN (bn_set_child p (Some c) bn')) k' v \<longleftrightarrow> holds env (BN bn) k' v" for k' v
        by (rule holds_BN_same) (use Some upd in \<open>auto simp: fun_upd_idem\<close>)
      ultimately show ?thesis
        using Some ln 2 by (auto simp: run get_ok_def holds_BN_at holds_LN_iff)
    qed
  qed
qed

lemma tryGet_EN:
  assumes wf: "wf_node env (EN en)" and key: "canonical key"
    and IH: "\<And>bn k. wf_node env (BN bn) \<Longrightarrow> en_at env en = Some (BN bn) \<Longrightarrow> canonical k \<Longrightarrow>
      key = en_Key en @ k \<Longrightarrow> get_ok env (BN bn) k (node_tryGet depth env (BN bn) k)"
  shows "get_ok env (EN en) key (map_prod EN id (extensionNode_tryGet (node_tryGet depth env) env en key))"
proof -
  from wf obtain bn where en: "en_Key en \<noteq> []" "hasOnlyNibbles (en_Key en)"
      "en_at env en = Some (BN bn)" "wf_node env (BN bn)"
    by (auto elim: wf_EN_E)
  note run = extensionNode_tryGet_def resolve_EN [OF en(3)]
  show ?thesis
  proof (cases "en_Key en = take (length (en_Key en)) key")
    case True
    then obtain k where k: "key = en_Key en @ k"
      by (metis append_take_drop_id)
    then have "canonical k"
      using key en(2) by (simp add: canonical_append)
    from IH [OF en(4,3) this k] obtain c' r where
      c': "node_tryGet depth env (BN bn) k = (c', Inr r)" "wf_node env c'" "is_BN c'"
      "\<And>k v. holds env c' k v \<longleftrightarrow> holds env (BN bn) k v" "\<And>v. r = Some v \<longleftrightarrow> holds env (BN bn) k v"
      unfolding get_ok_def by auto
    have "wf_node env (EN (en_set_child (Some c') en))"
      using en c' by (cases c') (auto intro: wf_EN_I)
    with c' k en(3) show ?thesis
      by (auto simp: run get_ok_def holds_EN_iff en_at_def)
  next
    case False
    then have "\<not> holds env (EN en) key v" for v
      by (auto simp: holds_EN_iff)
    with False wf show ?thesis
      by (auto simp: run get_ok_def)
  qed
qed

lemma node_tryGet_ok:
  "wf_node env n \<Longrightarrow> canonical key \<Longrightarrow> length key < depth \<Longrightarrow>
     get_ok env n key (node_tryGet depth env n key)"
proof (induction depth arbitrary: n key)
  case (Suc depth)
  show ?case
  proof (cases n)
    case (LN ln)
    with Suc.prems have "wf_node env (LN ln)" "ln_Value ln \<noteq> None"
      by (auto elim: wf_LN_E)
    with LN show ?thesis
      by (auto simp: tryGet_leaf get_ok_def holds_LN_iff)
  next
    case (EN en)
    have "get_ok env (EN en) key (map_prod EN id (extensionNode_tryGet (node_tryGet depth env) env en key))"
    proof (rule tryGet_EN)
      show "wf_node env (EN en)" "canonical key"
        using Suc.prems EN by auto
      then have "en_Key en \<noteq> []"
        by (auto elim: wf_EN_E)
      then show "get_ok env (BN bn) k (node_tryGet depth env (BN bn) k)"
        if "wf_node env (BN bn)" "canonical k" "key = en_Key en @ k" for bn k
        using that Suc.prems(3) by (intro Suc.IH) (auto simp: neq_Nil_conv)
    qed
    with EN show ?thesis by simp
  next
    case (BN bn)
    obtain p k where key: "key = p # k"
      using Suc.prems(2) by (cases key) auto
    then have "get_ok env (BN bn) (p # k) (map_prod BN id (branchNode_tryGet (node_tryGet depth env) env bn (p # k)))"
      using Suc.prems BN by (intro tryGet_BN Suc.IH) auto
    with BN key show ?thesis by simp
  qed
qed simp

section \<open>Insertion\<close>

text \<open>
  The contract of an insertion: it succeeds, the resulting node is well formed and a branch if the
  receiver was one, and its content is the receiver's content updated at the inserted key.
\<close>

definition ins_ok :: "trie_env \<Rightarrow> node \<Rightarrow> bytes \<Rightarrow> bytes \<Rightarrow> update_result \<Rightarrow> bool" where
  "ins_ok env m key v res \<longleftrightarrow>
     (\<exists>dirty m' hs. res = Inr (dirty, Some m', hs) \<and> wf_node env m' \<and> (is_BN m \<longrightarrow> is_BN m') \<and>
        (\<forall>k w. holds env m' k w \<longleftrightarrow> (if k = key then w = v else holds env m k w)))"

text \<open>
  The split: two subtrees under different positions of a new branch, under the common prefix when
  there is one.
\<close>

lemma split_wf:
  assumes pq: "p \<noteq> q" "\<not> childPosOutOfRange p" "\<not> childPosOutOfRange q"
    and c: "p < hexTerminator \<Longrightarrow> wf_node env c" "p = hexTerminator \<Longrightarrow> term_leaf c"
    and d: "q < hexTerminator \<Longrightarrow> wf_node env d" "q = hexTerminator \<Longrightarrow> term_leaf d"
  defines "bn \<equiv> bn_set_child q (Some d) (bn_set_child p (Some c) newBranchNode)"
  shows "wf_node env (BN bn)"
    and "holds env (BN bn) k v \<longleftrightarrow>
      (\<exists>ks. k = p # ks \<and> holds env c ks v) \<or> (\<exists>ks. k = q # ks \<and> holds env d ks v)"
proof -
  have "length (bn_children newBranchNode) = nrOfChildren"
    by (simp add: newBranchNode_def)
  then have at: "bn_at env bn = (\<lambda>_. None)(p := Some c, q := Some d)"
    using pq unfolding bn_def by (subst bn_at_set_child) (auto simp: bn_at_set_child)
  show "wf_node env (BN bn)"
  proof (rule wf_BN_I)
    show "bn_shape env bn"
      unfolding bn_def by (intro bn_shape_set_child bn_shape_new)
    have "{r. bn_at env bn r \<noteq> None} = {p, q}"
      using at by auto
    then show "2 \<le> card {r. bn_at env bn r \<noteq> None}"
      using pq by simp
  qed (use at c d in \<open>auto split: if_splits\<close>)
  show "holds env (BN bn) k v \<longleftrightarrow>
      (\<exists>ks. k = p # ks \<and> holds env c ks v) \<or> (\<exists>ks. k = q # ks \<and> holds env d ks v)"
    using pq by (cases k) (auto simp: holds_BN_at holds_BN_Nil at)
qed

lemma hasOnlyNibbles_take: "hasOnlyNibbles xs \<Longrightarrow> hasOnlyNibbles (take n xs)"
  by (auto simp: hasOnlyNibbles_def list_all_iff dest: in_set_takeD)

lemma hasOnlyNibbles_drop: "hasOnlyNibbles xs \<Longrightarrow> hasOnlyNibbles (drop n xs)"
  by (auto simp: hasOnlyNibbles_def list_all_iff dest: in_set_dropD)

text \<open>A canonical key read at a position before its end: nibbles, then a position, then the rest.\<close>

lemma canonical_at:
  assumes "canonical key" "n < length key"
  shows "hasOnlyNibbles (take n key)"
    and "\<not> childPosOutOfRange (key ! n)"
    and "key ! n < hexTerminator \<Longrightarrow> canonical (drop (Suc n) key)"
    and "key ! n = hexTerminator \<Longrightarrow> drop (Suc n) key = []"
  using assms
proof (induction key arbitrary: n)
  case (Cons x xs)
  { case 1 then show ?case
      using Cons.IH(1) by (cases n) (auto simp: canonical_Cons hasOnlyNibbles_def split: if_splits) }
  { case 2 then show ?case
      using Cons.IH(2) by (cases n) (auto simp: canonical_Cons pos_in_range not_le split: if_splits) }
  { case 3 then show ?case
      using Cons.IH(3) by (cases n) (auto simp: canonical_Cons split: if_splits) }
  { case 4 then show ?case
      using Cons.IH(4) by (cases n) (auto simp: canonical_Cons split: if_splits) }
qed simp_all

text \<open>
  \<open>branch_out\<close> is what \<open>leafNode.insert\<close> and \<open>extensionNode.insert\<close> build when the keys part.
\<close>

definition branch_out :: "bytes \<Rightarrow> branchNode \<Rightarrow> node" where
  "branch_out pre bn = (if pre = [] then BN bn else EN (newExtensionNode pre (Some (BN bn))))"

lemma new_en_sel [simp]:
  "en_Key (newExtensionNode k c) = k" "en_child (newExtensionNode k c) = c"
  by (simp_all add: newExtensionNode_def)

lemma new_ln_sel [simp]:
  "ln_Key (newLeafNode k v) = k" "ln_Value (newLeafNode k v) = v"
  by (simp_all add: newLeafNode_def)

lemma branch_out_wf:
  assumes "wf_node env (BN bn)" "hasOnlyNibbles pre"
  shows "wf_node env (branch_out pre bn)"
    and "holds env (branch_out pre bn) k v \<longleftrightarrow> (\<exists>k'. k = pre @ k' \<and> holds env (BN bn) k' v)"
  using assms by (auto simp: branch_out_def holds_EN_child intro: wf_EN_I)

lemma leaf_wf_or_term:
  assumes "canonical key" "n < length key"
    and "ln_Key ln = drop (Suc n) key" "ln_Value ln \<noteq> None"
  shows "key ! n < hexTerminator \<Longrightarrow> wf_node env (LN ln)"
    and "key ! n = hexTerminator \<Longrightarrow> term_leaf (LN ln)"
  using canonical_at [OF assms(1,2)] assms by (auto simp: term_leaf_def intro: wf_LN)

lemma key_split: "n < length key \<Longrightarrow> key = take n key @ key ! n # drop (Suc n) key"
  by (rule id_take_nth_drop)

lemma insert_LN:
  assumes wf: "wf_node env (LN ln)" and n: "canonical (ln_Key n)" "ln_Value n = Some v"
  shows "ins_ok env (LN ln) (ln_Key n) v (leafNode_insert ln n)"
proof -
  from wf obtain w where ln: "canonical (ln_Key ln)" "ln_Value ln = Some w"
    by (auto elim: wf_LN_E)
  have nonempty: "leafNode_isEmptyOrNil ln = Inr ()"
    using ln by (simp add: leafNode_isEmptyOrNil_def)
  show ?thesis
  proof (cases "ln_Key n = ln_Key ln")
    case True
    with ln n wf show ?thesis
      by (auto simp: leafNode_insert_def nonempty ins_ok_def holds_LN_iff slice_def intro: wf_LN)
  next
    case False
    let ?m = "prefixLen (ln_Key n) (ln_Key ln)"
    let ?p = "ln_Key ln ! ?m" and ?q = "ln_Key n ! ?m"
    let ?c = "newLeafNode (drop (Suc ?m) (ln_Key ln)) (ln_Value ln)"
    let ?d = "newLeafNode (drop (Suc ?m) (ln_Key n)) (ln_Value n)"
    let ?bn = "bn_set_child ?q (Some (LN ?d)) (bn_set_child ?p (Some (LN ?c)) newBranchNode)"
    have m: "?m < length (ln_Key n)" "?m < length (ln_Key ln)"
      using canonical_prefixLen [OF n(1) ln(1) False] by auto
    have pq: "?p \<noteq> ?q" "\<not> childPosOutOfRange ?p" "\<not> childPosOutOfRange ?q"
      using prefixLen_differ [OF m] canonical_at(2) [OF ln(1) m(2)] canonical_at(2) [OF n(1) m(1)]
      by auto
    have run: "leafNode_insert ln n =
        Inr (True, Some (branch_out (take ?m (ln_Key ln)) ?bn), oldHashOf (ln_base ln))"
      using m pq False by (auto simp: leafNode_insert_def nonempty Let_def branch_out_def)
    note c = leaf_wf_or_term [OF ln(1) m(2), of ?c] and d = leaf_wf_or_term [OF n(1) m(1), of ?d]
    have bn: "wf_node env (BN ?bn)"
      "holds env (BN ?bn) k u \<longleftrightarrow>
         (\<exists>ks. k = ?p # ks \<and> holds env (LN ?c) ks u) \<or> (\<exists>ks. k = ?q # ks \<and> holds env (LN ?d) ks u)" for k u
      by (rule split_wf [OF pq]; use c d ln n in simp)+
    note out = branch_out_wf [OF bn(1) canonical_at(1) [OF ln(1) m(2)]]
    have keys: "ln_Key ln = take ?m (ln_Key ln) @ ?p # drop (Suc ?m) (ln_Key ln)"
      "ln_Key n = take ?m (ln_Key ln) @ ?q # drop (Suc ?m) (ln_Key n)"
      using key_split [OF m(2)] key_split [OF m(1)] prefixLen_take [of "ln_Key n" "ln_Key ln"] by simp_all
    have "holds env (branch_out (take ?m (ln_Key ln)) ?bn) k u \<longleftrightarrow>
        k = take ?m (ln_Key ln) @ ?p # drop (Suc ?m) (ln_Key ln) \<and> u = w \<or>
        k = take ?m (ln_Key ln) @ ?q # drop (Suc ?m) (ln_Key n) \<and> u = v" for k u
      unfolding out(2) bn(2) using ln n by (auto simp: holds_LN_iff)
    then have "holds env (branch_out (take ?m (ln_Key ln)) ?bn) k u \<longleftrightarrow>
        k = ln_Key ln \<and> u = w \<or> k = ln_Key n \<and> u = v" for k u
      unfolding keys [symmetric] .
    with False ln show ?thesis
      using out(1) by (auto simp: run ins_ok_def holds_LN_iff)
  qed
qed

lemma canonical_nibbles_prefixLen:
  "canonical a \<Longrightarrow> hasOnlyNibbles b \<Longrightarrow> prefixLen a b < length a"
proof (induction a b rule: prefixLen.induct)
  case (1 a as b bs)
  then show ?case
    by (auto simp: canonical_Cons hasOnlyNibbles_def split: if_splits)
qed auto

lemma prefixLen_full: "prefixLen a b = length b \<Longrightarrow> a = b @ drop (length b) a"
  using prefixLen_take [of a b] by (metis append_take_drop_id take_all order_refl)

lemma insert_EN_differ:
  assumes wf: "wf_node env (EN en)" and n: "canonical (ln_Key n)" "ln_Value n = Some v"
    and differ: "prefixLen (ln_Key n) (en_Key en) \<noteq> length (en_Key en)"
  shows "ins_ok env (EN en) (ln_Key n) v (extensionNode_insert insrt env en n)"
proof -
  from wf obtain bn0 where en: "hasOnlyNibbles (en_Key en)"
      "en_at env en = Some (BN bn0)" "wf_node env (BN bn0)"
    by (auto elim: wf_EN_E)
  let ?m = "prefixLen (ln_Key n) (en_Key en)"
  let ?p = "en_Key en ! ?m" and ?q = "ln_Key n ! ?m"
  let ?pre = "take ?m (en_Key en)" and ?post = "drop (Suc ?m) (en_Key en)"
  let ?c = "branch_out ?post bn0"
  let ?d = "n\<lparr>ln_Key := drop (Suc ?m) (ln_Key n)\<rparr>"
  let ?bn = "bn_set_child ?q (Some (LN ?d)) (bn_set_child ?p (Some ?c) newBranchNode)"
  have m: "?m < length (ln_Key n)" "?m < length (en_Key en)"
    using canonical_nibbles_prefixLen [OF n(1) en(1)] differ prefixLen_le(2) [of "ln_Key n" "en_Key en"]
    by auto
  have p: "?p < hexTerminator"
    using en(1) m(2) by (auto simp: hasOnlyNibbles_def list_all_length not_le)
  have pq: "?p \<noteq> ?q" "\<not> childPosOutOfRange ?p" "\<not> childPosOutOfRange ?q"
    using prefixLen_differ [OF m] canonical_at(2) [OF n(1) m(1)] nibble_range [OF p] by auto
  have run: "extensionNode_insert insrt env en n =
      Inr (True, Some (branch_out ?pre ?bn), oldHashOf (en_base en))"
    using m pq differ
    by (auto simp: extensionNode_insert_def resolve_EN [OF en(2)] Let_def branch_out_def)
  note c = branch_out_wf [OF en(3) hasOnlyNibbles_drop [OF en(1)]]
  note d = leaf_wf_or_term [OF n(1) m(1), of ?d]
  have bn: "wf_node env (BN ?bn)"
    "holds env (BN ?bn) k u \<longleftrightarrow>
       (\<exists>ks. k = ?p # ks \<and> holds env ?c ks u) \<or> (\<exists>ks. k = ?q # ks \<and> holds env (LN ?d) ks u)" for k u
    by (rule split_wf [OF pq]; use c d n p in simp)+
  note out = branch_out_wf [OF bn(1) hasOnlyNibbles_take [OF en(1)]]
  have keys: "en_Key en = ?pre @ ?p # ?post" "ln_Key n = ?pre @ ?q # drop (Suc ?m) (ln_Key n)"
    using key_split [OF m(2)] key_split [OF m(1)] prefixLen_take [of "ln_Key n" "en_Key en"] by simp_all
  have "holds env (branch_out ?pre ?bn) k u \<longleftrightarrow>
      (\<exists>k'. k = (?pre @ ?p # ?post) @ k' \<and> holds env (BN bn0) k' u) \<or>
      k = ?pre @ ?q # drop (Suc ?m) (ln_Key n) \<and> u = v" for k u
    unfolding out(2) bn(2) c(2) using n by (auto simp: holds_LN_iff)
  then have "holds env (branch_out ?pre ?bn) k u \<longleftrightarrow> holds env (EN en) k u \<or> k = ln_Key n \<and> u = v" for k u
    unfolding keys [symmetric] by (auto simp: holds_EN_iff en(2))
  moreover have "\<not> holds env (EN en) (ln_Key n) u" for u
  proof
    assume "holds env (EN en) (ln_Key n) u"
    then obtain k' where "ln_Key n = en_Key en @ k'"
      by (auto simp: holds_EN_iff)
    with pq(1) m show False
      by (simp add: nth_append)
  qed
  ultimately show ?thesis
    using out(1) by (auto simp: run ins_ok_def)
qed

lemma insert_EN:
  assumes wf: "wf_node env (EN en)" and n: "canonical (ln_Key n)" "ln_Value n = Some v"
    and IH: "\<And>bn n'. wf_node env (BN bn) \<Longrightarrow> canonical (ln_Key n') \<Longrightarrow> ln_Value n' = Some v \<Longrightarrow>
      ln_Key n = en_Key en @ ln_Key n' \<Longrightarrow> ins_ok env (BN bn) (ln_Key n') v (insrt (BN bn) n')"
  shows "ins_ok env (EN en) (ln_Key n) v (extensionNode_insert insrt env en n)"
proof (cases "prefixLen (ln_Key n) (en_Key en) = length (en_Key en)")
  case True
  from wf obtain bn where en: "en_Key en \<noteq> []" "hasOnlyNibbles (en_Key en)"
      "en_at env en = Some (BN bn)" "wf_node env (BN bn)"
    by (auto elim: wf_EN_E)
  obtain k0 where key: "ln_Key n = en_Key en @ k0"
    using prefixLen_full [OF True] by blast
  let ?n = "n\<lparr>ln_Key := k0\<rparr>"
  have "canonical (ln_Key ?n)"
    using n(1) canonical_append [OF en(2)] key by simp
  from IH [OF en(4) this] n key obtain dirty m' hs where
    m': "insrt (BN bn) ?n = Inr (dirty, Some m', hs)" "wf_node env m'" "is_BN m'"
    "\<And>k w. holds env m' k w \<longleftrightarrow> (if k = k0 then w = v else holds env (BN bn) k w)"
    unfolding ins_ok_def by auto
  have ok: "wf_node env (EN en')" "holds env (EN en') k w \<longleftrightarrow> (if k = ln_Key n then w = v else holds env (EN en) k w)"
    if "en_Key en' = en_Key en" "en_child en' = Some m'" for en' k w
  proof -
    show "wf_node env (EN en')"
      using that en m' by (cases m') (auto intro: wf_EN_I)
    show "holds env (EN en') k w \<longleftrightarrow> (if k = ln_Key n then w = v else holds env (EN en) k w)"
      unfolding holds_EN_child [OF that(2)] holds_EN_iff [of _ en] en(3)
      using that(1) m'(4) key by (auto split: if_splits)
  qed
  show ?thesis
    using ok m'(1) key True
    by (auto simp: extensionNode_insert_def resolve_EN [OF en(3)] Let_def ins_ok_def)
next
  case False
  then show ?thesis
    by (rule insert_EN_differ [OF wf n])
qed

text \<open>Inserting below a branch, into the child at its position.\<close>

lemma insert_child:
  assumes wf: "wf_node env (BN bn)" and n: "canonical (p # k)" "ln_Key n = k" "ln_Value n = Some v" and c: "bn_at env bn p = Some c"
    and leaf: "\<And>ln n'. insrt (LN ln) n' = leafNode_insert ln n'"
    and IH: "wf_node env c \<Longrightarrow> canonical k \<Longrightarrow> ins_ok env c k v (insrt c n)"
  shows "\<exists>dirty c' hs. insrt c n = Inr (dirty, Some c', hs) \<and>
    (p < hexTerminator \<longrightarrow> wf_node env c') \<and> (p = hexTerminator \<longrightarrow> term_leaf c') \<and>
    (\<forall>ks w. holds env c' ks w \<longleftrightarrow> (if ks = k then w = v else holds env c ks w))"
proof (cases "p = hexTerminator")
  case True
  with n have "k = []"
    by (auto simp: canonical_Cons split: if_splits)
  moreover from True c wf obtain ln where "c = LN ln" "ln_Key ln = []" "ln_Value ln \<noteq> None"
    by (auto elim!: wf_BN_E simp: term_leaf_def)
  ultimately show ?thesis
    using True n
    by (auto simp: leaf leafNode_insert_def leafNode_isEmptyOrNil_def errIf_def holds_LN_iff term_leaf_def slice_def)
next
  case False
  with n have "canonical k" "p < hexTerminator"
    by (auto simp: canonical_Cons not_le split: if_splits)
  moreover from this c wf have "wf_node env c"
    by (auto elim: wf_BN_E)
  ultimately show ?thesis
    using IH False unfolding ins_ok_def by auto
qed

lemma insert_BN:
  assumes wf: "wf_node env (BN bn)" and n: "canonical (ln_Key n)" "ln_Value n = Some v"
    and leaf: "\<And>ln n'. insrt (LN ln) n' = leafNode_insert ln n'"
    and IH: "\<And>c n'. wf_node env c \<Longrightarrow> canonical (ln_Key n') \<Longrightarrow> ln_Value n' = Some v \<Longrightarrow>
      ln_Key n' = tl (ln_Key n) \<Longrightarrow> ins_ok env c (ln_Key n') v (insrt c n')"
  shows "ins_ok env (BN bn) (ln_Key n) v (branchNode_insert insrt env bn n)"
proof -
  obtain p k where key: "ln_Key n = p # k"
    using n(1) by (cases "ln_Key n") auto
  have p: "\<not> childPosOutOfRange p"
    using n(1) key by (auto simp: canonical_Cons pos_in_range not_le split: if_splits)
  note shape = wf_BN_shape [OF wf]
  obtain bn' where bn': "branchNode_resolveIfCollapsed env bn p = Inr bn'"
      "bn_children bn' ! unat p = bn_at env bn p" "bn_at env bn' = bn_at env bn" "bn_shape env bn'"
      "bn_base bn' = bn_base bn"
    using resolve_BN [OF shape p] by metis
  have upd: "bn_at env (bn_set_child p (Some c') bn') = (bn_at env bn)(p := Some c')" for c'
    using bn'(3,4) p by (subst bn_at_set_child) (auto simp: bn_shape_def)
  have sh: "bn_shape env (bn_set_child p (Some c') bn')" for c'
    by (rule bn_shape_set_child) (rule bn'(4))
  note run = branchNode_insert_def key shape(2) p bn'
  have done_: "wf_node env (BN bn'')"
    "holds env (BN bn'') k' w \<longleftrightarrow> (if k' = ln_Key n then w = v else holds env (BN bn) k' w)"
    if "bn_at env bn'' = (bn_at env bn)(p := Some c')" "bn_shape env bn''"
      and "p < hexTerminator \<Longrightarrow> wf_node env c'" "p = hexTerminator \<Longrightarrow> term_leaf c'"
      and "\<And>ks w. holds env c' ks w \<longleftrightarrow> (if ks = k then w = v else holds env (BN bn) (p # ks) w)"
    for bn'' c' k' w
    using wf_BN_upd [OF wf that(2,1,3,4)] that(5) key
    by (auto simp: holds_BN_upd [OF that(1)] holds_BN_Nil split: list.split)
  show ?thesis
  proof (cases "bn_at env bn p")
    case None
    let ?c = "LN (newLeafNode k (ln_Value n))"
    have "p < hexTerminator \<Longrightarrow> wf_node env ?c" "p = hexTerminator \<Longrightarrow> term_leaf ?c"
      using n key by (auto simp: canonical_Cons term_leaf_def intro!: wf_LN split: if_splits)
    moreover have "holds env ?c ks w \<longleftrightarrow> (if ks = k then w = v else holds env (BN bn) (p # ks) w)" for ks w
      using n None by (auto simp: holds_LN_iff holds_BN_at)
    ultimately show ?thesis
      using None done_ [of "bn_set_base newBase (bn_set_child p (Some ?c) bn')" ?c] upd sh
      by (auto simp: run ins_ok_def)
  next
    case (Some c)
    let ?n = "n\<lparr>ln_Key := k\<rparr>"
    have "ins_ok env c k v (insrt c ?n)" if "wf_node env c" "canonical k" using IH [of c ?n] that n(2) key by simp
    from insert_child [OF wf n(1) [unfolded key] _ _ Some leaf this] n(2)
    obtain dirty c' hs where c': "insrt c ?n = Inr (dirty, Some c', hs)"
        "p < hexTerminator \<Longrightarrow> wf_node env c'" "p = hexTerminator \<Longrightarrow> term_leaf c'"
        "\<And>ks w. holds env c' ks w \<longleftrightarrow> (if ks = k then w = v else holds env (BN bn) (p # ks) w)"
      using Some by (auto simp: holds_BN_at)
    show ?thesis
      using Some c'(1) done_ [of "bn_set_child p (Some c') bn'" c', OF upd sh c'(2-4)]
        done_ [of "bn_set_base newBase (bn_set_child p (Some c') bn')" c', OF _ _ c'(2-4)] upd sh
      by (auto simp: run ins_ok_def)
  qed
qed

lemma node_insert_ok:
  "wf_node env m \<Longrightarrow> canonical (ln_Key n) \<Longrightarrow> ln_Value n = Some v \<Longrightarrow> length (ln_Key n) < depth \<Longrightarrow>
     ins_ok env m (ln_Key n) v (node_insert depth env m n)"
proof (induction depth arbitrary: m n)
  case (Suc depth)
  show ?case
  proof (cases m)
    case (LN ln)
    with Suc.prems insert_LN show ?thesis by auto
  next
    case (EN en)
    then have "en_Key en \<noteq> []"
      using Suc.prems by (auto elim: wf_EN_E)
    with EN Suc.prems show ?thesis
      by (auto intro!: insert_EN Suc.IH simp: neq_Nil_conv)
  next
    case (BN bn)
    have leaf: "node_insert depth env (LN ln) n' = leafNode_insert ln n'" for ln n'
      using Suc.prems(2,4) by (cases depth) auto
    have "ins_ok env (BN bn) (ln_Key n) v (branchNode_insert (node_insert depth env) env bn n)"
    proof (rule insert_BN [OF _ Suc.prems(2,3) leaf])
      show "wf_node env (BN bn)"
        using Suc.prems BN by simp
      show "ins_ok env c (ln_Key n') v (node_insert depth env c n')"
        if "wf_node env c" "canonical (ln_Key n')" "ln_Value n' = Some v" "ln_Key n' = tl (ln_Key n)" for c n'
        using that Suc.prems(2,4) by (cases "ln_Key n") (auto intro!: Suc.IH)
    qed
    with BN show ?thesis by simp
  qed
qed simp

end
