(* ===== verification/TrieDelete.thy ===== *)
theory TrieDelete
  imports TrieMap
begin

text \<open>
  Correctness of deletion. Deleting a leaf may leave a branch with a single child; the code then
  merges the branch into that child (\<open>reduceNode\<close>), and an extension above merges with what comes
  back. The result has the receiver's content without the deleted key, and is well formed again.
\<close>

fun is_LN :: "node \<Rightarrow> bool" where
  "is_LN (LN _) = True"
| "is_LN _ = False"

definition del_ok :: "trie_env \<Rightarrow> node \<Rightarrow> bytes \<Rightarrow> update_result \<Rightarrow> bool" where
  "del_ok env m key res \<longleftrightarrow>
     (\<exists>dirty mo hs. res = Inr (dirty, mo, hs) \<and>
        (\<forall>k w. (\<exists>m'. mo = Some m' \<and> holds env m' k w) \<longleftrightarrow> k \<noteq> key \<and> holds env m k w) \<and>
        (\<forall>m'. mo = Some m' \<longrightarrow> wf_node env m') \<and>
        (mo = None \<longrightarrow> dirty \<and> is_LN m) \<and>
        (\<not> dirty \<longrightarrow> (\<exists>m'. mo = Some m' \<and> is_BN m' = is_BN m)) \<and>
        (is_BN m \<longrightarrow> (\<forall>en. mo = Some (EN en) \<longrightarrow> en_child en \<noteq> None)))"

lemma delete_LN:
  assumes "wf_node env (LN ln)"
  shows "del_ok env (LN ln) key (leafNode_delete ln key)"
  using assms by (auto simp: leafNode_delete_def del_ok_def holds_LN_iff)

section \<open>Merging a branch into its only child\<close>

lemma reduceNode_ok:
  assumes p: "\<not> childPosOutOfRange p"
    and c: "p < hexTerminator \<Longrightarrow> wf_node env c" "p = hexTerminator \<Longrightarrow> term_leaf c"
  obtains c' m' b where "resolveIfCollapsed env c p = Inr c'" "node_reduceNode p c' = (m', b)"
    and "wf_node env m'" "\<And>k w. holds env m' k w \<longleftrightarrow> (\<exists>ks. k = p # ks \<and> holds env c ks w)"
    and "\<And>en. m' = EN en \<Longrightarrow> en_child en \<noteq> None"
proof (cases c)
  case (LN ln)
  from p consider "p < hexTerminator" | "p = hexTerminator"
    by (auto simp: pos_in_range)
  then have ln: "canonical (p # ln_Key ln) \<and> ln_Value ln \<noteq> None"
    using LN c by cases (auto simp: canonical_Cons term_leaf_def not_le elim: wf_LN_E)
  show ?thesis
  proof (rule that)
    show "resolveIfCollapsed env c p = Inr c"
      using LN ln by (simp add: leafNode_isEmptyOrNil_def errIf_def)
    show "node_reduceNode p c = (LN (newLeafNode (p # ln_Key ln) (ln_Value ln)), True)"
      by (simp add: LN node_reduceNode_def leafNode_reduceNode_def)
  qed (use LN ln in \<open>auto intro!: wf_LN simp: holds_LN_iff\<close>)
next
  case (EN en)
  then have p16: "p < hexTerminator" and wf: "wf_node env (EN en)"
    using p c by (auto simp: pos_in_range term_leaf_def)
  then obtain bn where en: "hasOnlyNibbles (en_Key en)" "en_at env en = Some (BN bn)" "wf_node env (BN bn)"
    by (auto elim: wf_EN_E)
  let ?en = "newExtensionNode (p # en_Key en) (Some (BN bn))"
  show ?thesis
  proof (rule that)
    show "resolveIfCollapsed env c p = Inr (EN (en_set_child (Some (BN bn)) en))"
      using resolve_EN [OF en(2)] EN by simp
    show "node_reduceNode p (EN (en_set_child (Some (BN bn)) en)) = (EN ?en, True)"
      by (simp add: node_reduceNode_def extensionNode_reduceNode_def)
    show "wf_node env (EN ?en)"
      using en p16 by (intro wf_EN_I) (auto simp: hasOnlyNibbles_def not_le)
    show "holds env (EN ?en) k w \<longleftrightarrow> (\<exists>ks. k = p # ks \<and> holds env c ks w)" for k w
      by (auto simp: holds_EN_child EN holds_EN_iff [of _ en] en(2))
  qed simp
next
  case (BN bn)
  then have p16: "p < hexTerminator" and wf: "wf_node env (BN bn)"
    using p c by (auto simp: pos_in_range term_leaf_def)
  obtain bn' where bn': "branchNode_resolveIfCollapsed env bn p = Inr bn'"
      "bn_at env bn' = bn_at env bn" "bn_shape env bn'"
    using resolve_BN [OF wf_BN_shape [OF wf] p] by metis
  let ?en = "newExtensionNode [p] (Some (BN bn'))"
  show ?thesis
  proof (rule that)
    show "resolveIfCollapsed env c p = Inr (BN bn')"
      using bn' BN by simp
    show "node_reduceNode p (BN bn') = (EN ?en, False)"
      by (simp add: node_reduceNode_def branchNode_reduceNode_def)
    show "wf_node env (EN ?en)"
      using p16 wf_BN_same [OF wf bn'(3,2)] by (intro wf_EN_I) (auto simp: hasOnlyNibbles_def not_le)
    show "holds env (EN ?en) k w \<longleftrightarrow> (\<exists>ks. k = p # ks \<and> holds env c ks w)" for k w
      by (auto simp: holds_EN_child BN holds_BN_same [OF bn'(2)])
  qed simp
qed

lemma reduceNodeIfNecessary_ok:
  assumes shape: "bn_shape env bn"
    and occ: "{p. bn_at env bn p \<noteq> None} \<noteq> {}"
    and wf: "\<And>p c. p < hexTerminator \<Longrightarrow> bn_at env bn p = Some c \<Longrightarrow> wf_node env c"
      "\<And>c. bn_at env bn hexTerminator = Some c \<Longrightarrow> term_leaf c"
  obtains m' hs' where "reduceNodeIfNecessary env bn hs = Inr (True, Some m', hs')"
    and "wf_node env m'" "\<And>k w. holds env m' k w \<longleftrightarrow> holds env (BN bn) k w"
    and "\<And>en. m' = EN en \<Longrightarrow> en_child en \<noteq> None"
proof (cases "length (childSlots bn) = 1")
  case True
  then obtain i where i: "childSlots bn = [i]"
    by (auto simp: length_Suc_conv)
  let ?p = "of_nat i :: byte"
  have ir: "i < nrOfChildren" and "bn_at env bn ?p \<noteq> None"
    using childSlots_iff [OF shape, of i] i by auto
  then obtain c where c: "bn_at env bn ?p = Some c" by auto
  have only: "bn_at env bn q = Some d \<Longrightarrow> q = ?p" for q d
    using childSlots_iff [OF shape, of "unat q"] bn_at_range [of env bn q d] i
    by (auto simp: childPosOutOfRange_def)
  note p = pos_of_nat_range [OF ir] and pn = pos_of_nat [OF ir]
  obtain bn' where bn': "branchNode_resolveIfCollapsed env bn ?p = Inr bn'"
      "bn_children bn' ! i = Some c"
    using resolve_BN [OF shape isEmptyOrNil_BN [OF shape c] p] c pn by metis
  obtain c' m' b where m': "resolveIfCollapsed env c ?p = Inr c'" "node_reduceNode ?p c' = (m', b)"
      "wf_node env m'" "\<And>k w. holds env m' k w \<longleftrightarrow> (\<exists>ks. k = ?p # ks \<and> holds env c ks w)"
      "\<And>en. m' = EN en \<Longrightarrow> en_child en \<noteq> None"
  proof (rule reduceNode_ok [OF p])
    show "?p < hexTerminator \<Longrightarrow> wf_node env c" "?p = hexTerminator \<Longrightarrow> term_leaf c"
      using wf c by auto
  qed (rule that)
  have "getChildPosition bn = Inr (1, i)"
    using i shape by (simp add: getChildPosition_def bn_shape_def)
  moreover have "holds env m' k w \<longleftrightarrow> holds env (BN bn) k w" for k w
    unfolding m'(4) holds_BN_iff using c by (metis only option.inject)
  ultimately show ?thesis
    by (intro that [OF _ m'(3) _ m'(5)])
      (simp_all add: reduceNodeIfNecessary_def Let_def bn' m'(1,2))
next
  case False
  let ?bn = "bn_set_base ((bn_base bn)\<lparr>bdirty := True\<rparr>) bn"
  have "0 < card {p. bn_at env bn p \<noteq> None}"
    using occ finite_positions by (simp add: card_gt_0_iff)
  with False have "2 \<le> card {p. bn_at env bn p \<noteq> None}"
    using childSlots_card [OF shape] by simp
  then have "wf_node env (BN ?bn)"
    using shape wf by (intro wf_BN_I) auto
  moreover have "holds env (BN ?bn) k w \<longleftrightarrow> holds env (BN bn) k w" for k w
    by (rule holds_BN_same) simp
  ultimately show ?thesis
    using that False shape by (simp add: reduceNodeIfNecessary_def getChildPosition_def bn_shape_def)
qed

section \<open>Deletion below an extension and below a branch\<close>

text \<open>The node an extension becomes when its branch has been replaced by another kind of node.\<close>

definition extend_by :: "bytes \<Rightarrow> node \<Rightarrow> node" where
  "extend_by ks m =
     (case m of
        LN ln \<Rightarrow> LN (newLeafNode (ks @ ln_Key ln) (ln_Value ln))
      | EN en \<Rightarrow> EN (newExtensionNode (ks @ en_Key en) (en_child en))
      | BN bn \<Rightarrow> EN (newExtensionNode ks (Some (BN bn))))"

lemma extend_by_ok:
  assumes "ks \<noteq> []" "hasOnlyNibbles ks" "wf_node env m" "\<And>en. m = EN en \<Longrightarrow> en_child en \<noteq> None"
  shows "wf_node env (extend_by ks m)"
    and "holds env (extend_by ks m) k w \<longleftrightarrow> (\<exists>k'. k = ks @ k' \<and> holds env m k' w)"
proof -
  have "wf_node env (extend_by ks m) \<and>
    (holds env (extend_by ks m) k w \<longleftrightarrow> (\<exists>k'. k = ks @ k' \<and> holds env m k' w))"
  proof (cases m)
    case (LN ln)
    with assms show ?thesis
      by (auto simp: extend_by_def holds_LN_iff canonical_append elim!: wf_LN_E intro!: wf_LN)
  next
    case (EN en)
    with assms obtain bn where en: "hasOnlyNibbles (en_Key en)" "en_child en = Some (BN bn)"
        "wf_node env (BN bn)"
      by (auto elim!: wf_EN_E simp: en_at_def split: option.splits)
    with EN assms show ?thesis
      by (auto simp: extend_by_def holds_EN_child hasOnlyNibbles_def intro!: wf_EN_I)
  next
    case (BN bn)
    with assms show ?thesis
      by (auto simp: extend_by_def holds_EN_child intro!: wf_EN_I)
  qed
  then show "wf_node env (extend_by ks m)"
    and "holds env (extend_by ks m) k w \<longleftrightarrow> (\<exists>k'. k = ks @ k' \<and> holds env m k' w)"
    by auto
qed

lemma prefixLen_append_full: "prefixLen (b @ k) b = length b"
  by (induction b) auto

lemma extensionNode_delete_run:
  assumes "en_at env en = Some c" "key \<noteq> []" "prefixLen key (en_Key en) = length (en_Key en)"
    and "del c (drop (length (en_Key en)) key) = Inr (dirty, Some m, hs)"
  shows "extensionNode_delete del env en key =
    (if dirty then Inr (True, Some (extend_by (en_Key en) m), hs @ oldHashOf (en_base en))
     else Inr (False, Some (EN (en_set_child (Some m) en)), []))"
  using assms by (simp add: extensionNode_delete_def resolve_EN [OF assms(1)] Let_def extend_by_def
      en_set_child_def split: node.splits)

lemma delete_EN:
  assumes wf: "wf_node env (EN en)" and key: "canonical key"
    and IH: "\<And>bn k. wf_node env (BN bn) \<Longrightarrow> canonical k \<Longrightarrow> key = en_Key en @ k \<Longrightarrow>
      del_ok env (BN bn) k (del (BN bn) k)"
  shows "del_ok env (EN en) key (extensionNode_delete del env en key)"
proof -
  from wf obtain bn where en: "en_Key en \<noteq> []" "hasOnlyNibbles (en_Key en)"
      "en_at env en = Some (BN bn)" "wf_node env (BN bn)"
    by (auto elim: wf_EN_E)
  have ne: "key \<noteq> []"
    using key by auto
  have en_holds: "holds env (EN en) k w \<longleftrightarrow> (\<exists>k'. k = en_Key en @ k' \<and> holds env (BN bn) k' w)" for k w
    by (auto simp: holds_EN_iff en(3))
  show ?thesis
  proof (cases "prefixLen key (en_Key en) = length (en_Key en)")
    case True
    obtain k0 where k0: "key = en_Key en @ k0"
      using prefixLen_full [OF True] by blast
    then have "canonical k0"
      using key canonical_append [OF en(2)] by simp
    from IH [OF en(4) this k0] obtain dirty m' hs where
      m': "del (BN bn) k0 = Inr (dirty, Some m', hs)" "wf_node env m'" "\<not> dirty \<Longrightarrow> is_BN m'"
      "\<And>k w. holds env m' k w \<longleftrightarrow> k \<noteq> k0 \<and> holds env (BN bn) k w"
      "\<And>en. m' = EN en \<Longrightarrow> en_child en \<noteq> None"
      unfolding del_ok_def by (auto split: option.splits)
    have "wf_node env (EN (en_set_child (Some m') en))" if "\<not> dirty"
      using m'(3) [OF that] m'(2) en by (cases m') (auto intro: wf_EN_I)
    with m'(4) k0 show ?thesis
      unfolding extensionNode_delete_run [OF en(3) ne True, of del dirty m' hs, unfolded k0, simplified, OF m'(1)] k0
      using extend_by_ok [OF en(1,2) m'(2,5)]
      by (auto simp: del_ok_def en_holds holds_EN_child)
  next
    case False
    then have "prefixLen key (en_Key en) < length (en_Key en)"
      using prefixLen_le(2) [of key "en_Key en"] by simp
    moreover from this have "\<not> holds env (EN en) key w" for w
      by (auto simp: en_holds prefixLen_append_full)
    ultimately show ?thesis
      using ne wf by (auto simp: extensionNode_delete_def resolve_EN [OF en(3)] del_ok_def)
  qed
qed

text \<open>A branch's child: what deletion leaves at its position, at the terminator position included.\<close>

lemma delete_child:
  assumes wf: "wf_node env (BN bn)" and key: "canonical (p # k)" and c: "bn_at env bn p = Some c"
    and leaf: "\<And>ln k. del (LN ln) k = leafNode_delete ln k"
    and IH: "wf_node env c \<Longrightarrow> canonical k \<Longrightarrow> del_ok env c k (del c k)"
  obtains dirty mo hs where "del c k = Inr (dirty, mo, hs)"
    and "\<And>d. mo = Some d \<Longrightarrow> p < hexTerminator \<Longrightarrow> wf_node env d"
    and "\<And>d. mo = Some d \<Longrightarrow> p = hexTerminator \<Longrightarrow> term_leaf d"
    and "\<And>ks w. (\<exists>d. mo = Some d \<and> holds env d ks w) \<longleftrightarrow> ks \<noteq> k \<and> holds env c ks w"
    and "\<not> dirty \<Longrightarrow> mo \<noteq> None"
proof (cases "p = hexTerminator")
  case True
  with key have k: "k = []"
    by (auto simp: canonical_Cons split: if_splits)
  from True c wf obtain ln where ln: "c = LN ln" "ln_Key ln = []"
    by (auto elim!: wf_BN_E simp: term_leaf_def)
  show ?thesis
    by (rule that [of True None "oldHashOf (ln_base ln)"])
      (auto simp: leaf leafNode_delete_def ln k holds_LN_iff)
next
  case False
  with key have "canonical k" "p < hexTerminator"
    by (auto simp: canonical_Cons not_le split: if_splits)
  moreover from this c wf have "wf_node env c"
    by (auto elim: wf_BN_E)
  ultimately obtain dirty mo hs where "del c k = Inr (dirty, mo, hs)"
    "\<And>d. mo = Some d \<Longrightarrow> wf_node env d" "\<not> dirty \<Longrightarrow> mo \<noteq> None"
    "\<And>ks w. (\<exists>d. mo = Some d \<and> holds env d ks w) \<longleftrightarrow> ks \<noteq> k \<and> holds env c ks w"
    using IH unfolding del_ok_def by auto
  with False show ?thesis
    by (intro that) auto
qed

lemma bn_at_updateChildReference:
  assumes "bn_shape env bn" "\<not> childPosOutOfRange p"
  shows "bn_at env (updateChildReference p mo bn) = (bn_at env bn)(p := mo)"
    and "bn_shape env (updateChildReference p mo bn)"
proof -
  have len: "length (bn_children bn) = nrOfChildren"
    using assms(1) by (simp add: bn_shape_def)
  show "bn_at env (updateChildReference p mo bn) = (bn_at env bn)(p := mo)"
    by (cases mo) (simp_all add: updateChildReference_def Let_def bn_at_clear [OF assms]
        bn_at_set_child [OF len assms(2)])
  show "bn_shape env (updateChildReference p mo bn)"
    by (cases mo) (simp_all add: updateChildReference_def Let_def bn_shape_clear [OF assms(1)]
        bn_shape_set_child [OF assms(1)])
qed

lemma occupied_after:
  assumes "2 \<le> card {q. f q \<noteq> None}" "g = f(p := mo)"
  shows "{q. g q \<noteq> None} \<noteq> {}"
proof
  assume "{q. g q \<noteq> None} = {}"
  then have "{q. f q \<noteq> None} \<subseteq> {p}"
    using assms(2) by (auto split: if_splits)
  then have "card {q. f q \<noteq> None} \<le> card {p}"
    by (intro card_mono) auto
  with assms(1) show False by simp
qed

text \<open>A branch whose child at one position was deleted is reduced to a well-formed node.\<close>

lemma reduce_after_delete:
  assumes wf: "wf_node env (BN bn)" and at: "bn_at env b = (bn_at env bn)(p := mo)" "bn_shape env b"
    and mo: "\<And>d. mo = Some d \<Longrightarrow> p < hexTerminator \<Longrightarrow> wf_node env d" "\<And>d. mo = Some d \<Longrightarrow> p = hexTerminator \<Longrightarrow> term_leaf d"
  obtains m' hs' where "reduceNodeIfNecessary env b hs = Inr (True, Some m', hs')" "wf_node env m'"
    "\<And>k w. holds env m' k w \<longleftrightarrow> holds env (BN b) k w" "\<And>en. m' = EN en \<Longrightarrow> en_child en \<noteq> None"
proof -
  have "2 \<le> card {q. bn_at env bn q \<noteq> None}"
    by (rule wf_BN_card [OF wf])
  then have occ: "{q. bn_at env b q \<noteq> None} \<noteq> {}"
    by (rule occupied_after [OF _ at(1)])
  show ?thesis
  proof (rule reduceNodeIfNecessary_ok [OF at(2) occ])
    show "wf_node env d" if "q < hexTerminator" "bn_at env b q = Some d" for q d
      using that mo(1) wf at(1) by (auto elim!: wf_BN_E split: if_splits)
    show "term_leaf d" if "bn_at env b hexTerminator = Some d" for d
      using that mo(2) wf at(1) by (auto elim!: wf_BN_E split: if_splits)
  qed (rule that)
qed

lemma delete_BN:
  assumes wf: "wf_node env (BN bn)" and key: "canonical key"
    and leaf: "\<And>ln k. del (LN ln) k = leafNode_delete ln k"
    and IH: "\<And>c k. wf_node env c \<Longrightarrow> canonical k \<Longrightarrow> k = tl key \<Longrightarrow> del_ok env c k (del c k)"
  shows "del_ok env (BN bn) key (branchNode_delete del env bn key)"
proof -
  obtain p k where pk: "key = p # k"
    using key by (cases key) auto
  have p: "\<not> childPosOutOfRange p"
    using key pk by (auto simp: canonical_Cons pos_in_range not_le split: if_splits)
  note shape = wf_BN_shape [OF wf]
  obtain bn' where bn': "branchNode_resolveIfCollapsed env bn p = Inr bn'"
      "bn_children bn' ! unat p = bn_at env bn p" "bn_at env bn' = bn_at env bn" "bn_shape env bn'"
      "bn_base bn' = bn_base bn"
    using resolve_BN [OF shape p] by metis
  note run = branchNode_delete_def validateDeleteInput_def pk shape(2) p bn'(1,2)
  show ?thesis
  proof (cases "bn_at env bn p")
    case None
    then show ?thesis
      using wf_BN_same [OF wf bn'(4,3)]
      by (auto simp: run del_ok_def holds_BN_same [OF bn'(3)] holds_BN_at)
  next
    case (Some c)
    obtain dirty mo hs where mo: "del c k = Inr (dirty, mo, hs)"
        "\<And>d. mo = Some d \<Longrightarrow> p < hexTerminator \<Longrightarrow> wf_node env d"
        "\<And>d. mo = Some d \<Longrightarrow> p = hexTerminator \<Longrightarrow> term_leaf d"
        "\<And>ks w. (\<exists>d. mo = Some d \<and> holds env d ks w) \<longleftrightarrow> ks \<noteq> k \<and> holds env c ks w"
        "\<not> dirty \<Longrightarrow> mo \<noteq> None"
    proof (rule delete_child [OF wf key [unfolded pk] Some leaf])
      show "del_ok env c k (del c k)" if "wf_node env c" "canonical k"
        using IH that pk by simp
    qed (rule that)
    define b where "b = updateChildReference p mo (fst (handleDirtyNode bn' hs))"
    define hs' where "hs' = snd (handleDirtyNode bn' hs)"
    have at: "bn_at env b = (bn_at env bn)(p := mo)" "bn_shape env b"
      using bn_at_updateChildReference [of env "fst (handleDirtyNode bn' hs)" p mo] p bn'(3,4)
      by (simp_all add: b_def handleDirtyNode_def)
    have content: "holds env (BN b') ks w \<longleftrightarrow> ks \<noteq> key \<and> holds env (BN bn) ks w"
      if "bn_at env b' = (bn_at env bn)(p := mo)" for b' ks w
      using mo(4) Some by (cases ks) (auto simp: holds_BN_at holds_BN_Nil that pk)
    show ?thesis
    proof (cases dirty)
      case False
      then obtain d where d: "mo = Some d"
        using mo(5) by auto
      have "bn_at env (bn_set_child p (Some d) bn') = (bn_at env bn)(p := mo)"
        "bn_shape env (bn_set_child p (Some d) bn')"
        using bn'(3,4) p d bn_shape_set_child by (auto simp: bn_at_set_child bn_shape_def)
      moreover from this have "wf_node env (BN (bn_set_child p (Some d) bn'))"
        using mo d by (intro wf_BN_upd [OF wf, of _ p d]) auto
      ultimately show ?thesis
        using content False d Some mo(1) by (auto simp: run del_ok_def)
    next
      case True
      obtain m' hs'' where m': "reduceNodeIfNecessary env b hs' = Inr (True, Some m', hs'')"
        "wf_node env m'" "\<And>k w. holds env m' k w \<longleftrightarrow> holds env (BN b) k w"
        "\<And>en. m' = EN en \<Longrightarrow> en_child en \<noteq> None"
        by (rule reduce_after_delete [OF wf at mo(2,3), of hs']) auto
      have "branchNode_delete del env bn key = reduceNodeIfNecessary env b hs'"
        using Some True mo(1) by (simp add: run b_def hs'_def split: prod.splits)
      with m' content [OF at(1)] show ?thesis
        by (auto simp: del_ok_def)
    qed
  qed
qed

lemma node_delete_ok:
  "wf_node env m \<Longrightarrow> canonical key \<Longrightarrow> length key < depth \<Longrightarrow>
     del_ok env m key (node_delete depth env m key)"
proof (induction depth arbitrary: m key)
  case (Suc depth)
  show ?case
  proof (cases m)
    case (LN ln)
    with Suc.prems delete_LN show ?thesis by auto
  next
    case (EN en)
    then have "en_Key en \<noteq> []"
      using Suc.prems by (auto elim: wf_EN_E)
    with EN Suc.prems show ?thesis
      by (auto intro!: delete_EN Suc.IH simp: neq_Nil_conv)
  next
    case (BN bn)
    have leaf: "node_delete depth env (LN ln) k = leafNode_delete ln k" for ln k
      using Suc.prems(2,3) by (cases depth) auto
    have "del_ok env (BN bn) key (branchNode_delete (node_delete depth env) env bn key)"
    proof (rule delete_BN [OF _ Suc.prems(2) leaf])
      show "wf_node env (BN bn)"
        using Suc.prems BN by simp
      show "del_ok env c k (node_delete depth env c k)"
        if "wf_node env c" "canonical k" "k = tl key" for c k
        using that Suc.prems(2,3) by (cases key) (auto intro!: Suc.IH)
    qed
    with BN show ?thesis by simp
  qed
qed simp

end
