(* ===== verification/KVStore.thy ===== *)
theory KVStore
  imports GoPrelude
begin

text \<open>
  The contract of a key-value store as the state code relies on it: \<open>Get\<close>, \<open>Update\<close> and \<open>Delete\<close>
  on a store that changes when it is read (nodes are loaded into memory), where any call may return
  an error, and where writing the empty value removes the key. The clients' lemmas are proved once,
  inside the locale: lookups after a write, and sequences of operations against a finite map.
\<close>

datatype store_op = OpGet bytes | OpUpdate bytes bytes | OpDelete bytes

definition put_value :: "bytes \<Rightarrow> bytes option" where
  "put_value v = (if v = [] then None else Some v)"

fun spec_op :: "store_op \<Rightarrow> (bytes \<rightharpoonup> bytes) \<Rightarrow> (bytes \<rightharpoonup> bytes)" where
  "spec_op (OpGet k) m = m"
| "spec_op (OpUpdate k v) m = m(k := put_value v)"
| "spec_op (OpDelete k) m = m(k := None)"

locale kv_store =
  fixes okS :: "'s \<Rightarrow> bool"
    and has :: "'s \<Rightarrow> bytes \<Rightarrow> bytes \<Rightarrow> bool"
    and getS :: "bytes \<Rightarrow> 's \<Rightarrow> 's \<times> ('e + bytes option)"
    and updS :: "bytes \<Rightarrow> bytes \<Rightarrow> 's \<Rightarrow> 's \<times> ('e + unit)"
    and delS :: "bytes \<Rightarrow> 's \<Rightarrow> 's \<times> ('e + unit)"
  assumes get_returns: "okS s \<Longrightarrow> \<exists>r. snd (getS k s) = Inr r \<and> (\<forall>v. r = Some v \<longleftrightarrow> has s k v)"
    and get_keeps: "okS s \<Longrightarrow> okS (fst (getS k s)) \<and> has (fst (getS k s)) = has s"
    and upd_returns: "okS s \<Longrightarrow> snd (updS k v s) = Inr () \<and> okS (fst (updS k v s))"
    and upd_has: "okS s \<Longrightarrow>
      has (fst (updS k v s)) k' w \<longleftrightarrow> (if k' = k then put_value v = Some w else has s k' w)"
    and del_returns: "okS s \<Longrightarrow> snd (delS k s) = Inr () \<and> okS (fst (delS k s))"
    and del_has: "okS s \<Longrightarrow> has (fst (delS k s)) k' w \<longleftrightarrow> k' \<noteq> k \<and> has s k' w"
begin

lemma get_eqI:
  assumes "okS s" "okS t" "\<And>v. has s k v \<longleftrightarrow> has t k' v"
  shows "snd (getS k s) = snd (getS k' t)"
proof -
  obtain r where r: "snd (getS k s) = Inr r" "\<And>v. r = Some v \<longleftrightarrow> has s k v"
    using get_returns [OF assms(1)] by blast
  obtain q where q: "snd (getS k' t) = Inr q" "\<And>v. q = Some v \<longleftrightarrow> has t k' v"
    using get_returns [OF assms(2)] by blast
  have "r = q"
    using r(2) q(2) assms(3) by (cases r; cases q) auto
  with r(1) q(1) show ?thesis by simp
qed

lemma get_value:
  assumes "okS s" "\<And>v. has s k v \<longleftrightarrow> r = Some v"
  shows "snd (getS k s) = Inr r"
proof -
  obtain q where q: "snd (getS k s) = Inr q" "\<And>v. q = Some v \<longleftrightarrow> has s k v"
    using get_returns [OF assms(1)] by blast
  have "q = r"
    using q(2) assms(2) by (cases r; cases q) auto
  with q(1) show ?thesis by simp
qed

lemma get_after_upd:
  assumes "okS s"
  shows "snd (getS k' (fst (updS k v s))) =
    (if k' = k then Inr (put_value v) else snd (getS k' s))"
  using assms upd_returns [OF assms] upd_has [OF assms] by (auto intro: get_value get_eqI)

lemma get_after_del:
  assumes "okS s"
  shows "snd (getS k' (fst (delS k s))) = (if k' = k then Inr None else snd (getS k' s))"
  using assms del_returns [OF assms] del_has [OF assms] by (auto intro: get_value get_eqI)

lemma get_after_get:
  assumes "okS s"
  shows "snd (getS k' (fst (getS k s))) = snd (getS k' s)"
  using assms get_keeps [OF assms] by (auto intro: get_eqI)

end

text \<open>Running a sequence of operations; a failing one leaves the store as the failed call left it.\<close>

fun store_step ::
  "(bytes \<Rightarrow> 's \<Rightarrow> 's \<times> ('e + bytes option)) \<Rightarrow> (bytes \<Rightarrow> bytes \<Rightarrow> 's \<Rightarrow> 's \<times> ('e + unit)) \<Rightarrow>
   (bytes \<Rightarrow> 's \<Rightarrow> 's \<times> ('e + unit)) \<Rightarrow> store_op \<Rightarrow> 's \<Rightarrow> 's"
where
  "store_step g u d (OpGet k) s = fst (g k s)"
| "store_step g u d (OpUpdate k v) s = fst (u k v s)"
| "store_step g u d (OpDelete k) s = fst (d k s)"

context kv_store
begin

lemma step_represents:
  assumes "okS s" "\<And>k v. has s k v \<longleftrightarrow> m k = Some v"
  shows "okS (store_step getS updS delS op s)"
    and "has (store_step getS updS delS op s) k v \<longleftrightarrow> spec_op op m k = Some v"
  using assms get_keeps upd_returns del_returns
  by (cases op; auto simp: upd_has del_has)+

lemma run_represents:
  assumes "okS s" "\<And>k v. has s k v \<longleftrightarrow> m k = Some v"
  shows "okS (fold (store_step getS updS delS) ops s) \<and>
    (\<forall>k v. has (fold (store_step getS updS delS) ops s) k v \<longleftrightarrow> fold spec_op ops m k = Some v)"
  using assms
proof (induction ops arbitrary: s m)
  case (Cons op ops)
  from step_represents [OF Cons.prems] show ?case
    using Cons.IH [of "store_step getS updS delS op s" "spec_op op m"] by simp
qed auto

lemma run_get:
  assumes "okS s" "\<And>k v. has s k v \<longleftrightarrow> m k = Some v"
  shows "snd (getS k (fold (store_step getS updS delS) ops s)) = Inr (fold spec_op ops m k)"
  using run_represents [OF assms, of ops] by (intro get_value) auto

end

end
