(* ===== verification/PatriciaTrie.thy ===== *)
theory PatriciaTrie
  imports TrieDelete KVStore
begin

text \<open>
  The trie object of \<open>data/trie/patriciaMerkleTrie.go\<close>: \<open>Get\<close>, \<open>Update\<close> and \<open>Delete\<close> on byte-string
  keys, and the bookkeeping of replaced hashes for pruning. The recursion of the node methods is
  bounded by the length of the hex key plus a number \<open>extra\<close> chosen by the caller: every theorem
  holds for every \<open>extra\<close>, because on a well-formed trie each call consumes a part of the key.

  \<open>RootHash\<close> and \<open>Commit\<close> hash and store the nodes and are not modelled here.
\<close>

record patriciaMerkleTrie =
  tr_root :: "node option"
  tr_oldHashes :: "bytes list"
  tr_oldRoot :: "bytes option"
  tr_newHashes :: "bytes list"

definition NewTrie :: patriciaMerkleTrie where
  "NewTrie = \<lparr>tr_root = None, tr_oldHashes = [], tr_oldRoot = Some [], tr_newHashes = []\<rparr>"

definition callDepth :: "nat \<Rightarrow> bytes \<Rightarrow> nat" where
  "callDepth extra hexKey = Suc (length hexKey + extra)"

definition trie_Get ::
  "nat \<Rightarrow> trie_env \<Rightarrow> bytes \<Rightarrow> patriciaMerkleTrie \<Rightarrow> patriciaMerkleTrie \<times> (trie_error + bytes option)"
where
  "trie_Get extra env key tr =
     (case tr_root tr of
        None \<Rightarrow> (tr, Inr None)
      | Some n \<Rightarrow>
        let hexKey = keyBytesToHex key in
        (case node_tryGet (callDepth extra hexKey) env n hexKey of
           (n', r) \<Rightarrow> (tr\<lparr>tr_root := Some n'\<rparr>, r)))"

text \<open>\<open>Update\<close> and \<open>Delete\<close> remember the root hash the trie had while it was clean.\<close>

definition rememberOldRoot :: "node \<Rightarrow> patriciaMerkleTrie \<Rightarrow> patriciaMerkleTrie" where
  "rememberOldRoot n tr = (if \<not> node_isDirty n then tr\<lparr>tr_oldRoot := node_getHash n\<rparr> else tr)"

definition takeRoot :: "update_result \<Rightarrow> patriciaMerkleTrie \<Rightarrow> patriciaMerkleTrie \<times> (trie_error + unit)" where
  "takeRoot res tr =
     (case res of
        Inl (e, n) \<Rightarrow> (tr\<lparr>tr_root := Some n\<rparr>, Inl e)
      | Inr (_, newRoot, oldHashes) \<Rightarrow>
          (tr\<lparr>tr_root := newRoot, tr_oldHashes := tr_oldHashes tr @ oldHashes\<rparr>, Inr ()))"

definition trie_Delete ::
  "nat \<Rightarrow> trie_env \<Rightarrow> bytes \<Rightarrow> patriciaMerkleTrie \<Rightarrow> patriciaMerkleTrie \<times> (trie_error + unit)"
where
  "trie_Delete extra env key tr =
     (let hexKey = keyBytesToHex key in
      case tr_root tr of
        None \<Rightarrow> (tr, Inr ())
      | Some n \<Rightarrow> takeRoot (node_delete (callDepth extra hexKey) env n hexKey) (rememberOldRoot n tr))"

definition trie_Update ::
  "nat \<Rightarrow> trie_env \<Rightarrow> bytes \<Rightarrow> bytes \<Rightarrow> patriciaMerkleTrie \<Rightarrow> patriciaMerkleTrie \<times> (trie_error + unit)"
where
  "trie_Update extra env key value tr =
     (let hexKey = keyBytesToHex key; newLn = newLeafNode hexKey (Some value) in
      if length value \<noteq> 0 then
        (case tr_root tr of
           None \<Rightarrow> (tr\<lparr>tr_root := Some (LN newLn)\<rparr>, Inr ())
         | Some n \<Rightarrow> takeRoot (node_insert (callDepth extra hexKey) env n newLn) (rememberOldRoot n tr))
      else
        (case tr_root tr of
           None \<Rightarrow> (tr, Inr ())
         | Some n \<Rightarrow> takeRoot (node_delete (callDepth extra hexKey) env n hexKey) (rememberOldRoot n tr)))"

definition AppendToOldHashes :: "bytes list \<Rightarrow> patriciaMerkleTrie \<Rightarrow> patriciaMerkleTrie" where
  "AppendToOldHashes hashes tr = tr\<lparr>tr_oldHashes := tr_oldHashes tr @ hashes\<rparr>"

definition ResetOldHashes :: "patriciaMerkleTrie \<Rightarrow> patriciaMerkleTrie \<times> bytes list" where
  "ResetOldHashes tr = (tr\<lparr>tr_oldHashes := [], tr_oldRoot := Some []\<rparr>, tr_oldHashes tr)"

definition SetNewHashes :: "bytes list \<Rightarrow> patriciaMerkleTrie \<Rightarrow> patriciaMerkleTrie" where
  "SetNewHashes hashes tr = tr\<lparr>tr_newHashes := hashes\<rparr>"

definition EmptyTrieHash :: bytes where
  "EmptyTrieHash = replicate 32 0"

definition emptyTrie :: "bytes \<Rightarrow> bool" where
  "emptyTrie root \<longleftrightarrow> length root = 0 \<or> root = EmptyTrieHash"

section \<open>Hashes to evict\<close>

text \<open>
  A \<open>ModifiedHashes\<close> map is a set of hashes; it is a list without repetitions here, in the order in
  which Go happens to iterate. The loop of \<open>removeDuplicatedKeys\<close> deletes from both maps.
\<close>

primrec removeDuplicatedKeys_loop :: "bytes list \<Rightarrow> bytes list \<times> bytes list \<Rightarrow> bytes list \<times> bytes list" where
  "removeDuplicatedKeys_loop [] st = st"
| "removeDuplicatedKeys_loop (key # keys) st =
     (case st of (oldHashes, newHashes) \<Rightarrow>
        removeDuplicatedKeys_loop keys
          (if key \<in> set newHashes then (removeAll key oldHashes, removeAll key newHashes)
           else (oldHashes, newHashes)))"

definition removeDuplicatedKeys :: "bytes list \<Rightarrow> bytes list \<Rightarrow> bytes list \<times> bytes list" where
  "removeDuplicatedKeys oldHashes newHashes = removeDuplicatedKeys_loop oldHashes (oldHashes, newHashes)"

text \<open>
  \<open>markForEviction\<close> hands at most two sets of hashes to the storage manager, each under a root hash
  with a marker byte appended: the calls are returned in order. A failing call stops the method.
\<close>

definition NewRootMark :: byte where
  "NewRootMark = 1"

definition OldRootMark :: byte where
  "OldRootMark = 0"

definition markForEviction ::
  "(bytes \<Rightarrow> bytes list \<Rightarrow> trie_error option) \<Rightarrow> patriciaMerkleTrie \<Rightarrow>
   patriciaMerkleTrie \<times> (bytes \<times> bytes list) list \<times> (trie_error + unit)"
where
  "markForEviction mark tr =
     (case tr_root tr of
        None \<Rightarrow> (tr, [], Inl PanicNilNode)
      | Some root \<Rightarrow>
        let newRoot = slice (node_getHash root) in
        if newRoot = slice (tr_oldRoot tr) then (tr, [], Inr ())
        else
          case removeDuplicatedKeys (remdups (tr_oldHashes tr)) (tr_newHashes tr) of
            (oldHashes, newHashes) \<Rightarrow>
              let tr1 = tr\<lparr>tr_newHashes := newHashes\<rparr>;
                  newCall = (newRoot @ [NewRootMark], newHashes);
                  oldCall = (slice (tr_oldRoot tr) @ [OldRootMark], oldHashes);
                  newCalls = (if newHashes \<noteq> [] \<and> newRoot \<noteq> [] then [newCall] else []) in
              case (if newCalls = [] then None else mark (fst newCall) (snd newCall)) of
                Some e \<Rightarrow> (tr1, newCalls, Inl e)
              | None \<Rightarrow>
                if oldHashes \<noteq> [] \<and> slice (tr_oldRoot tr) \<noteq> [] then
                  (tr1\<lparr>tr_oldRoot := Some (fst oldCall)\<rparr>, newCalls @ [oldCall],
                   case mark (fst oldCall) (snd oldCall) of Some e \<Rightarrow> Inl e | None \<Rightarrow> Inr ())
                else (tr1, newCalls, Inr ()))"

section \<open>The trie is a key-value store\<close>

definition wf_trie :: "trie_env \<Rightarrow> patriciaMerkleTrie \<Rightarrow> bool" where
  "wf_trie env tr \<longleftrightarrow> (case tr_root tr of None \<Rightarrow> True | Some n \<Rightarrow> wf_node env n)"

definition trie_has :: "trie_env \<Rightarrow> patriciaMerkleTrie \<Rightarrow> bytes \<Rightarrow> bytes \<Rightarrow> bool" where
  "trie_has env tr key v \<longleftrightarrow> (\<exists>n. tr_root tr = Some n \<and> holds env n (keyBytesToHex key) v)"

lemma rememberOldRoot_root [simp]:
  "tr_root (rememberOldRoot n tr) = tr_root tr" "tr_oldHashes (rememberOldRoot n tr) = tr_oldHashes tr"
  by (simp_all add: rememberOldRoot_def)

lemma trie_Get_step:
  assumes "wf_trie env tr"
  shows "\<exists>tr' r. trie_Get extra env key tr = (tr', Inr r) \<and> (\<forall>v. r = Some v \<longleftrightarrow> trie_has env tr key v) \<and>
    wf_trie env tr' \<and> trie_has env tr' = trie_has env tr"
proof (cases "tr_root tr")
  case None
  then show ?thesis
    using assms by (simp add: trie_Get_def trie_has_def)
next
  case (Some n)
  with assms have "get_ok env n (keyBytesToHex key)
      (node_tryGet (callDepth extra (keyBytesToHex key)) env n (keyBytesToHex key))"
    by (intro node_tryGet_ok) (auto simp: wf_trie_def keyBytesToHex_canonical callDepth_def)
  then show ?thesis
    using Some by (auto simp: get_ok_def trie_Get_def Let_def wf_trie_def trie_has_def fun_eq_iff)
qed

lemma takeRoot_delete:
  assumes "wf_trie env tr" "tr_root tr = Some n"
    and "hexKey = keyBytesToHex key"
  shows "\<exists>tr'. takeRoot (node_delete (callDepth extra hexKey) env n hexKey) (rememberOldRoot n tr) = (tr', Inr ()) \<and>
    wf_trie env tr' \<and> (\<forall>k w. trie_has env tr' k w \<longleftrightarrow> k \<noteq> key \<and> trie_has env tr k w)"
proof -
  have "del_ok env n hexKey (node_delete (callDepth extra hexKey) env n hexKey)"
    using assms by (intro node_delete_ok) (auto simp: wf_trie_def keyBytesToHex_canonical callDepth_def)
  then obtain dirty mo hs where mo: "node_delete (callDepth extra hexKey) env n hexKey = Inr (dirty, mo, hs)"
      "\<And>k w. (\<exists>m'. mo = Some m' \<and> holds env m' k w) \<longleftrightarrow> k \<noteq> hexKey \<and> holds env n k w"
      "\<And>m'. mo = Some m' \<Longrightarrow> wf_node env m'"
    unfolding del_ok_def by blast
  show ?thesis
    using mo assms(2,3) keyBytesToHex_inj
    by (auto simp: takeRoot_def wf_trie_def trie_has_def dest: injD split: option.splits)
qed

lemma trie_Delete_step:
  assumes "wf_trie env tr"
  shows "\<exists>tr'. trie_Delete extra env key tr = (tr', Inr ()) \<and> wf_trie env tr' \<and>
    (\<forall>k w. trie_has env tr' k w \<longleftrightarrow> k \<noteq> key \<and> trie_has env tr k w)"
  using assms takeRoot_delete [OF assms _ refl, of _ extra key]
  by (cases "tr_root tr") (auto simp: trie_Delete_def Let_def trie_has_def)

lemma trie_Update_step:
  assumes "wf_trie env tr"
  shows "\<exists>tr'. trie_Update extra env key value tr = (tr', Inr ()) \<and> wf_trie env tr' \<and>
    (\<forall>k w. trie_has env tr' k w \<longleftrightarrow> (if k = key then put_value value = Some w else trie_has env tr k w))"
proof (cases "value = []")
  case True
  then have "trie_Update extra env key value tr = trie_Delete extra env key tr"
    by (simp add: trie_Update_def trie_Delete_def Let_def)
  with True trie_Delete_step [OF assms, of extra key] show ?thesis
    by (auto simp: put_value_def)
next
  case False
  let ?hex = "keyBytesToHex key"
  let ?ln = "newLeafNode ?hex (Some value)"
  have inj: "keyBytesToHex k = ?hex \<longleftrightarrow> k = key" for k
    using keyBytesToHex_inj by (auto dest: injD)
  show ?thesis
  proof (cases "tr_root tr")
    case None
    with False show ?thesis
      using keyBytesToHex_canonical [of key]
      by (auto simp: trie_Update_def Let_def wf_trie_def trie_has_def put_value_def holds_LN_iff inj intro: wf_LN)
  next
    case (Some n)
    with assms have "ins_ok env n (ln_Key ?ln) value (node_insert (callDepth extra ?hex) env n ?ln)"
      by (intro node_insert_ok) (auto simp: wf_trie_def keyBytesToHex_canonical callDepth_def)
    with Some False show ?thesis
      by (auto simp: ins_ok_def trie_Update_def Let_def takeRoot_def wf_trie_def trie_has_def put_value_def inj)
  qed
qed

interpretation pmt: kv_store "wf_trie env" "trie_has env" "trie_Get extra env" "trie_Update extra env"
  "trie_Delete extra env"
proof
  fix s k v k' w
  assume wf: "wf_trie env s"
  show "\<exists>r. snd (trie_Get extra env k s) = Inr r \<and> (\<forall>v. r = Some v \<longleftrightarrow> trie_has env s k v)"
    "wf_trie env (fst (trie_Get extra env k s)) \<and> trie_has env (fst (trie_Get extra env k s)) = trie_has env s"
    using trie_Get_step [OF wf, of extra k] by auto
  show "snd (trie_Update extra env k v s) = Inr () \<and> wf_trie env (fst (trie_Update extra env k v s))"
    "trie_has env (fst (trie_Update extra env k v s)) k' w \<longleftrightarrow>
       (if k' = k then put_value v = Some w else trie_has env s k' w)"
    using trie_Update_step [OF wf, of extra k v] by auto
  show "snd (trie_Delete extra env k s) = Inr () \<and> wf_trie env (fst (trie_Delete extra env k s))"
    "trie_has env (fst (trie_Delete extra env k s)) k' w \<longleftrightarrow> k' \<noteq> k \<and> trie_has env s k' w"
    using trie_Delete_step [OF wf, of extra k] by auto
qed

section \<open>Properties of the trie\<close>

text \<open>
  C2: a trie that was created empty and then went through any sequence of \<open>Get\<close>, \<open>Update\<close> and
  \<open>Delete\<close> calls answers every lookup, without error, as the finite map obtained by the same
  sequence of writes and removals would.
\<close>

theorem trie_run_refines_map:
  "snd (trie_Get extra env key
      (fold (store_step (trie_Get extra env) (trie_Update extra env) (trie_Delete extra env)) ops NewTrie))
   = Inr (fold spec_op ops Map.empty key)"
  by (rule pmt.run_get) (simp_all add: NewTrie_def wf_trie_def trie_has_def)

text \<open>
  C11: \<open>Update\<close> on a well-formed trie, parts of which may still be in the database, succeeds, leaves
  a well-formed trie, and afterwards \<open>Get\<close> answers the written value for the key (nothing, if the
  value is empty) and what it answered before for every other key.
\<close>

theorem trie_Update_correct:
  assumes "wf_trie env tr"
  shows "snd (trie_Update extra env key value tr) = Inr () \<and>
    wf_trie env (fst (trie_Update extra env key value tr)) \<and>
    snd (trie_Get extra env key' (fst (trie_Update extra env key value tr))) =
      (if key' = key then Inr (put_value value) else snd (trie_Get extra env key' tr))"
  using pmt.upd_returns [OF assms] pmt.get_after_upd [OF assms] by simp

text \<open>
  C12: \<open>Delete\<close> on a well-formed trie succeeds, leaves a well-formed trie in which the key is
  absent, and does not change the answer for any other key.
\<close>

theorem trie_Delete_correct:
  assumes "wf_trie env tr"
  shows "snd (trie_Delete extra env key tr) = Inr () \<and>
    wf_trie env (fst (trie_Delete extra env key tr)) \<and>
    snd (trie_Get extra env key' (fst (trie_Delete extra env key tr))) =
      (if key' = key then Inr None else snd (trie_Get extra env key' tr))"
  using pmt.del_returns [OF assms] pmt.get_after_del [OF assms] by simp

subsection \<open>A trie whose leaves are in the database\<close>

text \<open>
  A root branch with two collapsed children: the leaves for the keys \<open>0x10\<close> and \<open>0x12\<close>, stored
  under the hashes \<open>[1]\<close> and \<open>[2]\<close>. A leaf's encoding is its key and value and the type byte.
\<close>

definition sample_env :: trie_env where
  "sample_env = \<lparr>
     dbGet = (\<lambda>h. if h = [1] then Some [1, 16, 7, 1] else if h = [2] then Some [1, 16, 8, 1] else None),
     unmarshalLn = (\<lambda>b. Some (butlast b, Some [last b])),
     unmarshalEn = (\<lambda>b. None),
     unmarshalBn = (\<lambda>b. None)\<rparr>"

definition sample_branch :: branchNode where
  "sample_branch = BranchNode ((replicate 17 [])[0 := [1], 2 := [2]]) (replicate 17 None)
     \<lparr>bhash = Some [9], bdirty = False\<rparr>"

definition sample_trie :: patriciaMerkleTrie where
  "sample_trie = NewTrie\<lparr>tr_root := Some (BN sample_branch)\<rparr>"

definition sample_leaf :: "byte \<Rightarrow> byte \<Rightarrow> node" where
  "sample_leaf v h = LN \<lparr>ln_Key = [1, 16], ln_Value = Some [v], ln_base = \<lparr>bhash = Some [h], bdirty = False\<rparr>\<rparr>"

lemma sample_loaded: "loaded sample_env [] = None" "loaded sample_env [1] = Some (sample_leaf 7 1)"
  "loaded sample_env [2] = Some (sample_leaf 8 2)"
  by code_simp+

lemma sample_at: "bn_at sample_env sample_branch p =
  (if p = 0 then Some (sample_leaf 7 1) else if p = 2 then Some (sample_leaf 8 2) else None)"
proof (cases "childPosOutOfRange p")
  case True
  then have "p \<noteq> 0" "p \<noteq> 2" by (auto simp: childPosOutOfRange_def nrOfChildren_def)
  with True show ?thesis by (simp add: bn_at_def)
next
  case False
  have "unat p = 0 \<longleftrightarrow> p = 0" "unat p = 2 \<longleftrightarrow> p = 2"
    using word_unat_eq_iff [of p 2] by (simp_all add: unat_eq_0)
  with False show ?thesis
    by (simp add: bn_at_def sample_branch_def childPosOutOfRange_def nrOfChildren_def nth_list_update sample_loaded)
qed

lemma sample_trie_wf: "wf_trie sample_env sample_trie"
proof -
  have "wf_node sample_env (BN sample_branch)"
  proof (rule wf_BN)
    show "bn_shape sample_env sample_branch"
      by (auto simp: bn_shape_def sample_branch_def nrOfChildren_def nth_list_update sample_loaded)
    show "2 \<le> length (childSlots sample_branch)"
      by code_simp
    have "\<not> (16::byte) \<le> 1"
      by (simp add: word_le_nat_alt)
    then show "wf_node sample_env c" if "bn_at sample_env sample_branch p = Some c" for p c
      using that by (auto simp: sample_at sample_leaf_def canonical_Cons hexTerminator_def split: if_splits intro!: wf_LN)
    show "term_leaf c" if "bn_at sample_env sample_branch hexTerminator = Some c" for c
      using that by (simp add: sample_at hexTerminator_def)
  qed
  then show ?thesis by (simp add: wf_trie_def sample_trie_def)
qed

lemma sample_get: "snd (trie_Get 0 sample_env [0x12] sample_trie) = Inr (Some [8])"
  by code_simp

theorem trie_Update_correct_witness:
  "wf_trie sample_env sample_trie \<and>
   snd (trie_Get 0 sample_env [0x12] (fst (trie_Update 0 sample_env [0x10] [5] sample_trie))) = Inr (Some [8])"
  using trie_Update_correct [OF sample_trie_wf, of 0 "[0x10]" "[5]" "[0x12]"] sample_trie_wf sample_get by simp

theorem trie_Delete_correct_witness:
  "wf_trie sample_env sample_trie \<and>
   snd (trie_Get 0 sample_env [0x12] (fst (trie_Delete 0 sample_env [0x12] sample_trie))) = Inr None"
  using trie_Delete_correct [OF sample_trie_wf, of 0 "[0x12]" "[0x12]"] sample_trie_wf by simp

section \<open>Properties of the eviction sets\<close>

lemma removeDuplicatedKeys_loop_sets:
  "set (fst (removeDuplicatedKeys_loop keys (old, new))) = set old - set keys \<inter> set new \<and>
   set (snd (removeDuplicatedKeys_loop keys (old, new))) = set new - set keys"
proof (induction keys arbitrary: old new)
  case (Cons key keys)
  then show ?case
    by (cases "key \<in> set new") auto
qed simp

lemma removeDuplicatedKeys_sets:
  "set (fst (removeDuplicatedKeys old new)) = set old - set new"
  "set (snd (removeDuplicatedKeys old new)) = set new - set old"
  using removeDuplicatedKeys_loop_sets [of old old new] by (auto simp: removeDuplicatedKeys_def)

text \<open>
  C26: whatever the order in which Go iterates over its maps, \<open>markForEviction\<close> never marks a hash
  that is both among the hashes the trie dropped and among the hashes it wrote: the nodes the new
  root shares with the old one are not evicted. A hash is only marked under the old root if it was
  dropped, and under the new root if it was written.
\<close>

theorem markForEviction_spares_shared:
  assumes "markForEviction mark tr = (tr', calls, r)" and "(root, hashes) \<in> set calls" and "h \<in> set hashes"
  shows "\<not> (h \<in> set (tr_oldHashes tr) \<and> h \<in> set (tr_newHashes tr)) \<and>
    (last root = OldRootMark \<longrightarrow> h \<in> set (tr_oldHashes tr)) \<and>
    (last root = NewRootMark \<longrightarrow> h \<in> set (tr_newHashes tr))"
proof -
  obtain old new where *: "removeDuplicatedKeys (remdups (tr_oldHashes tr)) (tr_newHashes tr) = (old, new)"
    by fastforce
  have "(last root = NewRootMark \<and> hashes = new) \<or> (last root = OldRootMark \<and> hashes = old)"
    using assms(1,2) by (auto simp: markForEviction_def * Let_def split: option.splits if_splits)
  with assms(3) removeDuplicatedKeys_sets [of "remdups (tr_oldHashes tr)" "tr_newHashes tr"] show ?thesis
    by (auto simp: * NewRootMark_def OldRootMark_def)
qed

definition evict_trie :: patriciaMerkleTrie where
  "evict_trie = sample_trie\<lparr>tr_oldRoot := Some [4], tr_oldHashes := [[1], [2], [3]], tr_newHashes := [[2], [5]]\<rparr>"

theorem markForEviction_spares_shared_witness:
  "snd (markForEviction (\<lambda>_ _. None) evict_trie) = ([([9, 1], [[5]]), ([4, 0], [[1], [3]])], Inr ()) \<and>
   \<not> ([5] \<in> set (tr_oldHashes evict_trie) \<and> [5] \<in> set (tr_newHashes evict_trie))"
proof -
  have "snd (markForEviction (\<lambda>_ _. None) evict_trie) = ([([9, 1], [[5]]), ([4, 0], [[1], [3]])], Inr ())"
    by code_simp
  then show ?thesis
    using markForEviction_spares_shared [of "\<lambda>_ _. None" evict_trie "fst (markForEviction (\<lambda>_ _. None) evict_trie)"
        "[([9, 1], [[5]]), ([4, 0], [[1], [3]])]" "Inr ()" "[9, 1]" "[[5]]" "[5]"]
    by (simp add: prod_eq_iff)
qed

end
