(* ===== verification/GoFloat.thy ===== *)
theory GoFloat
  imports GoPrelude "HOL-Library.Log_Nat"
begin

text \<open>
  Binary floating point as the reward computations use it. Every value involved is far from the
  smallest and the largest exponent of a float64, so a finite float64 and a \<open>big.Float\<close> with 53 bits of
  precision are rational numbers, and each operation is the exact one followed by rounding to 53
  significant bits, ties to even (\<open>round53\<close>).
\<close>

section \<open>Rounding\<close>

definition expo :: "rat \<Rightarrow> int" where
  "expo x =
     (let (n, d) = quotient_of x; e = bitlen n - bitlen d in if 2 powi e \<le> x then e else e - 1)"

definition rne :: "rat \<Rightarrow> int" where
  "rne y =
     (let f = \<lfloor>y\<rfloor>; r = y - of_int f in
      if r < 1/2 then f else if r > 1/2 then f + 1 else if even f then f else f + 1)"

definition round53 :: "rat \<Rightarrow> rat" where
  "round53 x =
     (if x = 0 then 0
      else let u = 2 powi (expo \<bar>x\<bar> - 52) in sgn x * of_int (rne (\<bar>x\<bar> / u)) * u)"

text \<open>Conversion of a float to an integer drops the fraction; \<open>big.Float.Int64\<close> saturates.\<close>

definition truncR :: "rat \<Rightarrow> int" where
  "truncR x = (if x < 0 then - \<lfloor>- x\<rfloor> else \<lfloor>x\<rfloor>)"

definition bigFloatInt64 :: "rat \<Rightarrow> int" where
  "bigFloatInt64 x = max MinInt64 (min MaxInt64 (truncR x))"

section \<open>Lemmas\<close>

lemma bitlen_lower: "0 < n \<Longrightarrow> (2::rat) powi (bitlen n - 1) \<le> of_int n"
proof -
  assume n: "0 < n"
  have "0 \<le> bitlen n - 1"
    using n bitlen_le_iff_power [of n 0] by (simp add: not_less)
  then have "(2::rat) powi (bitlen n - 1) = of_int (2 ^ nat (bitlen n - 1))"
    by (simp add: power_int_def)
  also have "\<dots> \<le> of_int n"
    using bitlen_bounds [OF n] by (simp only: of_int_le_iff)
  finally show ?thesis .
qed

lemma bitlen_upper: "0 < n \<Longrightarrow> of_int n < (2::rat) powi (bitlen n)"
proof -
  assume n: "0 < n"
  have "(2::rat) powi (bitlen n) = of_int (2 ^ nat (bitlen n))"
    using bitlen_nonneg [of n] by (simp add: power_int_def)
  then show ?thesis
    using bitlen_bounds [OF n] by (simp only: of_int_less_iff)
qed

lemma powi_pos [simp]: "(0::rat) < 2 powi e"
  by (simp add: zero_less_power_int)

lemma expo_bounds:
  assumes "0 < x"
  shows "2 powi (expo x) \<le> x" "x < 2 powi (expo x + 1)"
proof -
  obtain n d where q: "quotient_of x = (n, d)" by fastforce
  then have d: "0 < d" and x: "x = of_int n / of_int d"
    by (auto dest: quotient_of_denom_pos quotient_of_div)
  with assms have n: "0 < n"
    by (simp add: zero_less_divide_iff)
  let ?e = "bitlen n - bitlen d"
  have up: "x < 2 powi (?e + 1)"
  proof -
    have "of_int n < (2::rat) powi (bitlen n)" by (rule bitlen_upper [OF n])
    also have "\<dots> = 2 powi (?e + 1) * 2 powi (bitlen d - 1)"
      by (simp add: power_int_add [symmetric])
    also have "\<dots> \<le> 2 powi (?e + 1) * of_int d"
      by (intro mult_left_mono bitlen_lower d) (simp add: less_imp_le)
    finally show ?thesis
      using d by (simp add: x divide_less_eq)
  qed
  have lo: "2 powi (?e - 1) \<le> x"
  proof -
    have "2 powi (?e - 1) * of_int d \<le> 2 powi (?e - 1) * (2::rat) powi (bitlen d)"
      by (intro mult_left_mono less_imp_le [OF bitlen_upper [OF d]]) (simp add: less_imp_le)
    also have "\<dots> = 2 powi (bitlen n - 1)"
      by (simp add: power_int_add [symmetric])
    also have "\<dots> \<le> of_int n" by (rule bitlen_lower [OF n])
    finally show ?thesis
      using d by (simp add: x le_divide_eq)
  qed
  show "2 powi (expo x) \<le> x" "x < 2 powi (expo x + 1)"
    using up lo by (auto simp: expo_def q Let_def)
qed

lemma powi_mono: "a \<le> b \<Longrightarrow> (2::rat) powi a \<le> 2 powi b"
  by (simp add: power_int_increasing)

lemma expo_mono: "0 < x \<Longrightarrow> x \<le> y \<Longrightarrow> expo x \<le> expo y"
proof (rule ccontr)
  assume "0 < x" "x \<le> y" "\<not> expo x \<le> expo y"
  then have "2 powi (expo y + 1) \<le> (2::rat) powi (expo x)"
    by (intro powi_mono) simp
  with expo_bounds [of x] expo_bounds [of y] \<open>0 < x\<close> \<open>x \<le> y\<close> show False by linarith
qed

lemma rne_cases: "rne y = \<lfloor>y\<rfloor> \<or> rne y = \<lfloor>y\<rfloor> + 1" 
  by (auto simp: rne_def Let_def)

lemma rne_near: "2 * of_int (rne y) \<le> 2 * y + 1" "2 * y - 1 \<le> 2 * of_int (rne y)"
proof -
  have f: "of_int \<lfloor>y\<rfloor> \<le> y" "y < of_int \<lfloor>y\<rfloor> + 1" using floor_correct [of y] by simp_all
  define g :: rat where "g = of_int \<lfloor>y\<rfloor>"
  have "of_int (rne y) = g \<and> y - g \<le> 1/2 \<or> of_int (rne y) = g + 1 \<and> 1/2 \<le> y - g"
    unfolding rne_def Let_def g_def [symmetric] by (simp add: g_def split: if_split)
  then show "2 * of_int (rne y) \<le> 2 * y + 1" "2 * y - 1 \<le> 2 * of_int (rne y)"
    using f unfolding g_def [symmetric] by auto
qed

lemma rne_of_int [simp]: "rne (of_int k) = k"
  by (simp add: rne_def)

lemma rne_mono: "x \<le> y \<Longrightarrow> rne x \<le> rne y"
proof (cases "\<lfloor>x\<rfloor> = \<lfloor>y\<rfloor>")
  case True
  assume "x \<le> y"
  with True show ?thesis by (auto simp: rne_def Let_def)
next
  case False
  assume "x \<le> y"
  with False have "\<lfloor>x\<rfloor> + 1 \<le> \<lfloor>y\<rfloor>"
    using floor_mono [of x y] by simp
  with rne_cases [of x] rne_cases [of y] show ?thesis by linarith
qed

lemma rne_ge: "of_int k \<le> y \<Longrightarrow> k \<le> rne y"
  using rne_mono [of "of_int k" y] by simp

lemma rne_le: "y \<le> of_int k \<Longrightarrow> rne y \<le> k"
  using rne_mono [of y "of_int k"] by simp

lemma round53_0 [simp]: "round53 0 = 0"
  by (simp add: round53_def)

lemma round53_minus: "round53 (- x) = - round53 x"
  by (simp add: round53_def Let_def sgn_minus)

lemma round53_pos:
  assumes "0 < x"
  shows "2 powi (expo x) \<le> round53 x" "round53 x \<le> 2 powi (expo x + 1)"
proof -
  define u :: rat where "u = 2 powi (expo x - 52)"
  have u: "0 < u" by (simp add: u_def)
  have r: "round53 x = of_int (rne (x / u)) * u"
    using assms by (simp add: round53_def u_def Let_def)
  have p: "2 powi (expo x) = of_int (2 ^ 52) * u" "2 powi (expo x + 1) = of_int (2 ^ 53) * u"
  proof -
    have "2 powi (expo x) = 2 powi 52 * u" "2 powi (expo x + 1) = 2 powi 53 * u"
      unfolding u_def by (simp_all add: power_int_add [symmetric] add.commute del: power_int_numeral)
    then show "2 powi (expo x) = of_int (2 ^ 52) * u" "2 powi (expo x + 1) = of_int (2 ^ 53) * u"
      by simp_all
  qed
  have "of_int (2 ^ 52) \<le> x / u" "x / u \<le> of_int (2 ^ 53)"
    using expo_bounds [OF assms] u unfolding p by (simp_all add: le_divide_eq divide_le_eq)
  then have "2 ^ 52 \<le> rne (x / u)" "rne (x / u) \<le> 2 ^ 53"
    by (auto intro: rne_ge rne_le)
  then have "(of_int (2 ^ 52) :: rat) \<le> of_int (rne (x / u))" "(of_int (rne (x / u)) :: rat) \<le> of_int (2 ^ 53)"
    by (simp_all only: of_int_le_iff)
  then show "2 powi (expo x) \<le> round53 x" "round53 x \<le> 2 powi (expo x + 1)"
    unfolding p r using u by (simp_all add: mult_right_mono)
qed

lemma round53_mono_pos:
  assumes "0 < x" "x \<le> y"
  shows "round53 x \<le> round53 y"
proof (cases "expo x = expo y")
  case True
  have "rne (x / 2 powi (expo y - 52)) \<le> rne (y / 2 powi (expo y - 52))"
    using assms by (intro rne_mono divide_right_mono) (simp_all add: less_imp_le)
  with True assms show ?thesis
    by (simp add: round53_def Let_def)
next
  case False
  with expo_mono [OF assms] have "2 powi (expo x + 1) \<le> (2::rat) powi (expo y)"
    by (intro powi_mono) simp
  with round53_pos(2) [OF assms(1)] round53_pos(1) [of y] assms show ?thesis by linarith
qed

lemma round53_nonneg: "0 \<le> x \<Longrightarrow> 0 \<le> round53 x"
proof (cases "x = 0")
  case False
  assume "0 \<le> x"
  with False have "0 < x" by simp
  have "0 \<le> (2::rat) powi (expo x)" by (rule less_imp_le [OF powi_pos])
  also have "\<dots> \<le> round53 x" by (rule round53_pos(1) [OF \<open>0 < x\<close>])
  finally show ?thesis .
qed simp

lemma round53_mono: "x \<le> y \<Longrightarrow> round53 x \<le> round53 y"
proof -
  assume le: "x \<le> y"
  consider "0 < x" | "x \<le> 0" "0 \<le> y" | "y < 0" by linarith
  then show ?thesis
  proof cases
    case 1
    with le show ?thesis by (simp add: round53_mono_pos)
  next
    case 2
    then show ?thesis
      using round53_nonneg [of y] round53_nonneg [of "- x"] by (simp add: round53_minus)
  next
    case 3
    with le have "round53 (- y) \<le> round53 (- x)" by (intro round53_mono_pos) auto
    then show ?thesis by (simp add: round53_minus)
  qed
qed

text \<open>Rounding changes a number by at most one part in \<open>2 ^ 53\<close>.\<close>

lemma round53_error:
  assumes "0 \<le> x"
  shows "round53 x \<le> x + x / 2 ^ 53" "x - x / 2 ^ 53 \<le> round53 x"
proof -
  show "round53 x \<le> x + x / 2 ^ 53" "x - x / 2 ^ 53 \<le> round53 x"
  proof (atomize (full), cases "x = 0")
    case False
    with assms have x: "0 < x" by simp
    define u :: rat where "u = 2 powi (expo x - 52)"
    have u: "0 < u" by (simp add: u_def)
    have "2 powi (expo x) = 2 powi 52 * u"
      unfolding u_def by (simp add: power_int_add [symmetric] del: power_int_numeral)
    then have small: "2 ^ 52 * u \<le> x"
      using expo_bounds(1) [OF x] by simp
    have r: "round53 x = of_int (rne (x / u)) * u"
      using x by (simp add: round53_def u_def Let_def)
    have "(2 * of_int (rne (x / u))) * u \<le> (2 * (x / u) + 1) * u" "(2 * (x / u) - 1) * u \<le> (2 * of_int (rne (x / u))) * u"
      using rne_near [of "x / u"] u by (auto intro!: mult_right_mono)
    then have "2 * round53 x \<le> 2 * x + u" "2 * x - u \<le> 2 * round53 x"
      unfolding r using u by (simp_all add: algebra_simps)
    with small show "round53 x \<le> x + x / 2 ^ 53 \<and> x - x / 2 ^ 53 \<le> round53 x"
      by (simp add: field_simps)
  qed simp
qed

lemma truncR_of_int [simp]: "truncR (of_int k) = k"
  by (simp add: truncR_def)

lemma truncR_mono: "x \<le> y \<Longrightarrow> truncR x \<le> truncR y"
proof -
  assume le: "x \<le> y"
  consider "0 \<le> x" | "x < 0" "0 \<le> y" | "y < 0" by linarith
  then show ?thesis
  proof cases
    case 1
    with le show ?thesis by (simp add: truncR_def floor_mono)
  next
    case 2
    then have "0 \<le> \<lfloor>- x\<rfloor>" "0 \<le> \<lfloor>y\<rfloor>" by simp_all
    then have "- \<lfloor>- x\<rfloor> \<le> \<lfloor>y\<rfloor>" by linarith
    with 2 show ?thesis by (simp add: truncR_def)
  next
    case 3
    with le floor_mono [of "- y" "- x"] show ?thesis by (simp add: truncR_def)
  qed
qed

lemma truncR_nonneg: "0 \<le> x \<Longrightarrow> 0 \<le> truncR x \<and> of_int (truncR x) \<le> x"
  by (simp add: truncR_def)

lemma round53_int:
  assumes "0 \<le> n" "n < 2 ^ 53"
  shows "round53 (of_int n) = of_int n"
proof (cases "n = 0")
  case False
  define x :: rat where "x = of_int n"
  have x: "0 < x" "x < 2 powi 53"
    using assms False by (simp_all add: x_def)
  have "expo x \<le> 52"
    using expo_bounds(1) [OF x(1)] x(2) powi_mono [of 53 "expo x"] by linarith
  define k where "k = nat (52 - expo x)"
  have u: "(2 :: rat) powi (expo x - 52) = 1 / 2 ^ k"
  proof -
    have "expo x - 52 = - int k" using \<open>expo x \<le> 52\<close> by (simp add: k_def)
    then show ?thesis by (simp add: power_int_minus divide_inverse)
  qed
  have "x / (1 / 2 ^ k) = of_int (n * 2 ^ k)" by (simp add: x_def)
  then have "rne (x / (1 / 2 ^ k)) = n * 2 ^ k" by (simp only: rne_of_int)
  then show ?thesis
    using x(1) by (simp add: round53_def Let_def u flip: x_def)
qed simp

lemma round53_numeral [simp]: "(numeral k :: int) < 2 ^ 53 \<Longrightarrow> round53 (numeral k) = numeral k"
  using round53_int [of "numeral k"] by simp

end
