(* ===== verification/GoStrconv.thy ===== *)
theory GoStrconv
  imports GoPrelude
begin

text \<open>
  The parts of Go's string handling the code uses: decimal formatting and parsing of integers
  (\<open>strconv.FormatUint\<close>, \<open>ParseUint\<close>, \<open>ParseInt\<close> in base 10), lower-case hexadecimal encoding
  (\<open>hex.EncodeToString\<close>) and splitting at a one-byte separator (\<open>bytes.Split\<close>). A Go string is its
  sequence of bytes. The parse functions return a value beside the error, as in Go: a number out of
  range is reported together with the nearest bound.
\<close>

definition str :: "string \<Rightarrow> bytes" where
  "str s = map of_char s"

section \<open>Decimal numbers\<close>

datatype num_error = ErrSyntax | ErrRange

definition digit :: "nat \<Rightarrow> byte" where
  "digit d = of_nat (48 + d)"

fun fmt_nat :: "nat \<Rightarrow> bytes" where
  "fmt_nat n = (if n < 10 then [digit n] else fmt_nat (n div 10) @ [digit (n mod 10)])"

declare fmt_nat.simps [simp del]

definition FormatUint :: "int \<Rightarrow> bytes" where
  "FormatUint n = fmt_nat (nat n)"

definition FormatInt :: "int \<Rightarrow> bytes" where
  "FormatInt n = (if n < 0 then 45 # fmt_nat (nat (- n)) else fmt_nat (nat n))"

definition is_digit :: "byte \<Rightarrow> bool" where
  "is_digit c \<longleftrightarrow> 48 \<le> c \<and> c \<le> 57"

fun parseUint_loop :: "int \<Rightarrow> int \<Rightarrow> bytes \<Rightarrow> int \<times> num_error option" where
  "parseUint_loop maxVal n [] = (n, None)"
| "parseUint_loop maxVal n (c # cs) =
     (if \<not> is_digit c then (0, Some ErrSyntax)
      else let n1 = n * 10 + (uint c - 48) in
        if n1 > maxVal then (maxVal, Some ErrRange) else parseUint_loop maxVal n1 cs)"

definition ParseUint :: "nat \<Rightarrow> bytes \<Rightarrow> int \<times> num_error option" where
  "ParseUint bitSize s = (if s = [] then (0, Some ErrSyntax) else parseUint_loop (2 ^ bitSize - 1) 0 s)"

definition ParseInt :: "nat \<Rightarrow> bytes \<Rightarrow> int \<times> num_error option" where
  "ParseInt bitSize s =
     (case s of
        [] \<Rightarrow> (0, Some ErrSyntax)
      | c # cs \<Rightarrow>
        let neg = (c = 45);
            (un, err) = ParseUint bitSize (if c = 43 \<or> c = 45 then cs else s);
            cutoff = 2 ^ (bitSize - 1) in
        if err = Some ErrSyntax then (0, Some ErrSyntax)
        else if \<not> neg \<and> cutoff \<le> un then (cutoff - 1, Some ErrRange)
        else if neg \<and> cutoff < un then (- cutoff, Some ErrRange)
        else (if neg then - un else un, None))"

lemma unat_digit: "d < 10 \<Longrightarrow> unat (digit d) = 48 + d"
  by (simp add: digit_def unsigned_of_nat take_bit_nat_eq_self del: of_nat_add)

lemma uint_digit: "d < 10 \<Longrightarrow> uint (digit d) = 48 + int d"
  using unat_digit [of d] by (metis of_nat_add of_nat_numeral uint_nat)

lemma is_digit_digit: "d < 10 \<Longrightarrow> is_digit (digit d)"
  using unat_digit [of d] by (simp add: is_digit_def word_le_nat_alt)

lemma fmt_nat_not_Nil [simp]: "fmt_nat n \<noteq> []"
  by (subst fmt_nat.simps) simp

lemma fmt_nat_digits: "c \<in> set (fmt_nat n) \<Longrightarrow> is_digit c"
proof (induction n rule: fmt_nat.induct)
  case (1 n)
  show ?case
    using 1 by (subst (asm) fmt_nat.simps) (auto simp: is_digit_digit split: if_splits)
qed

lemma parse_fmt_nat:
  "int n \<le> maxVal \<Longrightarrow> parseUint_loop maxVal 0 (fmt_nat n @ ys) = parseUint_loop maxVal (int n) ys"
proof (induction n arbitrary: ys rule: fmt_nat.induct)
  case (1 n)
  show ?case
  proof (cases "n < 10")
    case True
    with 1 show ?thesis
      by (subst fmt_nat.simps) (simp add: is_digit_digit uint_digit)
  next
    case False
    have "int (n div 10) * 10 + int (n mod 10) = int n"
      by presburger
    with False 1 show ?thesis
      by (subst fmt_nat.simps) (simp add: is_digit_digit uint_digit zdiv_int zmod_int)
  qed
qed

lemma ParseUint_FormatUint:
  assumes "0 \<le> n" "n < 2 ^ bits"
  shows "ParseUint bits (FormatUint n) = (n, None)"
  using parse_fmt_nat [of "nat n" "2 ^ bits - 1" "[]"] assms by (simp add: ParseUint_def FormatUint_def)

lemma fmt_nat_hd: "hd (fmt_nat n) \<noteq> 43" "hd (fmt_nat n) \<noteq> 45"
  using fmt_nat_digits [of "hd (fmt_nat n)" n] by (auto simp: is_digit_def word_le_nat_alt)

lemma ParseUint_fmt_nat: "int n < 2 ^ bits \<Longrightarrow> ParseUint bits (fmt_nat n) = (int n, None)"
  using ParseUint_FormatUint [of "int n" bits] by (simp add: FormatUint_def)

lemma ParseInt_FormatInt:
  assumes "- (2 ^ (bits - 1)) \<le> n" "n < 2 ^ (bits - 1)" "0 < bits"
  shows "ParseInt bits (FormatInt n) = (n, None)"
proof -
  have pw: "(2::int) ^ (bits - 1) < 2 ^ bits"
    using assms(3) by (intro power_strict_increasing) auto
  show ?thesis
  proof (cases "n < 0")
    case True
    with assms(1) pw have "int (nat (- n)) < 2 ^ bits" by linarith
    then have "ParseUint bits (fmt_nat (nat (- n))) = (- n, None)"
      using True by (simp only: ParseUint_fmt_nat) simp
    with True assms(1) show ?thesis
      by (simp add: ParseInt_def FormatInt_def Let_def)
  next
    case False
    then obtain c cs where c: "fmt_nat (nat n) = c # cs" "c \<noteq> 43" "c \<noteq> 45"
      using fmt_nat_hd [of "nat n"] by (cases "fmt_nat (nat n)") auto
    from False assms(2) pw have "int (nat n) < 2 ^ bits" by linarith
    then have "ParseUint bits (fmt_nat (nat n)) = (n, None)"
      using False by (simp only: ParseUint_fmt_nat) simp
    with False c assms(2) show ?thesis
      by (simp add: ParseInt_def FormatInt_def Let_def)
  qed
qed

lemma parseUint_loop_bounds:
  "0 \<le> n \<Longrightarrow> n \<le> maxVal \<Longrightarrow> 0 \<le> fst (parseUint_loop maxVal n s) \<and> fst (parseUint_loop maxVal n s) \<le> maxVal"
proof (induction s arbitrary: n)
  case (Cons c cs)
  have "is_digit c \<Longrightarrow> 48 \<le> uint c"
    by (auto simp: is_digit_def word_le_def)
  with Cons show ?case by (auto simp: Let_def)
qed simp

lemma ParseInt_bounds:
  "0 < bits \<Longrightarrow> - (2 ^ (bits - 1)) \<le> fst (ParseInt bits s) \<and> fst (ParseInt bits s) < 2 ^ (bits - 1)"
proof (cases s)
  case (Cons c cs)
  have nn: "0 \<le> fst (ParseUint bits t)" for t
    using parseUint_loop_bounds [of 0 "2 ^ bits - 1" t] by (simp add: ParseUint_def)
  define t where "t = (if c = 43 \<or> c = 45 then cs else s)"
  obtain un err where un: "ParseUint bits t = (un, err)" "0 \<le> un"
    using nn [of t] by (cases "ParseUint bits t") auto
  have run: "ParseInt bits s =
    (if err = Some ErrSyntax then (0, Some ErrSyntax)
     else if c \<noteq> 45 \<and> 2 ^ (bits - 1) \<le> un then (2 ^ (bits - 1) - 1, Some ErrRange)
     else if c = 45 \<and> 2 ^ (bits - 1) < un then (- (2 ^ (bits - 1)), Some ErrRange)
     else (if c = 45 then - un else un, None))"
    using un(1) by (simp add: ParseInt_def Cons Let_def t_def [unfolded Cons])
  obtain C :: int where C: "2 ^ (bits - 1) = C" "0 < C" by simp
  show ?thesis
    using C(2) un(2) unfolding run C(1) by auto
qed (auto simp: ParseInt_def)

section \<open>Hexadecimal encoding\<close>

definition hexDigit :: "nat \<Rightarrow> byte" where
  "hexDigit d = of_nat (if d < 10 then 48 + d else 87 + d)"

definition hexEncode :: "bytes \<Rightarrow> bytes" where
  "hexEncode bs = concat (map (\<lambda>b. [hexDigit (unat b div 16), hexDigit (unat b mod 16)]) bs)"

lemma unat_hexDigit: "d < 16 \<Longrightarrow> unat (hexDigit d) = (if d < 10 then 48 + d else 87 + d)"
  by (simp add: hexDigit_def unsigned_of_nat take_bit_nat_eq_self del: of_nat_add)

lemma hexDigit_inj:
  assumes "d < 16" "e < 16"
  shows "hexDigit d = hexDigit e \<longleftrightarrow> d = e"
proof
  assume "hexDigit d = hexDigit e"
  then have "unat (hexDigit d) = unat (hexDigit e)" by simp
  then show "d = e"
    unfolding unat_hexDigit [OF assms(1)] unat_hexDigit [OF assms(2)] using assms by (simp split: if_splits)
qed simp

lemma hexEncode_inj: "hexEncode a = hexEncode b \<Longrightarrow> a = b"
proof (induction a arbitrary: b)
  case Nil
  then show ?case by (cases b) (auto simp: hexEncode_def)
next
  case (Cons x xs)
  then obtain y ys where b: "b = y # ys"
    by (cases b) (auto simp: hexEncode_def)
  have "unat z < 256" for z :: byte
    by (rule order_less_le_trans [OF unsigned_less]) simp
  then have small: "unat z div 16 < 16" for z :: byte
    by (simp add: less_mult_imp_div_less)
  from Cons.prems have "unat x div 16 = unat y div 16" "unat x mod 16 = unat y mod 16"
    "hexEncode xs = hexEncode ys"
    unfolding b by (auto simp: hexEncode_def hexDigit_inj small)
  then have "unat x = unat y" "xs = ys"
    using Cons.IH by (metis div_mult_mod_eq, blast)
  then show ?case
    using unsigned_word_eqI [of x y] b by simp
qed

section \<open>Splitting\<close>

text \<open>\<open>bytes.Split(s, sep)\<close> for a separator of one byte: always at least one piece.\<close>

fun bytesSplit :: "byte \<Rightarrow> bytes \<Rightarrow> bytes list" where
  "bytesSplit sep [] = [[]]"
| "bytesSplit sep (c # cs) =
     (if c = sep then [] # bytesSplit sep cs
      else case bytesSplit sep cs of p # ps \<Rightarrow> (c # p) # ps | [] \<Rightarrow> [[c]])"

lemma bytesSplit_not_Nil [simp]: "bytesSplit sep s \<noteq> []"
  by (induction s) (auto split: list.split)

lemma bytesSplit_free: "sep \<notin> set s \<Longrightarrow> bytesSplit sep s = [s]"
  by (induction s) auto

lemma bytesSplit_append: "sep \<notin> set s \<Longrightarrow> bytesSplit sep (s @ sep # t) = s # bytesSplit sep t"
  by (induction s) auto

end
