(* ===== verification/CommonErrors.thy ===== *)
theory CommonErrors
  imports TrieKeys GoStrconv
begin

text \<open>
  The error values of \<open>common/errors.go\<close>, \<open>data/state/errors.go\<close> and \<open>kvm/math/errors.go\<close> that the
  modelled code returns. Errors that come out of the trie or of \<open>strconv\<close> are passed on unchanged.
  \<open>ErrMarshal\<close> and \<open>ErrUnmarshalData\<close> stand for whatever error the protobuf codec returns.
\<close>

datatype common_error =
    ErrInt64Overflow
  | ErrUint64Overflow
  | ErrInvalidType
  | ErrNegativeValue
  | ErrNilTrie
  | ErrNilAddress
  | ErrLeafSizeTooBig
  | ErrAssetNotFound
  | ErrAssetIDInvalid
  | ErrMaxSupplyExceeded
  | ErrInsufficientFunds
  | ErrAddBalanceOverflow
  | ErrInvalidValue
  | ErrInvalidClaimType
  | ErrInvalidStakeType
  | ErrNotStaked
  | ErrUnstakeNotAvailable
  | ErrUndelegatingNotAvailable
  | ErrClaimNotAvailable
  | ErrWithdrawNotAvailable
  | ErrInvalidPermissionID
  | ErrInconsistentStakingData
  | ErrNilTrackableDataTrie
  | ErrInvalidNonce
  | ErrAPRGainDropped common_error
  | ErrNegativeCirculatingSupply
  | ErrAdditionOverflow
  | ErrMultiplicationOverflow
  | ErrTickerName
  | ErrTickerLength
  | ErrTickerSequenceLength
  | ErrTickerSequenceEncoding
  | ErrMarshal
  | ErrUnmarshalData
  | PanicNilPointer
  | TrieErr trie_error
  | NumErr num_error

end
