(* ===== verification/SafeConverter.thy ===== *)
theory SafeConverter
  imports CommonErrors
begin

text \<open>
  The checked arithmetic and the saturating conversions of \<open>tools/safeConverter.go\<close>. The untyped
  argument of \<open>SafeAddI64\<close> is the sum type of the dynamic types its switch tells apart.
\<close>

datatype num_arg = ArgInt int | ArgInt64 int | ArgUint64 int | ArgOther

definition SafeAddU64 :: "int \<Rightarrow> int \<Rightarrow> common_error + int" where
  "SafeAddU64 a b = (if a > u64 (MaxUint64 - b) then Inl ErrUint64Overflow else Inr (u64 (a + b)))"

definition safeAddI64 :: "int \<Rightarrow> int \<Rightarrow> common_error + int" where
  "safeAddI64 a b =
     (if (b > 0 \<and> a > i64 (MaxInt64 - b)) \<or> (b < 0 \<and> a < i64 (MinInt64 - b)) then Inl ErrInt64Overflow
      else Inr (i64 (a + b)))"

definition SafeU64ToI64 :: "int \<Rightarrow> int" where
  "SafeU64ToI64 value = (if value > MaxInt64 then MaxInt64 else i64 value)"

definition SafeAddI64 :: "int \<Rightarrow> num_arg \<Rightarrow> common_error + int" where
  "SafeAddI64 a arg =
     (case arg of
        ArgInt b \<Rightarrow> safeAddI64 a (i64 b)
      | ArgInt64 b \<Rightarrow> safeAddI64 a b
      | ArgUint64 b \<Rightarrow> if b > MaxInt64 then Inl ErrInt64Overflow else safeAddI64 a (SafeU64ToI64 b)
      | ArgOther \<Rightarrow> Inl ErrInvalidType)"

definition SafeI64ToU64 :: "int \<Rightarrow> int" where
  "SafeI64ToU64 value = (if value < 0 then 0 else u64 value)"

definition SafeU64ToI32 :: "int \<Rightarrow> int" where
  "SafeU64ToI32 value = (if value > MaxInt32 then MaxInt32 else i32 value)"

definition SafeU64ToU32 :: "int \<Rightarrow> int" where
  "SafeU64ToU32 value = (if value > MaxUint32 then MaxUint32 else u32 value)"

definition SafeU32ToI32 :: "int \<Rightarrow> int" where
  "SafeU32ToI32 value = (if value > MaxInt32 then MaxInt32 else i32 value)"

definition SafeI64ToI32 :: "int \<Rightarrow> int" where
  "SafeI64ToI32 value =
     (if value > MaxInt32 then MaxInt32 else if value < MinInt32 then MinInt32 else i32 value)"

definition SafeI64ToU32 :: "int \<Rightarrow> int" where
  "SafeI64ToU32 value = (if value > MaxUint32 then MaxUint32 else if value < 0 then 0 else u32 value)"

definition SafeStringToU64 :: "bytes \<Rightarrow> int \<times> num_error option" where
  "SafeStringToU64 value = ParseUint 64 value"

definition SafeStringToI64 :: "bytes \<Rightarrow> int \<times> num_error option" where
  "SafeStringToI64 value = ParseInt 64 value"

definition SafeStringToI32 :: "bytes \<Rightarrow> int \<times> num_error option" where
  "SafeStringToI32 value = (case ParseInt 32 value of (i, err) \<Rightarrow> (SafeI64ToI32 i, err))"

definition SafeStringToU32 :: "bytes \<Rightarrow> int \<times> num_error option" where
  "SafeStringToU32 value = (case ParseUint 32 value of (i, err) \<Rightarrow> (SafeU64ToU32 i, err))"

section \<open>Properties\<close>

definition clamp :: "int \<Rightarrow> int \<Rightarrow> int \<Rightarrow> int" where
  "clamp lo hi v = max lo (min hi v)"

lemma safeAddI64_iff:
  assumes "is_i64 a" "is_i64 b"
  shows "safeAddI64 a b = (if is_i64 (a + b) then Inr (a + b) else Inl ErrInt64Overflow)"
proof -
  have "is_i64 (MaxInt64 - b)" if "b > 0"
    using assms that by (auto simp: is_i64_def go_int_consts)
  moreover have "is_i64 (MinInt64 - b)" if "b < 0"
    using assms that by (auto simp: is_i64_def go_int_consts)
  ultimately show ?thesis
    using assms by (auto simp: safeAddI64_def i64_id is_i64_def go_int_consts)
qed

text \<open>
  C38: \<open>SafeAddI64\<close> of an int64 and any of the integer types it accepts returns the exact sum when both the
  argument and the sum fit an int64, and the overflow error otherwise; it never returns a wrapped result. An
  unsigned argument that is no int64 is thus rejected even where its sum with a negative number would fit.
\<close>

theorem SafeAddI64_exact:
  assumes "is_i64 a" and "arg = ArgInt b \<and> is_i64 b \<or> arg = ArgInt64 b \<and> is_i64 b \<or> arg = ArgUint64 b \<and> is_u64 b"
  shows "SafeAddI64 a arg = (if b \<le> MaxInt64 \<and> is_i64 (a + b) then Inr (a + b) else Inl ErrInt64Overflow)"
proof (cases "b \<le> MaxInt64")
  case True
  with assms(2) have b: "is_i64 b"
    by (auto simp: is_i64_def is_u64_def go_int_consts)
  have "SafeAddI64 a arg = safeAddI64 a b"
    using assms(2) True b by (auto simp: SafeAddI64_def SafeU64ToI64_def i64_id)
  with True show ?thesis
    by (simp add: safeAddI64_iff [OF assms(1) b])
next
  case False
  with assms(2) show ?thesis
    by (auto simp: SafeAddI64_def is_i64_def go_int_consts)
qed

theorem SafeAddI64_exact_witness:
  "SafeAddI64 MaxInt64 (ArgInt64 1) = Inl ErrInt64Overflow \<and> SafeAddI64 (- 5) (ArgUint64 7) = Inr 2 \<and>
   SafeAddI64 (- 5) (ArgUint64 9223372036854775808) = Inl ErrInt64Overflow"
  using SafeAddI64_exact [of MaxInt64 "ArgInt64 1" 1] SafeAddI64_exact [of "- 5" "ArgUint64 7" 7]
    SafeAddI64_exact [of "- 5" "ArgUint64 9223372036854775808" 9223372036854775808]
  by (simp add: is_i64_def is_u64_def go_int_consts)

text \<open>
  C39: every saturating conversion clamps its argument to the range of the target type.
\<close>

theorem conversions_clamp:
  "(is_u64 u \<longrightarrow> SafeU64ToI64 u = clamp MinInt64 MaxInt64 u \<and> SafeU64ToI32 u = clamp MinInt32 MaxInt32 u \<and>
      SafeU64ToU32 u = clamp 0 MaxUint32 u) \<and>
   (is_i64 i \<longrightarrow> SafeI64ToU64 i = clamp 0 MaxUint64 i \<and> SafeI64ToI32 i = clamp MinInt32 MaxInt32 i \<and>
      SafeI64ToU32 i = clamp 0 MaxUint32 i) \<and>
   (is_u32 w \<longrightarrow> SafeU32ToI32 w = clamp MinInt32 MaxInt32 w)"
  by (auto simp: SafeU64ToI64_def SafeU64ToI32_def SafeU64ToU32_def SafeI64ToU64_def SafeI64ToI32_def
      SafeI64ToU32_def SafeU32ToI32_def clamp_def is_u64_def is_i64_def is_u32_def go_int_consts
      u64_def u32_def i64_def i32_def)

theorem conversions_clamp_witness:
  "SafeI64ToU32 (- 3) = 0 \<and> SafeU64ToI32 3000000000 = 2147483647 \<and> SafeU32ToI32 5 = 5"
  using conversions_clamp [of 3000000000 "- 3" 5]
  by (simp add: is_u64_def is_i64_def is_u32_def clamp_def go_int_consts)

text \<open>
  The string conversions invert decimal formatting on the whole range of their target type.
\<close>

theorem SafeString_roundtrip:
  "(is_i64 n \<longrightarrow> SafeStringToI64 (FormatInt n) = (n, None)) \<and>
   (is_u64 m \<longrightarrow> SafeStringToU64 (FormatUint m) = (m, None)) \<and>
   (MinInt32 \<le> k \<and> k \<le> MaxInt32 \<longrightarrow> SafeStringToI32 (FormatInt k) = (k, None)) \<and>
   (is_u32 j \<longrightarrow> SafeStringToU32 (FormatUint j) = (j, None))"
  by (auto simp: SafeStringToI64_def SafeStringToU64_def SafeStringToI32_def SafeStringToU32_def
      is_i64_def is_u64_def is_u32_def go_int_consts ParseInt_FormatInt ParseUint_FormatUint
      SafeI64ToI32_def SafeU64ToU32_def i32_def u32_def)

theorem SafeString_roundtrip_witness:
  "SafeStringToI64 (FormatInt (- 42)) = (- 42, None) \<and> SafeStringToU32 (FormatUint 42) = (42, None)"
  using SafeString_roundtrip [of "- 42" 42 42 42] by (simp add: is_i64_def is_u64_def is_u32_def)

end
