(* ===== verification/Rating.thy ===== *)
theory Rating
  imports GoFloat SafeConverter
begin

text \<open>
  The ratings of validators (\<open>core/process/rating/blockSigningRater.go\<close>): a proposed or signed block raises the rating of a
  node, a missed one lowers it, consecutive misses of a proposer more and more, and the rating decides the chance to be
  selected. The float32 values of the configuration are finite and read as the rationals they are; the products of the
  penalty are float64.
\<close>

section \<open>The rater\<close>

record SelectionChance =
  sc_MaxThreshold :: int
  sc_ChancePercent :: int

record RatingStep =
  rs_proposerIncreaseRatingStep :: int
  rs_proposerDecreaseRatingStep :: int
  rs_validatorIncreaseRatingStep :: int
  rs_validatorDecreaseRatingStep :: int
  rs_consecutiveMissedBlocksPenalty :: rat

record RatingsData =
  rd_startRating :: int
  rd_maxRating :: int
  rd_minRating :: int
  rd_signedBlocksThreshold :: rat
  rd_ratingsStepData :: RatingStep
  rd_selectionChances :: "SelectionChance list"

record BlockSigningRater =
  br_startRating :: int
  br_signedBlocksThreshold :: rat
  br_maxRating :: int
  br_minRating :: int
  br_ratingsStepHandler :: RatingStep
  br_ratingChances :: "SelectionChance list"

datatype rating_error =
  ErrNilRatingsInfoHandler | ErrMinRatingSmallerThanOne | ErrMaxRatingIsSmallerThanMinRating | ErrStartRatingNotBetweenMinAndMax
  | ErrNoChancesProvided | ErrSignedBlocksThresholdNotBetweenZeroAndOne | ErrConsecutiveMissedBlocksPenaltyLowerThanOne
  | ErrDecreaseRatingsStepMoreThanMinusOne | ErrNilMinChanceIfZero | ErrDuplicateThreshold | ErrNoChancesForMaxThreshold

definition verifyRatingsData :: "RatingsData option \<Rightarrow> rating_error + RatingsData" where
  "verifyRatingsData ratingsData =
     (case ratingsData of
        None \<Rightarrow> Inl ErrNilRatingsInfoHandler
      | Some rd \<Rightarrow>
        let step = rd_ratingsStepData rd in
        if rd_minRating rd < 1 then Inl ErrMinRatingSmallerThanOne
        else if rd_minRating rd > rd_maxRating rd then Inl ErrMaxRatingIsSmallerThanMinRating
        else if rd_maxRating rd < rd_startRating rd \<or> rd_minRating rd > rd_startRating rd then Inl ErrStartRatingNotBetweenMinAndMax
        else if rd_selectionChances rd = [] then Inl ErrNoChancesProvided
        else if rd_signedBlocksThreshold rd < 0 \<or> rd_signedBlocksThreshold rd > 1 then Inl ErrSignedBlocksThresholdNotBetweenZeroAndOne
        else if rs_consecutiveMissedBlocksPenalty step < 1 then Inl ErrConsecutiveMissedBlocksPenaltyLowerThanOne
        else if rs_proposerDecreaseRatingStep step > -1 \<or> rs_validatorDecreaseRatingStep step > -1
        then Inl ErrDecreaseRatingsStepMoreThanMinusOne
        else Inr rd)"

text \<open>
  The chances are sorted by their threshold; two with the same threshold, whose order \<open>sort.Slice\<close> leaves open, are an
  error.
\<close>

definition NewBlockSigningRater :: "RatingsData option \<Rightarrow> rating_error + BlockSigningRater" where
  "NewBlockSigningRater ratingsData =
     bindE (verifyRatingsData ratingsData) (\<lambda>rd.
       let ratingChances = sort_key sc_MaxThreshold (rd_selectionChances rd) in
       if sc_MaxThreshold (ratingChances ! 0) > 0 then Inl ErrNilMinChanceIfZero
       else if \<exists>i\<in>set [1..<length ratingChances]. sc_MaxThreshold (ratingChances ! (i - 1)) = sc_MaxThreshold (ratingChances ! i)
       then Inl ErrDuplicateThreshold
       else if sc_MaxThreshold (last ratingChances) \<noteq> rd_maxRating rd then Inl ErrNoChancesForMaxThreshold
       else Inr \<lparr>br_startRating = rd_startRating rd, br_signedBlocksThreshold = rd_signedBlocksThreshold rd,
              br_maxRating = rd_maxRating rd, br_minRating = rd_minRating rd, br_ratingsStepHandler = rd_ratingsStepData rd,
              br_ratingChances = ratingChances\<rparr>)"

section \<open>Operations\<close>

definition computeRating :: "BlockSigningRater \<Rightarrow> int \<Rightarrow> int \<Rightarrow> int" where
  "computeRating bsr ratingStep currentRating =
     (let newVal = i64 (currentRating + ratingStep) in
      if newVal < br_minRating bsr then br_minRating bsr
      else if newVal > br_maxRating bsr then br_maxRating bsr
      else SafeI64ToU32 newVal)"

definition ComputeIncreaseProposer :: "BlockSigningRater \<Rightarrow> int \<Rightarrow> int" where
  "ComputeIncreaseProposer bsr currentRating =
     computeRating bsr (rs_proposerIncreaseRatingStep (br_ratingsStepHandler bsr)) currentRating"

definition RevertIncreaseValidator :: "BlockSigningRater \<Rightarrow> int \<Rightarrow> int \<Rightarrow> int" where
  "RevertIncreaseValidator bsr currentRating nrReverts =
     (let ratingStep = rs_validatorIncreaseRatingStep (br_ratingsStepHandler bsr);
          decreaseInt = i64 (i32 (- ratingStep) * nrReverts);
          decreaseValue = (if decreaseInt < MinInt32 \<or> decreaseInt > 0 then MinInt32 else SafeI64ToI32 decreaseInt) in
      computeRating bsr decreaseValue currentRating)"

text \<open>The loop over the misses; its argument counts the misses still to come.\<close>

fun penaltyLoop :: "nat \<Rightarrow> rat \<Rightarrow> rat \<Rightarrow> rat" where
  "penaltyLoop 0 penalty computedFloat = computedFloat"
| "penaltyLoop (Suc n) penalty computedFloat =
     (let computedFloat = round53 (computedFloat * penalty) in
      if computedFloat < of_int MinInt32 then of_int MinInt32 else penaltyLoop n penalty computedFloat)"

definition ComputeDecreaseProposer :: "BlockSigningRater \<Rightarrow> int \<Rightarrow> int \<Rightarrow> int" where
  "ComputeDecreaseProposer bsr currentRating consecutiveMisses =
     (let step = br_ratingsStepHandler bsr;
          computedFloat = penaltyLoop (nat consecutiveMisses) (rs_consecutiveMissedBlocksPenalty step)
            (of_int (rs_proposerDecreaseRatingStep step)) in
      computeRating bsr (i32 (truncR computedFloat)) currentRating)"

definition ComputeIncreaseValidator :: "BlockSigningRater \<Rightarrow> int \<Rightarrow> int" where
  "ComputeIncreaseValidator bsr currentRating =
     computeRating bsr (rs_validatorIncreaseRatingStep (br_ratingsStepHandler bsr)) currentRating"

definition ComputeDecreaseValidator :: "BlockSigningRater \<Rightarrow> int \<Rightarrow> int" where
  "ComputeDecreaseValidator bsr currentRating =
     computeRating bsr (rs_validatorDecreaseRatingStep (br_ratingsStepHandler bsr)) currentRating"

definition GetChance :: "BlockSigningRater \<Rightarrow> int \<Rightarrow> int" where
  "GetChance bsr currentRating =
     (case find (\<lambda>c. \<not> currentRating > sc_MaxThreshold c) (br_ratingChances bsr) of
        None \<Rightarrow> sc_ChancePercent (br_ratingChances bsr ! 0)
      | Some currentChance \<Rightarrow> sc_ChancePercent currentChance)"

section \<open>Lemmas\<close>

definition is_i32 :: "int \<Rightarrow> bool" where
  "is_i32 x \<longleftrightarrow> MinInt32 \<le> x \<and> x \<le> MaxInt32"

lemma i32_id [simp]: "is_i32 x \<Longrightarrow> i32 x = x"
  by (simp add: is_i32_def i32_def go_int_consts)

text \<open>The numbers of a configuration have their width.\<close>

definition data_ok :: "RatingsData \<Rightarrow> bool" where
  "data_ok rd \<longleftrightarrow> is_u32 (rd_maxRating rd) \<and> is_i32 (rs_proposerIncreaseRatingStep (rd_ratingsStepData rd)) \<and>
     is_i32 (rs_proposerDecreaseRatingStep (rd_ratingsStepData rd)) \<and> is_i32 (rs_validatorIncreaseRatingStep (rd_ratingsStepData rd)) \<and>
     is_i32 (rs_validatorDecreaseRatingStep (rd_ratingsStepData rd))"

lemma verifyRatingsData_Inr:
  "verifyRatingsData (Some rd) = Inr rd' \<longleftrightarrow> rd' = rd \<and> 1 \<le> rd_minRating rd \<and> rd_minRating rd \<le> rd_startRating rd \<and>
     rd_startRating rd \<le> rd_maxRating rd \<and> rd_selectionChances rd \<noteq> [] \<and>
     0 \<le> rd_signedBlocksThreshold rd \<and> rd_signedBlocksThreshold rd \<le> 1 \<and> 1 \<le> rs_consecutiveMissedBlocksPenalty (rd_ratingsStepData rd) \<and>
     rs_proposerDecreaseRatingStep (rd_ratingsStepData rd) \<le> -1 \<and> rs_validatorDecreaseRatingStep (rd_ratingsStepData rd) \<le> -1"
  by (auto simp: verifyRatingsData_def Let_def)

lemma NewBlockSigningRater_Inr:
  assumes "NewBlockSigningRater (Some rd) = Inr bsr"
  shows "verifyRatingsData (Some rd) = Inr rd" "br_startRating bsr = rd_startRating rd" "br_maxRating bsr = rd_maxRating rd"
    "br_minRating bsr = rd_minRating rd" "br_ratingsStepHandler bsr = rd_ratingsStepData rd" "br_ratingChances bsr \<noteq> []"
    "sorted (map sc_MaxThreshold (br_ratingChances bsr))" "sc_MaxThreshold (last (br_ratingChances bsr)) = rd_maxRating rd"
proof -
  from assms obtain rd' where v: "verifyRatingsData (Some rd) = Inr rd'"
    by (auto simp: NewBlockSigningRater_def bindE_Inr_iff)
  then have rd: "rd' = rd" "rd_selectionChances rd \<noteq> []" by (simp_all add: verifyRatingsData_Inr)
  then have "sort_key sc_MaxThreshold (rd_selectionChances rd) \<noteq> []" by (metis length_0_conv length_sort)
  show "verifyRatingsData (Some rd) = Inr rd" using v rd by simp
  show "br_startRating bsr = rd_startRating rd" "br_maxRating bsr = rd_maxRating rd" "br_minRating bsr = rd_minRating rd"
    "br_ratingsStepHandler bsr = rd_ratingsStepData rd" "br_ratingChances bsr \<noteq> []"
    "sorted (map sc_MaxThreshold (br_ratingChances bsr))" "sc_MaxThreshold (last (br_ratingChances bsr)) = rd_maxRating rd"
    using assms v rd \<open>sort_key _ _ \<noteq> []\<close> by (auto simp: NewBlockSigningRater_def Let_def split: if_splits)
qed

lemma computeRating_clamp:
  assumes "0 \<le> br_minRating bsr" "br_minRating bsr \<le> br_maxRating bsr" "is_u32 (br_maxRating bsr)" "is_u32 r" "is_i32 step"
  shows "computeRating bsr step r = max (br_minRating bsr) (min (br_maxRating bsr) (r + step))"
proof -
  have "i64 (r + step) = r + step" by (rule i64_id) (use assms in \<open>simp add: is_i64_def is_u32_def is_i32_def go_int_consts\<close>)
  moreover have "SafeI64ToU32 v = v" if "0 \<le> v" "v \<le> br_maxRating bsr" for v
    using that assms(3) by (simp add: SafeI64ToU32_def is_u32_def u32_def go_int_consts)
  ultimately show ?thesis using assms(1,2) by (auto simp: computeRating_def Let_def)
qed

section \<open>The penalty\<close>

lemma round53_exact:
  assumes "0 < k" "k \<le> 2 ^ 53" "x = of_int k * 2 powi j"
  shows "round53 x = x"
proof -
  have x: "0 < x" using assms(1,3) by (simp add: zero_less_mult_iff)
  have "x \<le> of_int (2 ^ 53) * 2 powi j"
    unfolding assms(3) by (rule mult_right_mono) (use assms(2) in \<open>simp_all only: of_int_le_iff less_imp_le [OF powi_pos]\<close>)
  then have up: "x \<le> 2 powi (53 + j)" by (simp add: power_int_add)
  note lo = expo_bounds(1) [OF x]
  have "(2::rat) powi (53 + j) < 2 powi (54 + j)" by (rule power_int_strict_increasing) simp_all
  then have e: "expo x \<le> 53 + j" using lo up powi_mono [of "54 + j" "expo x"] by linarith
  have "\<exists>m. x / 2 powi (expo x - 52) = of_int m"
  proof (cases "expo x = 53 + j")
    case True
    then have "x = 2 powi (expo x - 52) * 2 powi 52" using lo up by (simp add: power_int_add [symmetric] del: power_int_numeral)
    then have "x / 2 powi (expo x - 52) = of_int (2 ^ 52)" by (simp add: divide_eq_eq)
    then show ?thesis by blast
  next
    case False
    define n where "n = nat (j - (expo x - 52))"
    have "j = (expo x - 52) + int n" using e False by (simp add: n_def)
    then have "2 powi j = (2::rat) ^ n * 2 powi (expo x - 52)" by (metis add.commute power_int_add power_int_of_nat zero_neq_numeral)
    with assms(3) have "x = of_int (k * 2 ^ n) * 2 powi (expo x - 52)" by simp
    then have "x / 2 powi (expo x - 52) = of_int (k * 2 ^ n)" by (metis nonzero_mult_div_cancel_right less_irrefl powi_pos)
    then show ?thesis by blast
  qed
  then obtain m where m: "x / 2 powi (expo x - 52) = of_int m" by blast
  then have "of_int (rne (x / 2 powi (expo x - 52))) = x / 2 powi (expo x - 52)" by simp
  then show ?thesis using x by (simp add: round53_def Let_def)
qed

text \<open>Rounding a float changes nothing.\<close>

lemma round53_idem: "round53 (round53 x) = round53 x"
proof -
  have pos: "round53 (round53 y) = round53 y" if y: "0 < y" for y
  proof -
    let ?u = "2 powi (expo y - 52) :: rat"
    have r: "round53 y = of_int (rne (y / ?u)) * ?u" using y by (simp add: round53_def Let_def)
    have "(2::rat) powi (expo y) = of_int (2 ^ 52) * ?u" "(2::rat) powi (expo y + 1) = of_int (2 ^ 53) * ?u"
      using power_int_add [of "2::rat" 52 "expo y - 52"] power_int_add [of "2::rat" 53 "expo y - 52"] by (simp_all add: add.commute)
    then have "of_int (2 ^ 52) * ?u \<le> y" "y \<le> of_int (2 ^ 53) * ?u" using expo_bounds [OF y] by simp_all
    then have "of_int (2 ^ 52) \<le> y / ?u" "y / ?u \<le> of_int (2 ^ 53)" by (simp_all add: le_divide_eq divide_le_eq)
    then have "2 ^ 52 \<le> rne (y / ?u)" "rne (y / ?u) \<le> 2 ^ 53" by (simp_all only: rne_ge rne_le)
    then show ?thesis by (intro round53_exact [OF _ _ r]) simp_all
  qed
  consider "x = 0" | "0 < x" | "0 < - x" by linarith
  then show ?thesis using pos [of x] pos [of "- x"] by cases (simp_all add: round53_minus)
qed

lemma round53_int32: "is_i32 k \<Longrightarrow> round53 (of_int k) = of_int k"
  using round53_int [of k] round53_int [of "- k"] round53_minus [of "of_int k"]
  by (cases "0 \<le> k") (simp_all add: is_i32_def go_int_consts)

lemma penaltyLoop_bounds:
  assumes "1 \<le> penalty" "x < 0" "round53 x = x" "of_int MinInt32 \<le> x"
  shows "of_int MinInt32 \<le> penaltyLoop n penalty x \<and> penaltyLoop (Suc n) penalty x \<le> penaltyLoop n penalty x \<and> penaltyLoop n penalty x \<le> x"
  using assms(2-)
proof (induction n arbitrary: x)
  case 0
  have "x * penalty \<le> x" using assms(1) 0(1) by (simp add: mult_le_cancel_left1)
  then have "round53 (x * penalty) \<le> x" using round53_mono 0(2) by metis
  then show ?case using 0 by (simp add: Let_def)
next
  case (Suc n)
  let ?y = "round53 (x * penalty)"
  have "x * penalty \<le> x" using assms(1) Suc.prems(1) by (simp add: mult_le_cancel_left1)
  then have y: "?y \<le> x" using round53_mono Suc.prems(2) by metis
  show ?case
  proof (cases "?y < of_int MinInt32")
    case True
    then show ?thesis using Suc.prems by (simp add: Let_def)
  next
    case False
    then have "of_int MinInt32 \<le> penaltyLoop n penalty ?y \<and> penaltyLoop (Suc n) penalty ?y \<le> penaltyLoop n penalty ?y \<and> penaltyLoop n penalty ?y \<le> ?y"
      using y Suc.prems(1) by (intro Suc.IH) (simp_all add: round53_idem)
    moreover have "penaltyLoop (Suc m) penalty x = penaltyLoop m penalty ?y" for m using False by (simp add: Let_def)
    ultimately show ?thesis using y by (metis order_trans)
  qed
qed

lemma penaltyLoop_antimono:
  assumes "1 \<le> penalty" "x < 0" "round53 x = x" "of_int MinInt32 \<le> x" "m \<le> n"
  shows "penaltyLoop n penalty x \<le> penaltyLoop m penalty x"
  using assms(5) by (induction n rule: dec_induct) (use penaltyLoop_bounds [OF assms(1-4)] in \<open>auto intro: order_trans\<close>)

lemma ComputeDecreaseProposer_eq:
  assumes "NewBlockSigningRater (Some rd) = Inr bsr" "data_ok rd" "is_u32 r"
  shows "ComputeDecreaseProposer bsr r k = max (br_minRating bsr) (min (br_maxRating bsr)
     (r + truncR (penaltyLoop (nat k) (rs_consecutiveMissedBlocksPenalty (rd_ratingsStepData rd)) (of_int (rs_proposerDecreaseRatingStep (rd_ratingsStepData rd))))))"
    (is "_ = max _ (min _ (r + truncR ?p))")
proof -
  note new = NewBlockSigningRater_Inr [OF assms(1)]
  let ?s = "rs_proposerDecreaseRatingStep (rd_ratingsStepData rd)"
  have v: "1 \<le> rs_consecutiveMissedBlocksPenalty (rd_ratingsStepData rd)" "?s < 0" "is_i32 ?s" "0 \<le> br_minRating bsr"
    "br_minRating bsr \<le> br_maxRating bsr" "is_u32 (br_maxRating bsr)"
    using new(1,3,4) assms(2) by (auto simp: verifyRatingsData_Inr data_ok_def)
  have "of_int MinInt32 \<le> ?p \<and> ?p \<le> of_int ?s"
    using penaltyLoop_bounds [OF v(1), of "of_int ?s" "nat k"] v(2,3) round53_int32 [OF v(3)] by (simp add: is_i32_def)
  then have "MinInt32 \<le> truncR ?p \<and> truncR ?p \<le> ?s" using truncR_mono [of "of_int MinInt32" ?p] truncR_mono [of ?p "of_int ?s"] by simp
  then have "is_i32 (truncR ?p)" using v(2) by (simp add: is_i32_def go_int_consts)
  then show ?thesis
    using computeRating_clamp [OF v(4-6) assms(3), of "truncR ?p"] by (simp add: ComputeDecreaseProposer_def Let_def new(5))
qed

section \<open>Properties\<close>

definition in_range :: "BlockSigningRater \<Rightarrow> int \<Rightarrow> bool" where
  "in_range bsr x \<longleftrightarrow> is_u32 x \<and> br_minRating bsr \<le> x \<and> x \<le> br_maxRating bsr"

text \<open>
  C28: ratings have their range. A rater that was created from a configuration gives ratings between the minimum and the maximum
  of the configuration, which are uint32 values: the start rating, and what every operation makes of any uint32. The
  selection chance of a rating up to the maximum is that of a configured chance whose threshold covers the rating.
\<close>

theorem ratings_stay_in_range:
  assumes "NewBlockSigningRater (Some rd) = Inr bsr" "data_ok rd" "is_u32 r" "is_u32 k"
  shows "in_range bsr (br_startRating bsr) \<and> in_range bsr (ComputeIncreaseProposer bsr r) \<and> in_range bsr (ComputeIncreaseValidator bsr r) \<and>
    in_range bsr (ComputeDecreaseProposer bsr r k) \<and> in_range bsr (ComputeDecreaseValidator bsr r) \<and> in_range bsr (RevertIncreaseValidator bsr r k) \<and>
    (r \<le> br_maxRating bsr \<longrightarrow> (\<exists>c\<in>set (rd_selectionChances rd). r \<le> sc_MaxThreshold c \<and> GetChance bsr r = sc_ChancePercent c))"
proof -
  note new = NewBlockSigningRater_Inr [OF assms(1)]
  have v: "0 \<le> br_minRating bsr" "br_minRating bsr \<le> br_maxRating bsr" "is_u32 (br_maxRating bsr)" "in_range bsr (br_startRating bsr)"
    using new(1-4) assms(2) by (auto simp: verifyRatingsData_Inr data_ok_def in_range_def is_u32_def)
  have clamp: "in_range bsr (max (br_minRating bsr) (min (br_maxRating bsr) x))" for x
    using v(1-3) by (auto simp: in_range_def is_u32_def)
  have compute: "in_range bsr (computeRating bsr step r)" if "is_i32 step" for step
    using clamp computeRating_clamp [OF v(1-3) assms(3) that] by simp
  have steps: "is_i32 (rs_proposerIncreaseRatingStep (br_ratingsStepHandler bsr))" "is_i32 (rs_validatorIncreaseRatingStep (br_ratingsStepHandler bsr))"
    "is_i32 (rs_validatorDecreaseRatingStep (br_ratingsStepHandler bsr))"
    using assms(2) by (simp_all add: new(5) data_ok_def)
  have "in_range bsr (RevertIncreaseValidator bsr r k)"
    unfolding RevertIncreaseValidator_def Let_def by (rule compute) (auto simp: is_i32_def SafeI64ToI32_def i32_def go_int_consts)
  moreover have "\<exists>c\<in>set (rd_selectionChances rd). r \<le> sc_MaxThreshold c \<and> GetChance bsr r = sc_ChancePercent c" if "r \<le> br_maxRating bsr"
  proof -
    have set: "set (br_ratingChances bsr) = set (rd_selectionChances rd)"
      using assms(1) by (auto simp: NewBlockSigningRater_def Let_def bindE_Inr_iff verifyRatingsData_Inr split: if_splits)
    have "last (br_ratingChances bsr) \<in> set (br_ratingChances bsr)" "\<not> sc_MaxThreshold (last (br_ratingChances bsr)) < r"
      using that new(3,6,8) by simp_all
    then obtain c where "find (\<lambda>c. \<not> r > sc_MaxThreshold c) (br_ratingChances bsr) = Some c" by (meson find_None_iff option.exhaust)
    moreover from this have "c \<in> set (br_ratingChances bsr)" "\<not> r > sc_MaxThreshold c" by (auto simp: find_Some_iff)
    ultimately show ?thesis using set by (intro bexI [of _ c]) (simp_all add: GetChance_def)
  qed
  ultimately show ?thesis
    using v(4) compute [OF steps(1)] compute [OF steps(2)] compute [OF steps(3)] clamp ComputeDecreaseProposer_eq [OF assms(1-3)]
    by (simp add: ComputeIncreaseProposer_def ComputeIncreaseValidator_def ComputeDecreaseValidator_def)
qed

definition demo_rating :: RatingsData where
  "demo_rating = \<lparr>rd_startRating = 50, rd_maxRating = 100, rd_minRating = 1, rd_signedBlocksThreshold = 1 / 100,
     rd_ratingsStepData = \<lparr>rs_proposerIncreaseRatingStep = 2, rs_proposerDecreaseRatingStep = - 4, rs_validatorIncreaseRatingStep = 1,
       rs_validatorDecreaseRatingStep = - 2, rs_consecutiveMissedBlocksPenalty = 3 / 2\<rparr>,
     rd_selectionChances = [\<lparr>sc_MaxThreshold = 100, sc_ChancePercent = 20\<rparr>, \<lparr>sc_MaxThreshold = 0, sc_ChancePercent = 5\<rparr>]\<rparr>"

definition demo_rater :: BlockSigningRater where
  "demo_rater = \<lparr>br_startRating = 50, br_signedBlocksThreshold = 1 / 100, br_maxRating = 100, br_minRating = 1,
     br_ratingsStepHandler = rd_ratingsStepData demo_rating, br_ratingChances = rev (rd_selectionChances demo_rating)\<rparr>"

lemma demo_rater_new: "NewBlockSigningRater (Some demo_rating) = Inr demo_rater" "data_ok demo_rating"
  by (simp_all add: NewBlockSigningRater_def verifyRatingsData_def demo_rating_def demo_rater_def data_ok_def is_i32_def is_u32_def go_int_consts)

theorem ratings_stay_in_range_witness:
  "in_range demo_rater (ComputeDecreaseProposer demo_rater 60 3) \<and> in_range demo_rater (RevertIncreaseValidator demo_rater 60 3) \<and>
   (\<exists>c\<in>set (rd_selectionChances demo_rating). 60 \<le> sc_MaxThreshold c \<and> GetChance demo_rater 60 = sc_ChancePercent c)"
proof -
  have "(60::int) \<le> br_maxRating demo_rater" by (simp add: demo_rater_def)
  with ratings_stay_in_range [OF demo_rater_new, of 60 3] show ?thesis by (simp add: is_u32_def)
qed

text \<open>
  C29: misses never help. For a rater created from a configuration, more consecutive misses of a proposer never lead to a higher
  rating, and a miss lowers the rating unless it is at the minimum already.
\<close>

theorem misses_never_help:
  assumes "NewBlockSigningRater (Some rd) = Inr bsr" "data_ok rd" "is_u32 r" "m \<le> n"
  shows "ComputeDecreaseProposer bsr r n \<le> ComputeDecreaseProposer bsr r m \<and> ComputeDecreaseProposer bsr r m \<le> max (br_minRating bsr) (r - 1)"
proof -
  note new = NewBlockSigningRater_Inr [OF assms(1)]
  let ?s = "rs_proposerDecreaseRatingStep (rd_ratingsStepData rd)" and ?q = "rs_consecutiveMissedBlocksPenalty (rd_ratingsStepData rd)"
  let ?p = "\<lambda>n. penaltyLoop (nat n) ?q (of_int ?s)"
  have v: "1 \<le> ?q" "?s \<le> -1" "is_i32 ?s" using new(1) assms(2) by (auto simp: verifyRatingsData_Inr data_ok_def)
  have x: "of_int ?s < (0::rat)" "round53 (of_int ?s) = of_int ?s" "(of_int MinInt32 :: rat) \<le> of_int ?s"
    using v(2,3) round53_int32 by (simp_all add: is_i32_def)
  have "?p n \<le> ?p m" by (rule penaltyLoop_antimono [OF v(1) x]) (use assms(4) in simp)
  moreover have "?p m \<le> of_int ?s" using penaltyLoop_bounds [OF v(1) x] by blast
  ultimately have "truncR (?p n) \<le> truncR (?p m)" "truncR (?p m) \<le> ?s" using truncR_mono [of "?p n" "?p m"] truncR_mono [of "?p m" "of_int ?s"] by simp_all
  then show ?thesis using v(2) unfolding ComputeDecreaseProposer_eq [OF assms(1-3)] by (intro conjI; linarith)
qed

theorem misses_never_help_witness:
  "ComputeDecreaseProposer demo_rater 60 5 \<le> ComputeDecreaseProposer demo_rater 60 1 \<and> ComputeDecreaseProposer demo_rater 60 1 \<le> 59"
  using misses_never_help [OF demo_rater_new, of 60 1 5] by (simp add: is_u32_def demo_rater_def)

end
