(* ===== verification/KvmMath.thy ===== *)
theory KvmMath
  imports CommonErrors
begin

text \<open>
  The overflow-aware arithmetic of the virtual machine (\<open>kvm/math/overflow.go\<close> and
  \<open>overflowHandler.go\<close>). Go's integer division truncates, and the division of the smallest int64
  by -1 wraps around.
\<close>

definition AddUint64WithErr :: "int \<Rightarrow> int \<Rightarrow> int \<times> common_error option" where
  "AddUint64WithErr a b =
     (let s = u64 (a + b) in
      if s \<ge> a \<and> s \<ge> b then (s, None) else (MaxUint64, Some ErrAdditionOverflow))"

definition AddUint64 :: "int \<Rightarrow> int \<Rightarrow> int" where
  "AddUint64 a b = (case AddUint64WithErr a b of (res, None) \<Rightarrow> res | (res, Some _) \<Rightarrow> MaxUint64)"

definition SubUint64 :: "int \<Rightarrow> int \<Rightarrow> int" where
  "SubUint64 a b = (if a < b then 0 else u64 (a - b))"

definition MulUint64WithErr :: "int \<Rightarrow> int \<Rightarrow> int \<times> common_error option" where
  "MulUint64WithErr a b =
     (let res = u64 (a * b) in
      if a = 0 \<or> b = 0 \<or> a = res div b then (res, None) else (MaxUint64, Some ErrMultiplicationOverflow))"

definition MulUint64 :: "int \<Rightarrow> int \<Rightarrow> int" where
  "MulUint64 a b = (case MulUint64WithErr a b of (res, None) \<Rightarrow> res | (res, Some _) \<Rightarrow> MaxUint64)"

definition AddInt32WithErr :: "int \<Rightarrow> int \<Rightarrow> int \<times> common_error option" where
  "AddInt32WithErr a b =
     (let s = i32 (a + b) in
      if (s > a) = (b > 0) then (s, None) else (MaxInt32, Some ErrAdditionOverflow))"

definition AddInt32 :: "int \<Rightarrow> int \<Rightarrow> int" where
  "AddInt32 a b = (case AddInt32WithErr a b of (res, None) \<Rightarrow> res | (res, Some _) \<Rightarrow> MaxInt32)"

definition SubInt :: "int \<Rightarrow> int \<Rightarrow> int" where
  "SubInt a b = (let res = i64 (a - b) in if (res < a) = (b > 0) then res else MinInt64)"

text \<open>The handler keeps the first error; after it every operation returns the largest int64.\<close>

definition handler_AddInt64 :: "int \<Rightarrow> int \<Rightarrow> common_error option \<Rightarrow> common_error option \<times> int" where
  "handler_AddInt64 a b err =
     (if err \<noteq> None then (err, MaxInt64)
      else
        let s = i64 (a + b) in
        if (s > a) = (b > 0) then (err, s) else (Some ErrAdditionOverflow, MaxInt64))"

definition handler_MulInt64 :: "int \<Rightarrow> int \<Rightarrow> common_error option \<Rightarrow> common_error option \<times> int" where
  "handler_MulInt64 a b err =
     (if err \<noteq> None then (err, MaxInt64)
      else
        let res = i64 (a * b) in
        if a = 0 \<or> b = 0 \<or> a = i64 (quotI res b) then (err, res)
        else (Some ErrMultiplicationOverflow, MaxInt64))"

section \<open>Wrap-around detection\<close>

lemma u64_add_cases:
  assumes "is_u64 a" "is_u64 b"
  shows "u64 (a + b) = (if a + b \<le> MaxUint64 then a + b else a + b - 18446744073709551616)"
proof (cases "a + b \<le> MaxUint64")
  case True
  with assms show ?thesis by (simp add: u64_def is_u64_def go_int_consts)
next
  case False
  with assms have "(a + b - 18446744073709551616) mod 18446744073709551616 = a + b - 18446744073709551616"
    by (intro mod_pos_pos_trivial) (auto simp: is_u64_def go_int_consts)
  then have "(a + b) mod 18446744073709551616 = a + b - 18446744073709551616"
    by (simp only: minus_mod_self2)
  with False show ?thesis by (simp add: u64_def)
qed

lemma add_detects:
  "is_u64 a \<Longrightarrow> is_u64 b \<Longrightarrow> u64 (a + b) \<ge> a \<and> u64 (a + b) \<ge> b \<longleftrightarrow> a + b \<le> MaxUint64"
  by (auto simp: u64_add_cases is_u64_def go_int_consts)

lemma mul_detects:
  assumes "is_u64 a" "is_u64 b" "b \<noteq> 0"
  shows "a = u64 (a * b) div b \<longleftrightarrow> a * b \<le> MaxUint64"
proof
  assume "a * b \<le> MaxUint64"
  moreover have "0 \<le> a * b" using assms by (simp add: is_u64_def)
  ultimately show "a = u64 (a * b) div b" using assms by (simp add: u64_def go_int_consts)
next
  assume *: "a = u64 (a * b) div b"
  have "0 < b" using assms by (simp add: is_u64_def)
  then have "0 \<le> u64 (a * b) mod b" by simp
  moreover have "u64 (a * b) div b * b + u64 (a * b) mod b = u64 (a * b)" by simp
  moreover have "u64 (a * b) < 18446744073709551616"
    by (simp add: u64_def)
  ultimately show "a * b \<le> MaxUint64"
    unfolding * [symmetric] by (simp add: go_int_consts)
qed

lemma quotI_bound: "b \<noteq> 0 \<Longrightarrow> \<bar>r - quotI r b * b\<bar> < \<bar>b\<bar>"
proof -
  assume b: "b \<noteq> 0"
  have "\<bar>r\<bar> = \<bar>r\<bar> div \<bar>b\<bar> * \<bar>b\<bar> + \<bar>r\<bar> mod \<bar>b\<bar>" by simp
  moreover have "quotI r b * b = sgn r * (\<bar>r\<bar> div \<bar>b\<bar> * \<bar>b\<bar>)"
    by (simp add: quotI_def abs_sgn algebra_simps)
  moreover have "r = sgn r * \<bar>r\<bar>"
    by (simp add: sgn_mult_abs)
  ultimately have "r - quotI r b * b = sgn r * (\<bar>r\<bar> mod \<bar>b\<bar>)"
    by (metis add_diff_cancel_left' right_diff_distrib)
  then have "\<bar>r - quotI r b * b\<bar> \<le> \<bar>r\<bar> mod \<bar>b\<bar>"
    using b by (simp add: abs_mult sgn_if)
  also have "\<dots> < \<bar>b\<bar>" using b by simp
  finally show ?thesis .
qed

lemma i64_congr: "\<exists>k. i64 x = x + k * 18446744073709551616"
proof
  show "i64 x = x + (- ((x + 9223372036854775808) div 18446744073709551616)) * 18446744073709551616"
    unfolding i64_def by (simp add: minus_div_mult_eq_mod [symmetric])
qed

lemma i64_range: "is_i64 (i64 x)"
  by (simp add: is_i64_def i64_def)

lemma close_congr:
  assumes "i64 x = x + k * 18446744073709551616" "\<bar>i64 x - x\<bar> < 18446744073709551616"
  shows "i64 x = x"
  using assms by (cases "k = 0") (auto simp: abs_mult zero_less_abs_iff)

lemma imul_detects:
  assumes "is_i64 a" "is_i64 b" "b \<noteq> 0" "\<not> (a = MinInt64 \<and> b = - 1)"
  shows "a = i64 (quotI (i64 (a * b)) b) \<longleftrightarrow> is_i64 (a * b)"
proof
  assume "is_i64 (a * b)"
  then have "i64 (a * b) = a * b" by (rule i64_id)
  moreover have "quotI (a * b) b = a"
    using assms(3)
    by (cases b "0::int" rule: linorder_cases) (simp_all add: quotI_def abs_mult sgn_mult sgn_mult_abs)
  ultimately show "a = i64 (quotI (i64 (a * b)) b)"
    using assms(1) by (simp add: i64_id)
next
  assume *: "a = i64 (quotI (i64 (a * b)) b)"
  define r where "r = i64 (a * b)"
  have r: "is_i64 r" by (simp add: r_def i64_range)
  have "quotI r b = a"
  proof (cases "is_i64 (quotI r b)")
    case True
    with * show ?thesis by (simp add: r_def i64_id)
  next
    case False
    have "0 \<le> \<bar>r\<bar> div \<bar>b\<bar>"
      using assms(3) by (simp add: pos_imp_zdiv_nonneg_iff)
    then have "\<bar>quotI r b\<bar> \<le> \<bar>r\<bar> div \<bar>b\<bar>"
      by (simp add: quotI_def abs_mult abs_sgn_eq)
    also have "\<dots> \<le> (if \<bar>b\<bar> = 1 then \<bar>r\<bar> else \<bar>r\<bar> div 2)"
      using assms(3) by (auto intro: zdiv_mono2)
    finally have le: "\<bar>quotI r b\<bar> \<le> (if \<bar>b\<bar> = 1 then \<bar>r\<bar> else \<bar>r\<bar> div 2)" .
    with False r have b: "\<bar>b\<bar> = 1"
      by (auto simp: is_i64_def split: if_splits)
    then have "b = 1 \<or> b = - 1" by linarith
    then have "quotI r b = r \<or> b = - 1 \<and> quotI r b = - r"
      by (auto simp: quotI_def sgn_mult_abs)
    with False r have "b = - 1" "r = MinInt64" "quotI r b = 9223372036854775808"
      by (auto simp: is_i64_def go_int_consts)
    moreover from * have "a = i64 (quotI r b)"
      unfolding r_def .
    ultimately have "a = MinInt64 \<and> b = - 1"
      by (simp add: i64_def go_int_consts)
    with assms(4) show ?thesis by blast
  qed
  with quotI_bound [OF assms(3), of r] have "\<bar>r - a * b\<bar> < \<bar>b\<bar>" by simp
  moreover have "\<bar>b\<bar> < 18446744073709551616"
    using assms(2) by (auto simp: is_i64_def)
  ultimately have near: "\<bar>i64 (a * b) - a * b\<bar> < 18446744073709551616"
    unfolding r_def by (rule order_less_trans)
  obtain k where "i64 (a * b) = a * b + k * 18446744073709551616"
    using i64_congr by blast
  then have "i64 (a * b) = a * b"
    using near by (rule close_congr)
  then show "is_i64 (a * b)"
    using i64_range [of "a * b"] by simp
qed

lemma iadd_wraps:
  assumes "is_i64 a" "is_i64 b" "\<not> is_i64 (a + b)"
  shows "i64 (a + b) = (if b > 0 then a + b - 18446744073709551616 else a + b + 18446744073709551616)"
proof -
  let ?M = "18446744073709551616 :: int" and ?H = "9223372036854775808 :: int"
  show ?thesis
  proof (cases "b > 0")
    case True
    with assms have "(a + b + ?H - ?M) mod ?M = a + b + ?H - ?M"
      by (intro mod_pos_pos_trivial) (auto simp: is_i64_def)
    then have "(a + b + ?H) mod ?M = a + b + ?H - ?M"
      by (simp only: minus_mod_self2)
    with True show ?thesis by (simp add: i64_def)
  next
    case False
    with assms have "(a + b + ?H + ?M) mod ?M = a + b + ?H + ?M"
      by (intro mod_pos_pos_trivial) (auto simp: is_i64_def)
    then have "(a + b + ?H) mod ?M = a + b + ?H + ?M"
      by (simp only: mod_add_self2)
    with False show ?thesis by (simp add: i64_def)
  qed
qed

section \<open>Properties\<close>

text \<open>
  The uint64 operations of the virtual machine return the exact result when it fits and
  saturate otherwise; the \<open>WithErr\<close> variants report exactly the saturated cases.
\<close>

theorem uint64_saturates:
  assumes "is_u64 a" and "is_u64 b"
  shows "AddUint64 a b = min (a + b) MaxUint64 \<and> SubUint64 a b = max (a - b) 0 \<and>
    MulUint64 a b = min (a * b) MaxUint64 \<and>
    (snd (AddUint64WithErr a b) = None \<longleftrightarrow> a + b \<le> MaxUint64) \<and>
    (snd (MulUint64WithErr a b) = None \<longleftrightarrow> a * b \<le> MaxUint64)"
proof -
  have "0 \<le> a * b"
    using assms by (simp add: is_u64_def)
  then have "u64 (a * b) = a * b" if "a * b \<le> MaxUint64"
    using that by (simp add: u64_def go_int_consts)
  moreover have "(0::int) \<le> MaxUint64"
    by (simp add: go_int_consts)
  ultimately show ?thesis
    using assms add_detects [OF assms] mul_detects [OF assms] u64_add_cases [OF assms]
    by (cases "a = 0 \<or> b = 0")
      (auto simp: AddUint64_def AddUint64WithErr_def SubUint64_def MulUint64_def MulUint64WithErr_def Let_def
        u64_def is_u64_def)
qed

theorem uint64_saturates_witness:
  "AddUint64 MaxUint64 5 = MaxUint64 \<and> SubUint64 MaxUint64 5 = 18446744073709551610 \<and> MulUint64 MaxUint64 5 = MaxUint64"
  using uint64_saturates [of MaxUint64 5] by (simp add: is_u64_def go_int_consts)

text \<open>
  C40: the overflow handler. Without an earlier error, an addition reports an error exactly when the
  sum is no int64; so does a multiplication, except for the product of the smallest int64 and -1
  in that order, which overflows and is returned wrapped around without an error (the check divides
  the product by -1 again, which wraps a second time). Otherwise the result is exact.
\<close>

theorem overflowHandler_detects:
  assumes "is_i64 a" and "is_i64 b"
  shows "handler_AddInt64 a b None = (if is_i64 (a + b) then (None, a + b) else (Some ErrAdditionOverflow, MaxInt64)) \<and>
    handler_MulInt64 a b None =
      (if a = MinInt64 \<and> b = - 1 then (None, MinInt64)
       else if is_i64 (a * b) then (None, a * b)
       else (Some ErrMultiplicationOverflow, MaxInt64))"
proof -
  have "handler_MulInt64 a b None = (None, MinInt64)" if "a = MinInt64" "b = - 1"
    using that by (simp add: handler_MulInt64_def quotI_def i64_def go_int_consts)
  moreover have "handler_MulInt64 a b None =
      (if is_i64 (a * b) then (None, a * b) else (Some ErrMultiplicationOverflow, MaxInt64))"
    if "\<not> (a = MinInt64 \<and> b = - 1)"
  proof (cases "a = 0 \<or> b = 0")
    case True
    then show ?thesis
      by (auto simp: handler_MulInt64_def i64_def is_i64_def)
  next
    case False
    then show ?thesis
      using imul_detects [OF assms _ that] i64_id [of "a * b"] by (simp add: handler_MulInt64_def Let_def)
  qed
  moreover have "i64 (a + b) > a \<longleftrightarrow> b > 0" if "is_i64 (a + b)"
    using that by (simp add: i64_id)
  moreover have "(i64 (a + b) > a) \<noteq> (b > 0)" if "\<not> is_i64 (a + b)"
    using that assms iadd_wraps [OF assms] by (auto simp: is_i64_def)
  ultimately show ?thesis
    by (auto simp: handler_AddInt64_def Let_def i64_id)
qed

theorem overflowHandler_detects_witness:
  "handler_MulInt64 MinInt64 (- 1) None = (None, MinInt64) \<and>
   handler_AddInt64 MinInt64 (- 1) None = (Some ErrAdditionOverflow, MaxInt64)"
  using overflowHandler_detects [of MinInt64 "- 1"] by (simp add: is_i64_def go_int_consts)

end
