(* ===== verification/TwosComplement.thy ===== *)
theory TwosComplement
  imports GoPrelude
begin

text \<open>
  The two's complement encoding of unbounded integers that smart contracts see
  (\<open>kvm/math/twos-complement\<close>). \<open>natBytes\<close> and \<open>bytesNat\<close> are \<open>big.Int\<close>'s \<open>Bytes\<close> and \<open>SetBytes\<close>: the
  shortest big-endian representation of the absolute value, and its inverse.
\<close>

section \<open>Big-endian numbers\<close>

fun natBytes :: "nat \<Rightarrow> bytes" where
  "natBytes n = (if n = 0 then [] else natBytes (n div 256) @ [of_nat (n mod 256)])"

declare natBytes.simps [simp del]

primrec bytesNat_acc :: "nat \<Rightarrow> bytes \<Rightarrow> nat" where
  "bytesNat_acc acc [] = acc"
| "bytesNat_acc acc (b # bs) = bytesNat_acc (acc * 256 + unat b) bs"

definition bytesNat :: "bytes \<Rightarrow> nat" where
  "bytesNat bs = bytesNat_acc 0 bs"

section \<open>The code\<close>

definition msbIsOne :: "byte \<Rightarrow> bool" where
  "msbIsOne b \<longleftrightarrow> drop_bit 7 b = 1"

definition msbIsZero :: "byte \<Rightarrow> bool" where
  "msbIsZero b \<longleftrightarrow> drop_bit 7 b = 0"

definition CopyAlignRight :: "bytes \<Rightarrow> nat \<Rightarrow> bytes" where
  "CopyAlignRight inp targetLength =
     map (\<lambda>i. let j = int (length inp) - int targetLength + int i in if j < 0 then 0 else inp ! nat j)
       [0..<targetLength]"

definition ToBytes :: "int \<Rightarrow> bytes" where
  "ToBytes bi =
     (if bi < 0 then
        let resultBytes = map NOT (natBytes (nat \<bar>bi + 1\<bar>)) in
        if resultBytes = [] \<or> msbIsZero (hd resultBytes) then 255 # resultBytes else resultBytes
      else if bi = 0 then []
      else
        let resultBytes = natBytes (nat \<bar>bi\<bar>) in
        if msbIsOne (hd resultBytes) then 0 # resultBytes else resultBytes)"

definition ToBytesOfLength :: "int \<Rightarrow> nat \<Rightarrow> bytes option" where
  "ToBytesOfLength i bytesLength =
     (if i < 0 then
        let plus1Bytes = natBytes (nat \<bar>i + 1\<bar>);
            minimumBytes = length plus1Bytes + (if plus1Bytes = [] \<or> msbIsOne (hd plus1Bytes) then 1 else 0) in
        if bytesLength < minimumBytes then None
        else Some (map (\<lambda>k. let j = int (length plus1Bytes) - int bytesLength + int k in
                     if j < 0 then 255 else NOT (plus1Bytes ! nat j)) [0..<bytesLength])
      else if i = 0 then Some (replicate bytesLength 0)
      else
        let originalBytes = natBytes (nat \<bar>i\<bar>);
            minimumBytes = length originalBytes + (if msbIsOne (hd originalBytes) then 1 else 0) in
        if bytesLength < minimumBytes then None else Some (CopyAlignRight originalBytes bytesLength))"

definition FromBytes :: "bytes \<Rightarrow> int" where
  "FromBytes twosBytes =
     (case twosBytes of
        [] \<Rightarrow> 0
      | b # _ \<Rightarrow>
        if drop_bit 7 b = 0 then int (bytesNat twosBytes)
        else - int (bytesNat (map NOT twosBytes)) - 1)"

section \<open>Lemmas on big-endian numbers\<close>

lemma unat_lt_256: "unat (b :: byte) < 256"
  by (rule order_less_le_trans [OF unsigned_less]) simp

lemma bytesNat_acc: "bytesNat_acc acc bs = acc * 256 ^ length bs + bytesNat bs"
proof (induction bs arbitrary: acc)
  case (Cons b bs)
  from Cons [of "unat b"] Cons [of "acc * 256 + unat b"] show ?case
    by (simp add: bytesNat_def algebra_simps)
qed (simp add: bytesNat_def)

lemma bytesNat_Nil [simp]: "bytesNat [] = 0"
  by (simp add: bytesNat_def)

lemma bytesNat_Cons [simp]: "bytesNat (b # bs) = unat b * 256 ^ length bs + bytesNat bs"
  using bytesNat_acc [of "unat b" bs] by (simp add: bytesNat_def)

lemma bytesNat_append: "bytesNat (xs @ ys) = bytesNat xs * 256 ^ length ys + bytesNat ys"
  by (induction xs) (simp_all add: algebra_simps power_add)

lemma bytesNat_less: "bytesNat bs < 256 ^ length bs"
proof (induction bs)
  case (Cons b bs)
  have "unat b * 256 ^ length bs + bytesNat bs < (unat b + 1) * 256 ^ length bs"
    using Cons by simp
  also have "\<dots> \<le> 256 * 256 ^ length bs"
    using unat_lt_256 [of b] by (intro mult_right_mono) auto
  finally show ?case by simp
qed simp

lemma bytesNat_natBytes: "bytesNat (natBytes n) = n"
proof (induction n rule: natBytes.induct)
  case (1 n)
  have "unat (of_nat (n mod 256) :: byte) = n mod 256"
    by (simp add: unsigned_of_nat take_bit_nat_eq_self)
  with 1 show ?case
    by (subst natBytes.simps) (simp add: bytesNat_append)
qed

lemma natBytes_0: "natBytes n = [] \<longleftrightarrow> n = 0"
  by (subst natBytes.simps) simp

lemma natBytes_hd: "n \<noteq> 0 \<Longrightarrow> hd (natBytes n) \<noteq> 0"
proof (induction n rule: natBytes.induct)
  case (1 n)
  show ?case
  proof (cases "n div 256 = 0")
    case True
    then have "n < 256" by simp
    then have "unat (of_nat (n mod 256) :: byte) = n"
      by (simp add: unsigned_of_nat take_bit_nat_eq_self)
    with 1(2) True show ?thesis
      by (subst natBytes.simps) (auto simp: natBytes.simps [of 0] unat_eq_0)
  next
    case False
    with 1 show ?thesis
      by (subst natBytes.simps) (simp add: natBytes_0)
  qed
qed

lemma unat_NOT: "unat (NOT b) + unat (b :: byte) = 255"
proof -
  have "NOT b = 255 - b"
    by (simp add: not_eq_complement)
  moreover have "b \<le> 255"
    using unat_lt_256 [of b] by (simp add: word_le_nat_alt)
  ultimately have "unat (NOT b) = 255 - unat b"
    by (simp add: unat_sub)
  then show ?thesis
    using unat_lt_256 [of b] by simp
qed

lemma bytesNat_NOT: "bytesNat (map NOT bs) + bytesNat bs + 1 = 256 ^ length bs"
proof (induction bs)
  case (Cons b bs)
  have "(unat (NOT b) + unat b) * 256 ^ length bs + 256 ^ length bs = 256 * 256 ^ length bs"
    by (simp add: unat_NOT)
  with Cons show ?case
    by (simp add: algebra_simps)
qed simp

lemma msb_iff: "drop_bit 7 b = 0 \<longleftrightarrow> unat (b :: byte) < 128" "drop_bit 7 b = 1 \<longleftrightarrow> 128 \<le> unat (b :: byte)"
proof -
  have *: "unat (drop_bit 7 b) = unat b div 128"
    using unat_div [of b 128] by (simp add: drop_bit_eq_div)
  show "drop_bit 7 b = 0 \<longleftrightarrow> unat b < 128"
    using * by (metis div_eq_0_iff unat_eq_0 zero_neq_numeral)
  have "unat b div 128 = 1 \<longleftrightarrow> 128 \<le> unat b"
    using unat_lt_256 [of b] by linarith
  with * show "drop_bit 7 b = 1 \<longleftrightarrow> 128 \<le> unat b"
    by (metis unat_1 unsigned_word_eqI)
qed


section \<open>Correctness\<close>

lemma bytesNat_pad: "bytesNat (replicate k 0 @ bs) = bytesNat bs"
  by (induction k) simp_all

lemma unat_255: "unat (255 :: byte) = 255"
  by simp

text \<open>Decoding a byte string, by the leading byte.\<close>

lemma FromBytes_pos: "bs \<noteq> [] \<Longrightarrow> unat (hd bs) < 128 \<Longrightarrow> FromBytes bs = int (bytesNat bs)"
  by (cases bs) (auto simp: FromBytes_def msb_iff)

lemma FromBytes_neg: "bs \<noteq> [] \<Longrightarrow> 128 \<le> unat (hd bs) \<Longrightarrow> FromBytes bs = - int (bytesNat (map NOT bs)) - 1"
  by (cases bs) (auto simp: FromBytes_def msb_iff)

lemma NOT_msb: "128 \<le> unat (NOT b) \<longleftrightarrow> unat (b :: byte) < 128"
  using unat_NOT [of b] by linarith

lemma map_NOT_NOT: "map NOT (map NOT bs) = (bs :: bytes)"
  by (simp add: comp_def)

text \<open>
  C36: decoding what \<open>ToBytes\<close> encodes returns the number, for every integer.
\<close>

theorem FromBytes_ToBytes: "FromBytes (ToBytes n) = n"
proof -
  consider "n < 0" | "n = 0" | "0 < n" by linarith
  then show ?thesis
  proof cases
    case 1
    define bs where "bs = natBytes (nat \<bar>n + 1\<bar>)"
    have val: "int (bytesNat bs) = - n - 1"
      using 1 by (simp add: bs_def bytesNat_natBytes)
    have run: "ToBytes n = (if bs = [] \<or> msbIsZero (NOT (hd bs)) then 255 # map NOT bs else map NOT bs)"
      unfolding ToBytes_def Let_def bs_def [symmetric] using 1 by (cases bs) auto
    show ?thesis
    proof (cases "bs = [] \<or> msbIsZero (NOT (hd bs))")
      case True
      moreover have "NOT (255 :: byte) = 0" by simp
      ultimately show ?thesis
        using val FromBytes_neg [of "255 # map NOT bs"] by (simp add: run comp_def)
    next
      case False
      then have "128 \<le> unat (NOT (hd bs))"
        by (auto simp: msbIsZero_def msb_iff)
      then show ?thesis
        using False val FromBytes_neg [of "map NOT bs"] by (simp add: run hd_map comp_def)
    qed
  next
    case 2
    then show ?thesis by (simp add: ToBytes_def FromBytes_def)
  next
    case 3
    then have "natBytes (nat \<bar>n\<bar>) \<noteq> []" "int (bytesNat (natBytes (nat \<bar>n\<bar>))) = n"
      by (auto simp: natBytes_0 bytesNat_natBytes)
    with 3 show ?thesis
      by (auto simp: ToBytes_def Let_def msbIsOne_def msb_iff FromBytes_pos not_le)
  qed
qed

lemma alignRight:
  assumes "length bs \<le> n"
  shows "map (\<lambda>i. let j = int (length bs) - int n + int i in if j < 0 then x else f (bs ! nat j)) [0..<n]
    = replicate (n - length bs) x @ map f bs"
proof (rule nth_equalityI)
  show "length (map (\<lambda>i. let j = int (length bs) - int n + int i in if j < 0 then x else f (bs ! nat j)) [0..<n])
    = length (replicate (n - length bs) x @ map f bs)"
    using assms by simp
next
  fix i
  assume "i < length (map (\<lambda>i. let j = int (length bs) - int n + int i in if j < 0 then x else f (bs ! nat j)) [0..<n])"
  then have i: "i < n" by simp
  show "map (\<lambda>i. let j = int (length bs) - int n + int i in if j < 0 then x else f (bs ! nat j)) [0..<n] ! i
    = (replicate (n - length bs) x @ map f bs) ! i"
  proof (cases "i < n - length bs")
    case True
    then have "int (length bs) - int n + int i < 0" by linarith
    with True i show ?thesis by (simp add: Let_def nth_append)
  next
    case False
    then have "nat (int (length bs) - int n + int i) = i - (n - length bs)"
      using assms by linarith
    moreover have "\<not> int (length bs) - int n + int i < 0"
      using False assms by linarith
    ultimately show ?thesis
      using False assms i by (simp add: Let_def nth_append)
  qed
qed

lemma fits_iff:
  assumes "m \<noteq> 0"
  shows "length (natBytes m) + (if msbIsOne (hd (natBytes m)) then 1 else 0) \<le> len \<longleftrightarrow> 2 * m + 1 < 256 ^ len"
proof -
  obtain b bs where bs: "natBytes m = b # bs"
    using assms natBytes_0 by (cases "natBytes m") auto
  have m: "m = unat b * 256 ^ length bs + bytesNat bs"
    using bytesNat_natBytes [of m] bs by simp
  have low: "1 \<le> unat b"
    using natBytes_hd [OF assms] bs unat_eq_0 [of b] by (cases "unat b") auto
  let ?P = "256 ^ length bs :: nat"
  have P: "0 < ?P" by simp
  have rest: "bytesNat bs < ?P" by (rule bytesNat_less)
  consider "len \<le> length bs" | "len = Suc (length bs)" | "Suc (Suc (length bs)) \<le> len" by linarith
  then show ?thesis
  proof cases
    case 1
    then have "(256::nat) ^ len \<le> ?P" by (rule power_increasing) simp
    also have "\<dots> \<le> unat b * ?P" using low by simp
    finally have "\<not> 2 * m + 1 < 256 ^ len"
      using m by linarith
    then show ?thesis
      using 1 bs by simp
  next
    case 2
    have "2 * m + 1 < 256 ^ len \<longleftrightarrow> unat b < 128"
    proof
      assume "unat b < 128"
      then have "unat b * ?P \<le> 127 * ?P" by (intro mult_right_mono) auto
      then show "2 * m + 1 < 256 ^ len"
        unfolding 2 power_Suc using m rest by linarith
    next
      assume *: "2 * m + 1 < 256 ^ len"
      show "unat b < 128"
      proof (rule ccontr)
        assume "\<not> unat b < 128"
        then have "128 * ?P \<le> unat b * ?P" by (intro mult_right_mono) auto
        with m * [unfolded 2 power_Suc] show False by linarith
      qed
    qed
    then show ?thesis
      using 2 bs by (simp add: msbIsOne_def msb_iff)
  next
    case 3
    have "unat b * ?P \<le> 255 * ?P"
      using unat_lt_256 [of b] by (intro mult_right_mono) auto
    moreover have "(256::nat) ^ Suc (Suc (length bs)) \<le> 256 ^ len"
      using 3 by (rule power_increasing) simp
    then have "256 * (256 * ?P) \<le> 256 ^ len" by simp
    ultimately have "2 * m + 1 < 256 ^ len"
      using m rest by linarith
    then show ?thesis
      using 3 bs by simp
  qed
qed

lemma ToBytesOfLength_run:
  assumes "m = nat (if n < 0 then - n - 1 else n)"
  shows "ToBytesOfLength n len =
    (if 2 * m + 1 < 256 ^ len \<or> n = 0 then
       Some (if n < 0 then replicate (len - length (natBytes m)) 255 @ map NOT (natBytes m)
             else replicate (len - length (natBytes m)) 0 @ natBytes m)
     else None)"
proof -
  consider "n = -1" | "n < -1" | "n = 0" | "0 < n" by linarith
  then show ?thesis
  proof cases
    case 1
    with assms have m: "m = 0" "natBytes m = []" by (auto simp: natBytes_0)
    have "Suc 0 < 256 ^ len \<longleftrightarrow> 0 < len"
      using one_less_power [of "256::nat" len] by (cases "len = 0") auto
    moreover have "map (\<lambda>k. if k < len then 255 else g k) [0..<len] = replicate len (255::byte)" for g
      by (rule nth_equalityI) auto
    ultimately show ?thesis
      using 1 m by (simp add: ToBytesOfLength_def Let_def natBytes.simps [of 0])
  next
    case 2
    then have m: "nat \<bar>n + 1\<bar> = m" "m \<noteq> 0" "natBytes m \<noteq> []"
      using assms by (auto simp: natBytes_0)
    have *: "length (natBytes m) \<le> len" if "2 * m + 1 < 256 ^ len"
      using fits_iff [OF m(2), of len] that by (auto split: if_splits)
    show ?thesis
      using 2 m(3) fits_iff [OF m(2), of len] * alignRight [of "natBytes m" len 255 NOT]
      unfolding ToBytesOfLength_def m(1) Let_def by (auto simp: not_less)
  next
    case 3
    then show ?thesis
      using assms by (simp add: ToBytesOfLength_def natBytes.simps [of 0])
  next
    case 4
    then have m: "nat \<bar>n\<bar> = m" "m \<noteq> 0" "natBytes m \<noteq> []"
      using assms by (auto simp: natBytes_0)
    have *: "length (natBytes m) \<le> len" if "2 * m + 1 < 256 ^ len"
      using fits_iff [OF m(2), of len] that by (auto split: if_splits)
    show ?thesis
      using 4 m(3) fits_iff [OF m(2), of len] * alignRight [of "natBytes m" len 0 "\<lambda>x. x"]
      unfolding ToBytesOfLength_def CopyAlignRight_def m(1) Let_def by (auto simp: not_less)
  qed
qed

lemma fits_int:
  assumes "m = nat (if n < 0 then - n - 1 else n)" "n \<noteq> 0"
  shows "2 * m + 1 < 256 ^ len \<longleftrightarrow> - (256 ^ len) \<le> 2 * n \<and> 2 * n < 256 ^ len"
proof -
  obtain X :: int where X: "256 ^ len = X" by simp
  have "odd X \<longleftrightarrow> len = 0" "len = 0 \<Longrightarrow> X = 1"
    using X [symmetric] by (auto simp: even_power)
  then have par: "2 * n < X \<longleftrightarrow> 2 * n + 1 < X"
    using assms(2) by presburger
  have "2 * m + 1 < 256 ^ len \<longleftrightarrow> int (2 * m + 1) < int (256 ^ len)"
    by (rule of_nat_less_iff [symmetric])
  also have "\<dots> \<longleftrightarrow> 1 + 2 * int m < X"
    using X by simp
  also have "\<dots> \<longleftrightarrow> - X \<le> 2 * n \<and> 2 * n < X"
    using par assms by (cases "n < 0") auto
  finally show ?thesis
    unfolding X .
qed

lemma fits_bytes:
  assumes "2 * m + 1 < 256 ^ len"
  shows "length (natBytes m) \<le> len" and "natBytes m = [] \<Longrightarrow> 0 < len"
    and "natBytes m \<noteq> [] \<Longrightarrow> length (natBytes m) = len \<Longrightarrow> unat (hd (natBytes m)) < 128"
proof -
  have *: "m \<noteq> 0 \<Longrightarrow> length (natBytes m) + (if msbIsOne (hd (natBytes m)) then 1 else 0) \<le> len"
    using fits_iff [of m len] assms by blast
  show "length (natBytes m) \<le> len"
    using * natBytes_0 [of m] by (cases "m = 0") auto
  show "0 < len" if "natBytes m = []"
    using assms by (cases len) auto
  show "unat (hd (natBytes m)) < 128" if "natBytes m \<noteq> []" "length (natBytes m) = len"
  proof (rule ccontr)
    assume "\<not> unat (hd (natBytes m)) < 128"
    then have "msbIsOne (hd (natBytes m))"
      by (simp add: msbIsOne_def msb_iff)
    moreover have "m \<noteq> 0"
      using that(1) natBytes_0 [of m] by simp
    ultimately have "length (natBytes m) + 1 \<le> len"
      using * by simp
    with that(2) show False by simp
  qed
qed

lemma pad_hd:
  assumes "length bs \<le> len" "bs = [] \<Longrightarrow> 0 < len" "bs \<noteq> [] \<Longrightarrow> length bs = len \<Longrightarrow> P (hd bs)" "P x"
  shows "replicate (len - length bs) x @ bs \<noteq> []" "P (hd (replicate (len - length bs) x @ bs))"
  using assms by (cases "length bs = len"; cases bs; auto simp: hd_append)+

lemma decode_negative:
  assumes "2 * m + 1 < 256 ^ len"
  shows "FromBytes (replicate (len - length (natBytes m)) 255 @ map NOT (natBytes m)) = - int m - 1"
proof -
  obtain bs where bs: "natBytes m = bs" "bytesNat bs = m"
    using bytesNat_natBytes [of m] by blast
  let ?bs = "replicate (len - length (map NOT bs)) 255 @ map NOT bs"
  have hd: "bs \<noteq> [] \<Longrightarrow> length bs = len \<Longrightarrow> 128 \<le> unat (NOT (hd bs))"
    using fits_bytes(3) [OF assms] bs(1) by (simp add: NOT_msb)
  have "?bs \<noteq> []" "128 \<le> unat (hd ?bs)"
    by (rule pad_hd; use fits_bytes(1,2) [OF assms] bs(1) hd in \<open>simp add: hd_map\<close>)+
  moreover have "map NOT ?bs = replicate (len - length bs) 0 @ bs"
    by (simp add: comp_def)
  ultimately have "FromBytes ?bs = - int (bytesNat (replicate (len - length bs) 0 @ bs)) - 1"
    by (metis FromBytes_neg)
  then show ?thesis
    using bs by (simp add: bytesNat_pad)
qed

lemma decode_positive:
  assumes "2 * m + 1 < 256 ^ len"
  shows "FromBytes (replicate (len - length (natBytes m)) 0 @ natBytes m) = int m"
proof -
  obtain bs where bs: "natBytes m = bs" "bytesNat bs = m"
    using bytesNat_natBytes [of m] by blast
  let ?bs = "replicate (len - length bs) 0 @ bs"
  have "?bs \<noteq> []" "unat (hd ?bs) < 128"
    by (rule pad_hd; use fits_bytes [OF assms] bs(1) in simp)+
  then show ?thesis
    using FromBytes_pos [of ?bs] bs by (simp add: bytesNat_pad)
qed

lemma decode_zero: "FromBytes (replicate len 0) = 0"
  using bytesNat_pad [of len "[]"] by (cases len) (simp_all add: FromBytes_def)

text \<open>
  C37: \<open>ToBytesOfLength\<close> succeeds exactly on the numbers that fit the given number of bytes in two's
  complement; the result then has that length and decodes to the number.
\<close>

theorem ToBytesOfLength_correct:
  "case ToBytesOfLength n len of
     Some bs \<Rightarrow> length bs = len \<and> FromBytes bs = n \<and> (n = 0 \<or> - (256 ^ len) \<le> 2 * n \<and> 2 * n < 256 ^ len)
   | None \<Rightarrow> 2 * n < - (256 ^ len) \<or> 256 ^ len \<le> 2 * n"
proof (cases "n = 0")
  case True
  then show ?thesis
    by (simp add: ToBytesOfLength_def decode_zero)
next
  case False
  define m where "m = nat (if n < 0 then - n - 1 else n)"
  show ?thesis
  proof (cases "2 * m + 1 < 256 ^ len")
    case True
    moreover have "- int m - 1 = n" if "n < 0"
      using that by (simp add: m_def)
    moreover have "int m = n" if "\<not> n < 0"
      using that by (simp add: m_def)
    ultimately show ?thesis
      using fits_int [OF m_def False, of len] fits_bytes(1) [of m len] decode_negative [of m len]
        decode_positive [of m len]
      unfolding ToBytesOfLength_run [OF m_def] by (cases "n < 0") simp_all
  next
    case False2: False
    then show ?thesis
      using fits_int [OF m_def False, of len] unfolding ToBytesOfLength_run [OF m_def]
      by (simp add: False not_le not_less)
  qed
qed

end
