(* ===== verification/KdaUtils.thy ===== *)
theory KdaUtils
  imports CommonErrors
begin

text \<open>
  The asset helpers of \<open>core/process/kda/kdautils/utils.go\<close>: validity of tickers, names and supplies,
  and the keys under which assets, proposals, offers and orders are stored. All of these live in the
  data trie of one account, told apart by the prefix before the first separator. The base-36
  decoder and the hash function are parameters.
\<close>

section \<open>Constants\<close>

definition Sp :: byte where
  "Sp = 47"

definition TickerSeparator :: byte where
  "TickerSeparator = 45"

definition KLVIdentifier :: bytes where
  "KLVIdentifier = str ''KLV''"

definition KFIIdentifier :: bytes where
  "KFIIdentifier = str ''KFI''"

definition TickerRandomSequenceLength :: nat where
  "TickerRandomSequenceLength = 4"

definition KDAPrefix :: bytes where "KDAPrefix = str ''KDA''"
definition ProposalPrefix :: bytes where "ProposalPrefix = str ''PROP''"
definition ProposalVotesPrefix :: bytes where "ProposalVotesPrefix = str ''PROPVOTES''"
definition ITOPrefix :: bytes where "ITOPrefix = str ''ITO''"
definition ITOWhitelistPrefix :: bytes where "ITOWhitelistPrefix = str ''ITOWL''"
definition MarketOrderPrefix :: bytes where "MarketOrderPrefix = str ''MKT''"
definition MarketplacePrefix :: bytes where "MarketplacePrefix = str ''MKTPLACE''"

lemmas key_consts = Sp_def TickerSeparator_def KLVIdentifier_def KFIIdentifier_def KDAPrefix_def
  ProposalPrefix_def ProposalVotesPrefix_def ITOPrefix_def ITOWhitelistPrefix_def MarketOrderPrefix_def
  MarketplacePrefix_def str_def

datatype KDAType = Fungible | NonFungible

section \<open>Validity checks\<close>

definition isBigCharacter :: "byte \<Rightarrow> bool" where
  "isBigCharacter ch \<longleftrightarrow> 65 \<le> ch \<and> ch \<le> 90"

definition isSmallCharacter :: "byte \<Rightarrow> bool" where
  "isSmallCharacter ch \<longleftrightarrow> 97 \<le> ch \<and> ch \<le> 122"

definition isNumber :: "byte \<Rightarrow> bool" where
  "isNumber ch \<longleftrightarrow> 48 \<le> ch \<and> ch \<le> 57"

definition MinLengthForAssetTicker :: nat where "MinLengthForAssetTicker = 3"
definition MaxLengthForAssetTicker :: nat where "MaxLengthForAssetTicker = 10"
definition MinLengthForAssetName :: nat where "MinLengthForAssetName = 1"
definition MaxLengthForAssetName :: nat where "MaxLengthForAssetName = 32"

definition IsTickerValid :: "bytes \<Rightarrow> bool" where
  "IsTickerValid tickerName \<longleftrightarrow>
     \<not> (length tickerName < MinLengthForAssetTicker \<or> length tickerName > MaxLengthForAssetTicker \<or>
        tickerName = KLVIdentifier \<or> tickerName = KFIIdentifier) \<and>
     (\<forall>ch\<in>set tickerName. isBigCharacter ch \<or> isNumber ch)"

definition IsAssetNameHumanReadableOld :: "bytes \<Rightarrow> bool" where
  "IsAssetNameHumanReadableOld assetName \<longleftrightarrow>
     \<not> (length assetName < MinLengthForAssetName \<or> length assetName > MaxLengthForAssetName) \<and>
     (\<forall>ch\<in>set assetName. isSmallCharacter ch \<or> isBigCharacter ch \<or> isNumber ch \<or> ch = 32)"

definition IsAssetNameHumanReadable :: "bytes \<Rightarrow> bool" where
  "IsAssetNameHumanReadable assetName \<longleftrightarrow>
     \<not> (length assetName < MinLengthForAssetName \<or> length assetName > MaxLengthForAssetName) \<and>
     (\<forall>ch\<in>set assetName. isSmallCharacter ch \<or> isBigCharacter ch \<or> isNumber ch)"

definition IsSupplyValid :: "bool \<Rightarrow> int \<Rightarrow> int \<Rightarrow> int \<Rightarrow> bool" where
  "IsSupplyValid mintable initSupply circSupply maxSupply =
     (if initSupply < 0 \<or> circSupply < 0 \<or> maxSupply < 0 then False
      else if \<not> mintable then initSupply = circSupply \<and> initSupply = maxSupply
      else initSupply = circSupply \<and> (maxSupply = 0 \<or> initSupply \<le> maxSupply))"

definition IsNFTContractValid :: "int \<Rightarrow> int \<Rightarrow> bool" where
  "IsNFTContractValid initSupply precision = (if initSupply \<noteq> 0 then False else if precision \<noteq> 0 then False else True)"

section \<open>Keys\<close>

definition ToKDAKeyWithouPrefix :: "bytes \<Rightarrow> bytes \<Rightarrow> bytes" where
  "ToKDAKeyWithouPrefix kdaID nonce =
     (if length nonce > 0 \<and> nonce \<noteq> str ''0'' then kdaID @ Sp # nonce else kdaID)"

definition ToKDAKey :: "bytes \<Rightarrow> bytes \<Rightarrow> bytes" where
  "ToKDAKey kdaID nonce =
     (let key = KDAPrefix @ Sp # kdaID in
      if length nonce > 0 \<and> nonce \<noteq> str ''0'' then key @ Sp # nonce else key)"

definition ToProposalKey :: "int \<Rightarrow> bytes" where
  "ToProposalKey proposalID = ProposalPrefix @ Sp # FormatUint proposalID"

definition ToAccountProposalVotesKey :: "bytes \<Rightarrow> bytes" where
  "ToAccountProposalVotesKey hexAddress = ProposalVotesPrefix @ Sp # hexAddress"

definition ToITOKey :: "bytes \<Rightarrow> bytes" where
  "ToITOKey kdaID = ITOPrefix @ Sp # kdaID"

definition ToITOWhitelistKey :: "bytes \<Rightarrow> bytes \<Rightarrow> bytes" where
  "ToITOWhitelistKey kdaID hexAddress = ITOWhitelistPrefix @ Sp # kdaID @ Sp # hexAddress"

definition ToMarketOrderKey :: "bytes \<Rightarrow> bytes" where
  "ToMarketOrderKey orderID = MarketOrderPrefix @ Sp # orderID"

definition ToMarketplaceKey :: "bytes \<Rightarrow> bytes" where
  "ToMarketplaceKey marketplaceID = MarketplacePrefix @ Sp # marketplaceID"

text \<open>\<open>PutUint64\<close>: eight big-endian bytes.\<close>

definition putUint64 :: "int \<Rightarrow> bytes" where
  "putUint64 v = map (\<lambda>i. word_of_int (v div 256 ^ (7 - i))) [0..<8]"

definition ToBucketID ::
  "(bytes \<Rightarrow> bytes) \<Rightarrow> bytes \<Rightarrow> bytes \<Rightarrow> bytes \<Rightarrow> int \<Rightarrow> int \<Rightarrow> int \<Rightarrow> bytes"
where
  "ToBucketID hash randSeed sender assetID nonce contractIndex amount =
     hash (randSeed @ sender @ assetID @ hexEncode (putUint64 nonce) @
       hexEncode (putUint64 (u64 contractIndex)) @ hexEncode (putUint64 (if amount < 0 then 0 else amount)))"

definition ToMarketID :: "(bytes \<Rightarrow> bytes) \<Rightarrow> bytes \<Rightarrow> bytes \<Rightarrow> int \<Rightarrow> int \<Rightarrow> nat \<Rightarrow> bytes" where
  "ToMarketID hash randSeed sender nonce contractIndex marketKeyLength =
     take marketKeyLength (hash (randSeed @ sender @ hexEncode (putUint64 nonce) @
       hexEncode (putUint64 (u64 contractIndex))))"

text \<open>The active proposals: the ids in any bucket of the controller.\<close>

definition ActiveProposalIDs :: "(int \<times> int list) list \<Rightarrow> int list" where
  "ActiveProposalIDs activeProposals = remdups (concat (map snd activeProposals))"

definition ExtractAssetIDAndNonce :: "(bytes \<Rightarrow> bool) \<Rightarrow> bytes \<Rightarrow> common_error + bytes \<times> int \<times> KDAType" where
  "ExtractAssetIDAndNonce base36ok key =
     (if length key = 0 then Inr (KLVIdentifier, 0, Fungible)
      else if key = KLVIdentifier \<or> key = KFIIdentifier then Inr (key, 0, Fungible)
      else
        let keySplit = bytesSplit Sp key in
        bindE
          (if length keySplit > 1 then
             (case ParseUint 64 (keySplit ! 1) of
                (_, Some err) \<Rightarrow> Inl (NumErr err)
              | (nonce, None) \<Rightarrow> Inr (nonce, NonFungible))
           else Inr (0, Fungible))
          (\<lambda>(nonce, tokenType).
             let tickerSplit = bytesSplit TickerSeparator (keySplit ! 0) in
             if length tickerSplit \<noteq> 2 then Inl ErrTickerName
             else if length (tickerSplit ! 0) < MinLengthForAssetTicker \<or>
                     length (tickerSplit ! 0) > MaxLengthForAssetTicker then Inl ErrTickerLength
             else if length (tickerSplit ! 1) \<noteq> TickerRandomSequenceLength then Inl ErrTickerSequenceLength
             else if \<not> base36ok (tickerSplit ! 1) then Inl ErrTickerSequenceEncoding
             else Inr (keySplit ! 0, nonce, tokenType)))"

section \<open>Properties\<close>

text \<open>The first piece of a key is its prefix.\<close>

lemma key_prefix:
  "hd (bytesSplit Sp (ToKDAKey i n)) = KDAPrefix"
  "hd (bytesSplit Sp (ToProposalKey k)) = ProposalPrefix"
  "hd (bytesSplit Sp (ToAccountProposalVotesKey h)) = ProposalVotesPrefix"
  "hd (bytesSplit Sp (ToITOKey i)) = ITOPrefix"
  "hd (bytesSplit Sp (ToITOWhitelistKey i h)) = ITOWhitelistPrefix"
  "hd (bytesSplit Sp (ToMarketOrderKey i)) = MarketOrderPrefix"
  "hd (bytesSplit Sp (ToMarketplaceKey i)) = MarketplacePrefix"
  by (simp_all add: ToKDAKey_def ToProposalKey_def ToAccountProposalVotesKey_def ToITOKey_def
      ToITOWhitelistKey_def ToMarketOrderKey_def ToMarketplaceKey_def Let_def key_consts bytesSplit_append)

definition storageKeys ::
  "bytes \<Rightarrow> bytes \<Rightarrow> int \<Rightarrow> bytes \<Rightarrow> bytes \<Rightarrow> bytes \<Rightarrow> bytes \<Rightarrow> bytes \<Rightarrow> bytes \<Rightarrow> bytes list"
where
  "storageKeys kda nonce prop voter ito wl wlAddr order market =
     [ToKDAKey kda nonce, ToProposalKey prop, ToAccountProposalVotesKey voter, ToITOKey ito,
      ToITOWhitelistKey wl wlAddr, ToMarketOrderKey order, ToMarketplaceKey market]"

text \<open>
  C32: whatever the identifiers, the seven kinds of storage keys never collide with each other.
\<close>

theorem storage_keys_disjoint:
  "distinct (storageKeys kda nonce prop voter ito wl wlAddr order market)"
proof -
  have "distinct (map (\<lambda>k. hd (bytesSplit Sp k)) (storageKeys kda nonce prop voter ito wl wlAddr order market))"
    unfolding storageKeys_def list.map key_prefix by (simp add: key_consts)
  then show ?thesis by (rule distinct_map [THEN iffD1, THEN conjunct1])
qed

lemma ToKDAKey_unfold: "ToKDAKey kdaID nonce = KDAPrefix @ Sp # ToKDAKeyWithouPrefix kdaID nonce"
  by (simp add: ToKDAKey_def ToKDAKeyWithouPrefix_def Let_def)

definition nonceOf :: "bytes \<Rightarrow> bytes" where
  "nonceOf nonce = (if nonce = str ''0'' then [] else nonce)"

lemma split_unique: "a @ s # b = c @ s # d \<Longrightarrow> s \<notin> set a \<Longrightarrow> s \<notin> set c \<Longrightarrow> a = c \<and> b = d"
proof (induction a arbitrary: c)
  case Nil
  then show ?case by (cases c) auto
next
  case (Cons x a)
  then show ?case by (cases c) auto
qed

text \<open>
  C33: for identifiers without the separator \<open>/\<close>, which valid tickers do not contain, the keys of two assets are
  equal exactly if the identifiers are and the nonces are, where no nonce and the nonce \<open>"0"\<close> count as the same.
\<close>

theorem ToKDAKey_injective:
  assumes "Sp \<notin> set i" and "Sp \<notin> set j"
  shows "ToKDAKey i n = ToKDAKey j m \<longleftrightarrow> i = j \<and> nonceOf n = nonceOf m"
proof -
  have zero: "str ''0'' \<noteq> []" by (simp add: str_def)
  have *: "ToKDAKeyWithouPrefix k l = (if nonceOf l = [] then k else k @ Sp # nonceOf l)" for k l
    using zero by (auto simp: ToKDAKeyWithouPrefix_def nonceOf_def)
  have "ToKDAKey i n = ToKDAKey j m \<longleftrightarrow> ToKDAKeyWithouPrefix i n = ToKDAKeyWithouPrefix j m"
    by (simp add: ToKDAKey_unfold)
  also have "\<dots> \<longleftrightarrow> i = j \<and> nonceOf n = nonceOf m"
    using assms split_unique [of i Sp "nonceOf n" j "nonceOf m"] unfolding * by auto
  finally show ?thesis .
qed

theorem ToKDAKey_injective_witness:
  "ToKDAKey (str ''NFT-2KXZ'') (str ''7'') \<noteq> ToKDAKey (str ''NFT-2KXZ'') (str ''8'') \<and>
   ToKDAKey (str ''NFT-2KXZ'') [] = ToKDAKey (str ''NFT-2KXZ'') (str ''0'')"
  using ToKDAKey_injective [of "str ''NFT-2KXZ''" "str ''NFT-2KXZ''" "str ''7''" "str ''8''"]
    ToKDAKey_injective [of "str ''NFT-2KXZ''" "str ''NFT-2KXZ''" "[]" "str ''0''"]
  by (simp add: nonceOf_def str_def Sp_def)

text \<open>Without the premise on the separator the key does not determine the asset.\<close>

lemma ToKDAKey_separator: "ToKDAKey (str ''A/1'') [] = ToKDAKey (str ''A'') (str ''1'')"
  by (simp add: ToKDAKey_def str_def Sp_def)

lemma ticker_clean:
  assumes "IsTickerValid t"
  shows "Sp \<notin> set t" "TickerSeparator \<notin> set t"
  using assms by (auto simp: IsTickerValid_def isBigCharacter_def isNumber_def key_consts word_le_nat_alt)

lemma fmt_nat_clean: "Sp \<notin> set (fmt_nat n)"
  using fmt_nat_digits [of Sp n] by (auto simp: is_digit_def Sp_def word_le_nat_alt)

lemma fmt_nat_zero: "fmt_nat n = str ''0'' \<longleftrightarrow> n = 0"
proof
  assume *: "fmt_nat n = str ''0''"
  have "parseUint_loop (int n) 0 (fmt_nat n) = (int n, None)"
    using parse_fmt_nat [of n "int n" "[]"] by simp
  then show "n = 0"
    unfolding * by (simp add: str_def is_digit_def word_le_nat_alt Let_def)
next
  assume "n = 0"
  then show "fmt_nat n = str ''0''"
    by (simp add: fmt_nat.simps digit_def str_def)
qed

text \<open>
  C34: parsing the identifier of a token returns its asset, its nonce and its type, for every valid
  ticker, every random sequence of the right length that the base-36 decoder accepts (its alphabet
  has neither separator), and every uint64 nonce.
\<close>

theorem ExtractAssetIDAndNonce_roundtrip:
  assumes "IsTickerValid t" and "length r = TickerRandomSequenceLength" and "base36ok r"
    and "Sp \<notin> set r" and "TickerSeparator \<notin> set r" and "is_u64 n"
  shows "ExtractAssetIDAndNonce base36ok (ToKDAKeyWithouPrefix (t @ TickerSeparator # r) (FormatUint n)) =
    Inr (t @ TickerSeparator # r, n, if n = 0 then Fungible else NonFungible)"
proof -
  let ?id = "t @ TickerSeparator # r"
  have len: "MinLengthForAssetTicker \<le> length t" "length t \<le> MaxLengthForAssetTicker"
    using assms(1) by (auto simp: IsTickerValid_def)
  have id: "Sp \<notin> set ?id"
    using assms(4) ticker_clean [OF assms(1)] by (simp add: Sp_def TickerSeparator_def)
  have tick: "bytesSplit TickerSeparator ?id = [t, r]"
    using ticker_clean [OF assms(1)] assms(5) by (simp add: bytesSplit_append bytesSplit_free)
  have noid: "k \<noteq> KLVIdentifier" "k \<noteq> KFIIdentifier" if "length k > 3" for k
    using that by (auto simp: key_consts)
  show ?thesis
  proof (cases "n = 0")
    case True
    then have "ToKDAKeyWithouPrefix ?id (FormatUint n) = ?id"
      using fmt_nat_zero [of "nat n"] by (simp add: ToKDAKeyWithouPrefix_def FormatUint_def)
    with True assms(2,3) len tick noid [of ?id] show ?thesis
      by (simp add: ExtractAssetIDAndNonce_def bytesSplit_free [OF id] TickerRandomSequenceLength_def)
  next
    case False
    with assms(6) have "fmt_nat (nat n) \<noteq> str ''0''"
      by (simp add: fmt_nat_zero is_u64_def)
    then have key: "ToKDAKeyWithouPrefix ?id (FormatUint n) = ?id @ Sp # FormatUint n"
      by (simp add: ToKDAKeyWithouPrefix_def FormatUint_def)
    have split: "bytesSplit Sp (?id @ Sp # FormatUint n) = [?id, FormatUint n]"
      using bytesSplit_append [OF id, of "FormatUint n"] fmt_nat_clean
      by (simp add: FormatUint_def bytesSplit_free)
    have "ParseUint 64 (FormatUint n) = (n, None)"
      using assms(6) by (intro ParseUint_FormatUint) (auto simp: is_u64_def)
    with False assms(2,3) len tick noid [of "?id @ Sp # FormatUint n"] show ?thesis
      unfolding key ExtractAssetIDAndNonce_def split
      by (simp add: TickerRandomSequenceLength_def)
  qed
qed

theorem ExtractAssetIDAndNonce_roundtrip_witness:
  "ExtractAssetIDAndNonce (\<lambda>r. True) (ToKDAKeyWithouPrefix (str ''NFT'' @ TickerSeparator # str ''2KXZ'') (FormatUint 7)) =
     Inr (str ''NFT-2KXZ'', 7, NonFungible)"
proof -
  have "IsTickerValid (str ''NFT'')"
    by (auto simp: IsTickerValid_def isBigCharacter_def key_consts word_le_nat_alt
        MinLengthForAssetTicker_def MaxLengthForAssetTicker_def)
  from ExtractAssetIDAndNonce_roundtrip [OF this, of "str ''2KXZ''" "\<lambda>r. True" 7] show ?thesis
    by (simp add: TickerRandomSequenceLength_def key_consts is_u64_def)
qed

end
