(* ===== verification/DataTrie.thy ===== *)
theory DataTrie
  imports PatriciaTrie CommonErrors "HOL-Library.AList"
begin

text \<open>
  The account storage: \<open>data/state/trackableDataTrie.go\<close>, and the loops of
  \<open>accountsDB.go\<close> and \<open>journalEntries.go\<close> that write the cached changes to the data trie and take
  them back. A stored value carries a tail, the key and the account's identifier.

  A Go map is an association list with distinct keys; its order is the order in which Go happens to
  iterate, and no theorem depends on it. The loops are written over the operations of a key-value
  store, and their lemmas are proved from its contract.
\<close>

definition MaxLeafSize :: nat where
  "MaxLeafSize = 2 ^ 18 + 2 ^ 19"

record TrackableDataTrie =
  td_dirtyData :: "(bytes \<times> bytes) list"
  td_tr :: "patriciaMerkleTrie option"
  td_identifier :: bytes

definition NewTrackableDataTrie :: "bytes \<Rightarrow> patriciaMerkleTrie option \<Rightarrow> TrackableDataTrie" where
  "NewTrackableDataTrie identifier tr = \<lparr>td_dirtyData = [], td_tr = tr, td_identifier = identifier\<rparr>"

definition ClearDataCaches :: "TrackableDataTrie \<Rightarrow> TrackableDataTrie" where
  "ClearDataCaches tdaw = tdaw\<lparr>td_dirtyData := []\<rparr>"

definition SetDataTrie :: "patriciaMerkleTrie option \<Rightarrow> TrackableDataTrie \<Rightarrow> TrackableDataTrie" where
  "SetDataTrie tr tdaw = tdaw\<lparr>td_tr := tr\<rparr>"

definition trimValue :: "bytes \<Rightarrow> nat \<Rightarrow> common_error + bytes" where
  "trimValue value tailLength =
     (let dataLength = int (length value) - int tailLength in
      if dataLength < 0 then Inl ErrNegativeValue else Inr (take (nat dataLength) value))"

definition RetrieveValue ::
  "nat \<Rightarrow> trie_env \<Rightarrow> bytes \<Rightarrow> TrackableDataTrie \<Rightarrow> TrackableDataTrie \<times> (common_error + bytes)"
where
  "RetrieveValue extra env key tdaw =
     (let tailLength = length key + length (td_identifier tdaw) in
      case map_of (td_dirtyData tdaw) key of
        Some value \<Rightarrow> (tdaw, trimValue value tailLength)
      | None \<Rightarrow>
        (case td_tr tdaw of
           None \<Rightarrow> (tdaw, Inl ErrNilTrie)
         | Some tr \<Rightarrow>
           (case trie_Get extra env key tr of
              (tr', Inl e) \<Rightarrow> (tdaw\<lparr>td_tr := Some tr'\<rparr>, Inl (TrieErr e))
            | (tr', Inr value) \<Rightarrow>
                (tdaw\<lparr>td_tr := Some tr'\<rparr>,
                 Inr (case trimValue (slice value) tailLength of Inl _ \<Rightarrow> [] | Inr v \<Rightarrow> v)))))"

definition SaveKeyValue :: "bytes \<Rightarrow> bytes \<Rightarrow> TrackableDataTrie \<Rightarrow> TrackableDataTrie \<times> (common_error + unit)" where
  "SaveKeyValue key value tdaw =
     (if length value > MaxLeafSize then (tdaw, Inl ErrLeafSizeTooBig)
      else
        let identifier = (if length value \<noteq> 0 then key @ td_identifier tdaw else []) in
        (tdaw\<lparr>td_dirtyData := AList.update key (value @ identifier) (td_dirtyData tdaw)\<rparr>, Inr ()))"

section \<open>Writing the cache and taking it back\<close>

text \<open>The loop of \<open>saveDataTrie\<close> over the cached changes, collecting the values they replace.\<close>

primrec saveDirty ::
  "(bytes \<Rightarrow> 's \<Rightarrow> 's \<times> ('e + bytes option)) \<Rightarrow> (bytes \<Rightarrow> bytes \<Rightarrow> 's \<Rightarrow> 's \<times> ('e + unit)) \<Rightarrow>
   (bytes \<times> bytes) list \<Rightarrow> (bytes \<times> bytes) list \<Rightarrow> 's \<Rightarrow> 's \<times> ('e + (bytes \<times> bytes) list)"
where
  "saveDirty get upd [] oldValues s = (s, Inr oldValues)"
| "saveDirty get upd (kv # kvs) oldValues s =
     (case get (fst kv) s of
        (s1, Inl e) \<Rightarrow> (s1, Inl e)
      | (s1, Inr val) \<Rightarrow>
        (case upd (fst kv) (snd kv) s1 of
           (s2, Inl e) \<Rightarrow> (s2, Inl e)
         | (s2, Inr _) \<Rightarrow> saveDirty get upd kvs (oldValues @ [(fst kv, slice val)]) s2))"

text \<open>The loop of \<open>journalEntryAccountDataTrieUpdates.Revert\<close>, over the entries of the map in the order it visits them.\<close>

primrec revertUpdates ::
  "(bytes \<Rightarrow> bytes \<Rightarrow> 's \<Rightarrow> 's \<times> ('e + unit)) \<Rightarrow> (bytes \<times> bytes) list \<Rightarrow> 's \<Rightarrow> 's \<times> ('e + unit)"
where
  "revertUpdates upd [] s = (s, Inr ())"
| "revertUpdates upd (kv # kvs) s =
     (case upd (fst kv) (snd kv) s of
        (s', Inl e) \<Rightarrow> (s', Inl e)
      | (s', Inr _) \<Rightarrow> revertUpdates upd kvs s')"

definition written :: "(bytes \<times> bytes) list \<Rightarrow> (bytes \<Rightarrow> bytes \<Rightarrow> bool) \<Rightarrow> bytes \<Rightarrow> bytes \<Rightarrow> bool" where
  "written kvs h k w \<longleftrightarrow> (case map_of kvs k of None \<Rightarrow> h k w | Some v \<Rightarrow> put_value v = Some w)"

text \<open>Two lists of the entries of one map: two orders in which an iteration may visit it.\<close>

definition same_map :: "(bytes \<times> bytes) list \<Rightarrow> (bytes \<times> bytes) list \<Rightarrow> bool" where
  "same_map xs ys \<longleftrightarrow> distinct (map fst xs) \<and> set xs = set ys"

lemma same_map_of: "same_map xs ys \<Longrightarrow> distinct (map fst ys) \<Longrightarrow> map_of xs = map_of ys"
  by (rule ext, rule option.expand) (auto simp: same_map_def map_of_eq_None_iff dest!: map_of_SomeD intro: map_of_is_SomeI)

context kv_store
begin

lemma get_obtain:
  assumes "okS s"
  obtains s' r where "getS k s = (s', Inr r)" "okS s'" "has s' = has s" "\<And>v. r = Some v \<longleftrightarrow> has s k v"
  using get_returns [OF assms, of k] get_keeps [OF assms, of k] that by (cases "getS k s") auto

lemma upd_obtain:
  assumes "okS s"
  obtains s' where "updS k v s = (s', Inr ())" "okS s'"
    and "\<And>k' w. has s' k' w \<longleftrightarrow> (if k' = k then put_value v = Some w else has s k' w)"
  using upd_returns [OF assms, of k v] upd_has [OF assms, of k v] that by (cases "updS k v s") auto

lemma saveDirty_ok:
  assumes "okS s" "distinct (map fst kvs)"
  shows "\<exists>s' new. saveDirty getS updS kvs old s = (s', Inr (old @ new)) \<and> okS s' \<and>
    has s' = written kvs (has s) \<and> map fst new = map fst kvs \<and>
    (\<forall>(k, v)\<in>set new. \<exists>r. v = slice r \<and> (\<forall>w. r = Some w \<longleftrightarrow> has s k w))"
  using assms
proof (induction kvs arbitrary: s old)
  case Nil
  then show ?case by (simp add: written_def fun_eq_iff)
next
  case (Cons kv kvs)
  obtain k v where kv: "kv = (k, v)" by fastforce
  obtain s1 r where s1: "getS k s = (s1, Inr r)" "okS s1" "has s1 = has s" "\<And>v. r = Some v \<longleftrightarrow> has s k v"
    using get_obtain [OF Cons.prems(1)] by metis
  obtain s2 where s2: "updS k v s1 = (s2, Inr ())" "okS s2"
      "\<And>k' w. has s2 k' w \<longleftrightarrow> (if k' = k then put_value v = Some w else has s k' w)"
    using upd_obtain [OF s1(2), of k v] s1(3) by metis
  have fresh: "k \<notin> fst ` set kvs" and dist: "distinct (map fst kvs)"
    using Cons.prems(2) by (auto simp: kv)
  obtain s' new where IH: "saveDirty getS updS kvs (old @ [(k, slice r)]) s2 = (s', Inr ((old @ [(k, slice r)]) @ new))"
      "okS s'" "has s' = written kvs (has s2)" "map fst new = map fst kvs"
      "\<forall>(k, v)\<in>set new. \<exists>r. v = slice r \<and> (\<forall>w. r = Some w \<longleftrightarrow> has s2 k w)"
    using Cons.IH [OF s2(2) dist] by blast
  have "map_of kvs k = None"
    using fresh by (simp add: map_of_eq_None_iff)
  then have "has s' = written (kv # kvs) (has s)"
    using IH(3) s2(3) by (auto simp: written_def kv fun_eq_iff split: option.splits)
  moreover have "\<forall>(k', v)\<in>set new. \<exists>r. v = slice r \<and> (\<forall>w. r = Some w \<longleftrightarrow> has s k' w)"
  proof clarify
    fix k' v'
    assume *: "(k', v') \<in> set new"
    then have "k' \<in> fst ` set kvs"
      using IH(4) by (metis fst_conv image_eqI set_map)
    with fresh have "k' \<noteq> k" by auto
    with IH(5) * s2(3) show "\<exists>r. v' = slice r \<and> (\<forall>w. r = Some w \<longleftrightarrow> has s k' w)" by fastforce
  qed
  ultimately have "saveDirty getS updS (kv # kvs) old s = (s', Inr (old @ (k, slice r) # new)) \<and> okS s' \<and>
    has s' = written (kv # kvs) (has s) \<and> map fst ((k, slice r) # new) = map fst (kv # kvs) \<and>
    (\<forall>(k, v)\<in>set ((k, slice r) # new). \<exists>r. v = slice r \<and> (\<forall>w. r = Some w \<longleftrightarrow> has s k w))"
    using IH(1,2,4) s1 s2 kv by auto
  then show ?case by blast
qed

lemma revertUpdates_ok:
  assumes "okS s" "distinct (map fst kvs)"
  shows "\<exists>s'. revertUpdates updS kvs s = (s', Inr ()) \<and> okS s' \<and> has s' = written kvs (has s)"
  using assms
proof (induction kvs arbitrary: s)
  case Nil
  then show ?case by (simp add: written_def fun_eq_iff)
next
  case (Cons kv kvs)
  obtain k v where kv: "kv = (k, v)" by fastforce
  obtain s2 where s2: "updS k v s = (s2, Inr ())" "okS s2"
      "\<And>k' w. has s2 k' w \<longleftrightarrow> (if k' = k then put_value v = Some w else has s k' w)"
    using upd_obtain [OF Cons.prems(1)] by metis
  have "map_of kvs k = None" and dist: "distinct (map fst kvs)"
    using Cons.prems(2) by (auto simp: kv map_of_eq_None_iff)
  moreover obtain s' where "revertUpdates updS kvs s2 = (s', Inr ())" "okS s'" "has s' = written kvs (has s2)"
    using Cons.IH [OF s2(2) dist] by blast
  ultimately show ?case
    using s2 kv by (auto simp: written_def fun_eq_iff split: option.splits)
qed

text \<open>
  Writing changes and then, in any order, the values they replaced gives back the content, if no value is empty.
\<close>

lemma save_then_revert:
  assumes "okS s" "distinct (map fst kvs)" "\<And>k. \<not> has s k []"
  obtains s1 old where "saveDirty getS updS kvs [] s = (s1, Inr old)"
    and "\<And>old'. same_map old' old \<Longrightarrow> \<exists>s2. revertUpdates updS old' s1 = (s2, Inr ()) \<and> okS s2 \<and> has s2 = has s"
proof -
  obtain s1 old where s1: "saveDirty getS updS kvs [] s = (s1, Inr old)" "okS s1"
      "has s1 = written kvs (has s)" "map fst old = map fst kvs"
      "\<forall>(k, v)\<in>set old. \<exists>r. v = slice r \<and> (\<forall>w. r = Some w \<longleftrightarrow> has s k w)"
    using saveDirty_ok [OF assms(1,2), of "[]"] by auto
  show ?thesis
  proof (rule that [OF s1(1)])
    fix old'
    assume same: "same_map old' old"
    have eq: "map_of old' = map_of old" using same_map_of [OF same] s1(4) assms(2) by simp
    obtain s2 where s2: "revertUpdates updS old' s1 = (s2, Inr ())" "okS s2" "has s2 = written old' (has s1)"
      using revertUpdates_ok [OF s1(2), of old'] same by (auto simp: same_map_def)
    have "written old' (has s1) k w \<longleftrightarrow> has s k w" for k w
    proof (cases "map_of old k")
      case None
      then have "map_of kvs k = None"
        using s1(4) by (metis map_of_eq_None_iff image_set)
      with None show ?thesis by (simp add: written_def s1(3) eq)
    next
      case (Some v)
      then obtain r where r: "v = slice r" "\<And>w. r = Some w \<longleftrightarrow> has s k w"
        using s1(5) map_of_SomeD by fastforce
      with Some assms(3) [of k] show ?thesis
        by (cases r) (auto simp: written_def slice_def put_value_def eq)
    qed
    then show "\<exists>s2. revertUpdates updS old' s1 = (s2, Inr ()) \<and> okS s2 \<and> has s2 = has s"
      using s2 by (auto simp: fun_eq_iff)
  qed
qed

end

section \<open>Properties\<close>

lemma trimValue_append: "trimValue (v @ k @ i) (length k + length i) = Inr v"
  by (simp add: trimValue_def)

lemma trimValue_zero: "trimValue v 0 = Inr v"
  by (simp add: trimValue_def)

lemma trimValue_empty:
  "trimValue [] (length k + length i) = (if k = [] \<and> i = [] then Inr [] else Inl ErrNegativeValue)"
  by (cases k; cases i) (auto simp: trimValue_def)

text \<open>
  C27: reading a key that was written since the last save returns the written value, and writing
  a key does not change what is read under another one. A key that was removed since the last save
  is not read as absent: the read fails with \<open>ErrNegativeValue\<close>, because the cached empty value has no
  tail to cut off.
\<close>

theorem RetrieveValue_after_SaveKeyValue:
  assumes "length value \<le> MaxLeafSize"
  shows "snd (SaveKeyValue key value tdaw) = Inr () \<and>
    snd (RetrieveValue extra env key (fst (SaveKeyValue key value tdaw))) =
      (if value = [] \<and> (key \<noteq> [] \<or> td_identifier tdaw \<noteq> []) then Inl ErrNegativeValue else Inr value) \<and>
    (key' \<noteq> key \<longrightarrow>
      snd (RetrieveValue extra env key' (fst (SaveKeyValue key value tdaw))) =
      snd (RetrieveValue extra env key' tdaw))"
  using assms
  by (auto simp: SaveKeyValue_def RetrieveValue_def Let_def update_conv trimValue_append trimValue_empty trimValue_zero
      split: option.splits prod.splits sum.splits)

theorem RetrieveValue_after_SaveKeyValue_witness:
  "snd (RetrieveValue 0 sample_env [1] (fst (SaveKeyValue [1] [5, 6] (NewTrackableDataTrie [9] None)))) = Inr [5, 6] \<and>
   snd (RetrieveValue 0 sample_env [1] (fst (SaveKeyValue [1] [] (NewTrackableDataTrie [9] None)))) = Inl ErrNegativeValue"
  using RetrieveValue_after_SaveKeyValue [of "[5, 6]" "[1]" "NewTrackableDataTrie [9] None" 0 sample_env]
    RetrieveValue_after_SaveKeyValue [of "[]" "[1]" "NewTrackableDataTrie [9] None" 0 sample_env]
  by (simp add: MaxLeafSize_def NewTrackableDataTrie_def)

text \<open>
  C16: saving cached changes to a data trie without empty values and then reverting the journal entry that the save
  created gives back the answer of every lookup, in whatever order the save iterates the cache and, independently, the
  revert iterates the replaced values.
\<close>

theorem saveDirty_revert:
  assumes "wf_trie env tr" and "distinct (map fst dirty)"
    and "\<And>k. snd (trie_Get extra env k tr) \<noteq> Inr (Some [])"
  shows "\<exists>tr1 old. saveDirty (trie_Get extra env) (trie_Update extra env) dirty [] tr = (tr1, Inr old) \<and>
    (\<forall>v. (key, v) \<in> set dirty \<longrightarrow> snd (trie_Get extra env key tr1) = Inr (put_value v)) \<and>
    (\<forall>old'. same_map old' old \<longrightarrow> (\<exists>tr2. revertUpdates (trie_Update extra env) old' tr1 = (tr2, Inr ()) \<and>
       snd (trie_Get extra env key tr2) = snd (trie_Get extra env key tr)))"
proof -
  have ne: "\<not> trie_has env tr k []" for k
    using assms(3) [of k] pmt.get_value [OF assms(1), of k "Some []" extra]
      pmt.get_returns [OF assms(1), of extra k] by force
  obtain tr1 old where tr: "saveDirty (trie_Get extra env) (trie_Update extra env) dirty [] tr = (tr1, Inr old)"
    and revert: "\<And>old'. same_map old' old \<Longrightarrow>
      \<exists>tr2. revertUpdates (trie_Update extra env) old' tr1 = (tr2, Inr ()) \<and> wf_trie env tr2 \<and> trie_has env tr2 = trie_has env tr"
    using pmt.save_then_revert [OF assms(1,2) ne] by metis
  then have "wf_trie env tr1" "trie_has env tr1 = written dirty (trie_has env tr)"
    using pmt.saveDirty_ok [OF assms(1,2), of extra "[]"] by auto
  then have "snd (trie_Get extra env key tr1) = Inr (put_value v)" if "(key, v) \<in> set dirty" for v
    using that assms(2) by (intro pmt.get_value) (auto simp: written_def)
  moreover have "\<exists>tr2. revertUpdates (trie_Update extra env) old' tr1 = (tr2, Inr ()) \<and>
      snd (trie_Get extra env key tr2) = snd (trie_Get extra env key tr)" if "same_map old' old" for old'
  proof -
    from revert [OF that] obtain tr2 where "revertUpdates (trie_Update extra env) old' tr1 = (tr2, Inr ())"
      "wf_trie env tr2" "trie_has env tr2 = trie_has env tr" by blast
    moreover from this have "snd (trie_Get extra env key tr2) = snd (trie_Get extra env key tr)"
      by (intro pmt.get_eqI [OF _ assms(1)]) simp_all
    ultimately show ?thesis by blast
  qed
  ultimately show ?thesis using tr by blast
qed

definition one_key_trie :: patriciaMerkleTrie where
  "one_key_trie = fst (trie_Update 0 sample_env [2] [7] NewTrie)"

lemma one_key_trie:
  "wf_trie sample_env one_key_trie"
  "snd (trie_Get 0 sample_env k one_key_trie) = (if k = [2] then Inr (Some [7]) else Inr None)"
proof -
  have wf: "wf_trie sample_env NewTrie"
    by (simp add: wf_trie_def NewTrie_def)
  show "wf_trie sample_env one_key_trie"
    using pmt.upd_returns [OF wf] by (simp add: one_key_trie_def)
  show "snd (trie_Get 0 sample_env k one_key_trie) = (if k = [2] then Inr (Some [7]) else Inr None)"
    using pmt.get_after_upd [OF wf, of 0 k "[2]" "[7]"]
    by (simp add: one_key_trie_def put_value_def trie_Get_def NewTrie_def)
qed

text \<open>Two changes, reverted in the order of the save and in the other one.\<close>

theorem saveDirty_revert_witness:
  "\<exists>tr1 a b tr2 tr3. saveDirty (trie_Get 0 sample_env) (trie_Update 0 sample_env) [([1], [5]), ([2], [])] [] one_key_trie
      = (tr1, Inr [a, b]) \<and> snd (trie_Get 0 sample_env [2] tr1) = Inr None \<and>
    revertUpdates (trie_Update 0 sample_env) [a, b] tr1 = (tr2, Inr ()) \<and>
    snd (trie_Get 0 sample_env [2] tr2) = Inr (Some [7]) \<and>
    revertUpdates (trie_Update 0 sample_env) [b, a] tr1 = (tr3, Inr ()) \<and>
    snd (trie_Get 0 sample_env [2] tr3) = Inr (Some [7])"
proof -
  let ?dirty = "[([1], [5]), ([2], [])] :: (bytes \<times> bytes) list"
  have "snd (trie_Get 0 sample_env k one_key_trie) \<noteq> Inr (Some [])" for k
    by (simp add: one_key_trie(2))
  from saveDirty_revert [OF one_key_trie(1) _ this, of ?dirty "[2]"] obtain tr1 old where
    run: "saveDirty (trie_Get 0 sample_env) (trie_Update 0 sample_env) ?dirty [] one_key_trie = (tr1, Inr old)"
      "snd (trie_Get 0 sample_env [2] tr1) = Inr None" and revert: "\<And>old'. same_map old' old \<Longrightarrow>
        \<exists>tr2. revertUpdates (trie_Update 0 sample_env) old' tr1 = (tr2, Inr ()) \<and> snd (trie_Get 0 sample_env [2] tr2) = Inr (Some [7])"
    by (auto simp: one_key_trie(2) put_value_def simp del: saveDirty.simps revertUpdates.simps)
  have "map fst old = map fst ?dirty"
    using pmt.saveDirty_ok [OF one_key_trie(1), of ?dirty 0 "[]"] run(1) by (auto simp del: saveDirty.simps)
  then obtain a b where old: "old = [a, b]" "fst a = [1]" "fst b = [2]" by (cases old; cases "tl old") auto
  then have "same_map [a, b] old" "same_map [b, a] old" by (auto simp: same_map_def)
  with revert run old(1) show ?thesis by blast
qed

end
