(* ===== verification/KappsData.thy ===== *)
theory KappsData
  imports GoPrelude
begin

text \<open>
  The data the contract handlers share: the protobuf messages of \<open>kapps/*.pb.go\<close> that accounts, assets and
  staking pools are stored as, and the fork gates of \<open>core/interface.go\<close>. A Go map is an association list in the
  order one iteration visits it, a map field that may be nil is an option.
\<close>

record StakeSegment =
  ss_StakedEpoch :: int
  ss_ThroughEpoch :: int
  ss_Value :: int

record UserBucket =
  ub_StakedAt :: int
  ub_StakedEpoch :: int
  ub_UnstakedEpoch :: int
  ub_Value :: int
  ub_Delegation :: "bytes option"
  ub_History :: "StakeSegment list"

record LastClaim =
  lc_Timestamp :: int
  lc_Epoch :: int

record UserKDA =
  uk_Balance :: int
  uk_FrozenBalance :: int
  uk_LastClaim :: "LastClaim option"
  uk_Buckets :: "(bytes \<times> UserBucket) list option"
  uk_MIME :: bytes
  uk_Metadata :: bytes

record APRData =
  ap_Timestamp :: int
  ap_Epoch :: int
  ap_Value :: int

record KDAFPRData =
  kf_TotalAmount :: int
  kf_TotalClaimed :: int

record FPRData =
  fp_TotalAmount :: int
  fp_TotalStaked :: int
  fp_Epoch :: int
  fp_TotalClaimed :: int
  fp_KDAS :: "(bytes \<times> KDAFPRData) list"

datatype InterestType = APRI | FPRI | OtherInterest

record StakingData =
  sd_InterestType :: InterestType
  sd_APR :: "APRData list"
  sd_FPR :: "FPRData list"
  sd_CurrentFPRAmount :: int
  sd_TotalStaked :: int
  sd_MinEpochsToClaim :: int
  sd_MinEpochsToUnstake :: int
  sd_MinEpochsToWithdraw :: int

text \<open>The fields of an asset's data the reward code reads and writes.\<close>

record KDAData =
  kd_CirculatingSupply :: int
  kd_MaxSupply :: int
  kd_MintedValue :: int

record FreezeOptions =
  fo_BlockEpoch :: int
  fo_BlockTime :: int
  fo_NewStakingFlow :: bool
  fo_KeepStakeHistory :: bool

record ForkController =
  ProcessorFlowITOPrice :: bool
  ClaimKFI :: bool
  FixStakingBuckets :: bool
  KdaFpr :: bool
  BigBucketsCompute :: bool
  FPRComputeAndKdaFeeFlow :: bool
  FixDelegationSameEpoch :: bool
  EnableSmartContracts :: bool
  FixAuditChanges :: bool
  EpochRewardsV2 :: bool
  FixAuditChangesV2 :: bool
  FixMarketBuyOverflow :: bool
  FixAuditChangesV3 :: bool
  FixAuditChangesV4 :: bool
  FixAuditChangesV5 :: bool
  FixAuditChangesV5InEpoch :: "int \<Rightarrow> bool"
  FixAuditChangesV6 :: bool
  FixAuditChangesV6InEpoch :: "int \<Rightarrow> bool"
  FixAuditChangesV7 :: bool
  FixAuditChangesV7InEpoch :: "int \<Rightarrow> bool"

text \<open>The gates after every fork.\<close>

definition all_forks :: ForkController where
  "all_forks = \<lparr>ProcessorFlowITOPrice = True, ClaimKFI = True, FixStakingBuckets = True, KdaFpr = True,
     BigBucketsCompute = True, FPRComputeAndKdaFeeFlow = True, FixDelegationSameEpoch = True,
     EnableSmartContracts = True, FixAuditChanges = True, EpochRewardsV2 = True, FixAuditChangesV2 = True,
     FixMarketBuyOverflow = True, FixAuditChangesV3 = True, FixAuditChangesV4 = True,
     FixAuditChangesV5 = True, FixAuditChangesV5InEpoch = (\<lambda>_. True),
     FixAuditChangesV6 = True, FixAuditChangesV6InEpoch = (\<lambda>_. True),
     FixAuditChangesV7 = True, FixAuditChangesV7InEpoch = (\<lambda>_. True)\<rparr>"

end
