(* ===== verification/Staking.thy ===== *)
theory Staking
  imports KappsData SafeConverter KdaUtils GoFloat "HOL-Library.AList"
begin

text \<open>
  Staking: the buckets of a user's asset record and the rewards they earn (\<open>data/state/userAccount.go\<close>,
  on the messages of \<open>KappsData\<close>). The methods are written on the asset
  record and the staking data they mutate.

  A Go map is an association list with distinct keys whose order is the iteration order; a nil map is
  \<^term>\<open>None\<close>. The fork controller is the record of the flags the code asks for. \<open>castF64\<close> is Go's
  conversion of a float64 to int64 where the language leaves the result to the machine: outside the
  range of int64, for infinities and for not-a-number.
\<close>

section \<open>Data\<close>

datatype f64 = Fin rat | Infinite bool | NaN

definition DefaultUnstakedEpoch :: int where
  "DefaultUnstakedEpoch = MaxUint32"

definition OneYearTimestamp :: int where
  "OneYearTimestamp = 31556926"

definition HundredPercent :: int where
  "HundredPercent = 10000"

definition buckets :: "UserKDA \<Rightarrow> (bytes \<times> UserBucket) list" where
  "buckets userKDA = (case uk_Buckets userKDA of None \<Rightarrow> [] | Some bs \<Rightarrow> bs)"

definition lastClaimEpoch :: "UserKDA \<Rightarrow> int" where
  "lastClaimEpoch userKDA = (case uk_LastClaim userKDA of None \<Rightarrow> 0 | Some lc \<Rightarrow> lc_Epoch lc)"

section \<open>Freezing\<close>

definition stakeHistoryAfterFreeze :: "UserBucket \<Rightarrow> int \<Rightarrow> int \<Rightarrow> StakeSegment list" where
  "stakeHistoryAfterFreeze bucket epoch lastClaim =
     (let history = filter (\<lambda>segment. ss_ThroughEpoch segment > lastClaim) (ub_History bucket);
          through = (if ub_UnstakedEpoch bucket \<noteq> DefaultUnstakedEpoch then ub_UnstakedEpoch bucket else epoch) in
      if ub_StakedEpoch bucket < through \<and> lastClaim < through then
        history @ [\<lparr>ss_StakedEpoch = ub_StakedEpoch bucket, ss_ThroughEpoch = through, ss_Value = ub_Value bucket\<rparr>]
      else history)"

definition parsedBucketID :: "bytes \<Rightarrow> bytes \<Rightarrow> bytes" where
  "parsedBucketID assetID bucketID =
     (if assetID \<noteq> KLVIdentifier \<and> assetID \<noteq> KFIIdentifier then assetID else hexEncode bucketID)"

definition Freeze ::
  "bytes \<Rightarrow> bytes \<Rightarrow> int \<Rightarrow> StakingData \<Rightarrow> UserKDA \<Rightarrow> FreezeOptions \<Rightarrow> common_error + StakingData \<times> UserKDA"
where
  "Freeze assetID bucketID value staking userKDA opts =
     (if value \<le> 0 then Inl ErrInvalidValue
      else
        let bs = buckets userKDA;
            bid = parsedBucketID assetID bucketID;
            old = map_of bs bid;
            oldValue = (case old of None \<Rightarrow> 0 | Some bucket \<Rightarrow> ub_Value bucket);
            toAdd = (case old of
                None \<Rightarrow> value
              | Some bucket \<Rightarrow>
                  if fo_NewStakingFlow opts \<and> ub_UnstakedEpoch bucket \<noteq> DefaultUnstakedEpoch
                  then i64 (value + oldValue) else value);
            history = (case old of
                None \<Rightarrow> []
              | Some bucket \<Rightarrow>
                  if fo_KeepStakeHistory opts
                  then stakeHistoryAfterFreeze bucket (fo_BlockEpoch opts) (lastClaimEpoch userKDA) else []);
            newBucket = \<lparr>ub_StakedAt = fo_BlockTime opts, ub_StakedEpoch = fo_BlockEpoch opts,
              ub_UnstakedEpoch = DefaultUnstakedEpoch, ub_Value = i64 (oldValue + value),
              ub_Delegation = None, ub_History = history\<rparr> in
        Inr (staking\<lparr>sd_TotalStaked := i64 (sd_TotalStaked staking + toAdd)\<rparr>,
             userKDA\<lparr>uk_Buckets := Some (AList.update bid newBucket bs),
                     uk_FrozenBalance := i64 (uk_FrozenBalance userKDA + toAdd)\<rparr>))"

definition Unfreeze ::
  "bytes \<Rightarrow> bytes \<Rightarrow> int \<Rightarrow> StakingData \<Rightarrow> UserKDA \<Rightarrow> bool \<Rightarrow>
   common_error + StakingData \<times> UserKDA \<times> bytes option \<times> int"
where
  "Unfreeze assetID bucketID blockEpoch staking userKDA newStakingFlow =
     (if uk_Buckets userKDA = None then Inl ErrNotStaked
      else
        let bs = buckets userKDA; bid = parsedBucketID assetID bucketID in
        case map_of bs bid of
          None \<Rightarrow> Inl ErrNotStaked
        | Some bucket \<Rightarrow>
          if ub_UnstakedEpoch bucket \<noteq> DefaultUnstakedEpoch \<or>
             u32 (blockEpoch - ub_StakedEpoch bucket) < sd_MinEpochsToUnstake staking
          then Inl ErrUnstakeNotAvailable
          else
            let bs' = AList.update bid (bucket\<lparr>ub_UnstakedEpoch := blockEpoch\<rparr>) bs;
                amount = (if newStakingFlow \<and> sd_InterestType staking = APRI
                          then uk_FrozenBalance userKDA else ub_Value bucket);
                frozen = (if newStakingFlow \<and> sd_InterestType staking = APRI
                          then 0 else i64 (uk_FrozenBalance userKDA - ub_Value bucket)) in
            Inr (staking\<lparr>sd_TotalStaked := i64 (sd_TotalStaked staking - amount)\<rparr>,
                 userKDA\<lparr>uk_Buckets := Some bs', uk_FrozenBalance := frozen\<rparr>,
                 ub_Delegation bucket, ub_Value bucket))"

definition Delegate :: "bytes \<Rightarrow> bytes option \<Rightarrow> UserKDA \<Rightarrow> common_error + UserKDA \<times> int" where
  "Delegate bucketID delegation userKDA =
     (if uk_Buckets userKDA = None then Inl ErrNotStaked
      else
        let bid = hexEncode bucketID in
        case map_of (buckets userKDA) bid of
          None \<Rightarrow> Inl ErrNotStaked
        | Some bucket \<Rightarrow>
            Inr (userKDA\<lparr>uk_Buckets := Some (AList.update bid (bucket\<lparr>ub_Delegation := delegation\<rparr>) (buckets userKDA))\<rparr>,
                 ub_Value bucket))"

definition Undelegate :: "bytes \<Rightarrow> UserKDA \<Rightarrow> common_error + UserKDA \<times> bytes \<times> int" where
  "Undelegate bucketID userKDA =
     (if uk_Buckets userKDA = None then Inl ErrNotStaked
      else
        let bid = hexEncode bucketID in
        case map_of (buckets userKDA) bid of
          None \<Rightarrow> Inl ErrNotStaked
        | Some bucket \<Rightarrow>
          (case ub_Delegation bucket of
             None \<Rightarrow> Inl ErrUndelegatingNotAvailable
           | Some delegation \<Rightarrow>
               Inr (userKDA\<lparr>uk_Buckets := Some (AList.update bid (bucket\<lparr>ub_Delegation := None\<rparr>) (buckets userKDA))\<rparr>,
                    delegation, ub_Value bucket)))"

section \<open>Withdrawing\<close>

definition withdrawable :: "int \<Rightarrow> int \<Rightarrow> UserBucket \<Rightarrow> bool" where
  "withdrawable epoch minEpochsToWithdraw bucket \<longleftrightarrow> epoch \<ge> ub_UnstakedEpoch bucket + minEpochsToWithdraw"

text \<open>The loop of \<open>Withdraw\<close>: the amount taken out and the buckets that stay.\<close>

fun withdrawBuckets ::
  "int \<Rightarrow> int \<Rightarrow> (bytes \<times> UserBucket) list \<Rightarrow> int \<Rightarrow> int \<times> (bytes \<times> UserBucket) list"
where
  "withdrawBuckets epoch minEpochs [] withdraw = (withdraw, [])"
| "withdrawBuckets epoch minEpochs ((key, bucket) # bs) withdraw =
     (if withdrawable epoch minEpochs bucket
      then withdrawBuckets epoch minEpochs bs (i64 (withdraw + ub_Value bucket))
      else case withdrawBuckets epoch minEpochs bs withdraw of
        (w, rest) \<Rightarrow> (w, (key, bucket) # rest))"

section \<open>Rewards at a yearly rate\<close>

definition computeAPR :: "ForkController \<Rightarrow> int \<Rightarrow> int \<Rightarrow> int \<Rightarrow> int \<Rightarrow> common_error + int" where
  "computeAPR fc initTime endTime amount currAPR =
     (if \<not> BigBucketsCompute fc then
        Inr (quotI (truncR (round53 (round53 (of_int (i64 (i64 (i64 (endTime - initTime) * amount) * currAPR)))
                 / of_int OneYearTimestamp))) HundredPercent)
      else
        let v = round53 (of_int (i64 (endTime - initTime)));
            v = round53 (v * round53 (of_int amount));
            v = round53 (v * round53 (of_int currAPR));
            v = round53 (v / of_int HundredPercent);
            v = round53 (v / of_int OneYearTimestamp) in
        if FixAuditChangesV6 fc \<and> v \<ge> 9223372036854775808 then Inl ErrInt64Overflow
        else Inr (bigFloatInt64 v))"

type_synonym gains = "bytes \<rightharpoonup> int"

definition gainAt :: "gains \<Rightarrow> bytes \<Rightarrow> int" where
  "gainAt g key = (case g key of None \<Rightarrow> 0 | Some v \<Rightarrow> v)"

text \<open>The accumulator of \<open>aprGains\<close>: its map and its first error.\<close>

definition aprGains_add ::
  "ForkController \<Rightarrow> bytes \<Rightarrow> int \<Rightarrow> int \<Rightarrow> int \<Rightarrow> int \<Rightarrow> gains \<times> common_error option \<Rightarrow> gains \<times> common_error option"
where
  "aprGains_add fc key initTime endTime amount currAPR g =
     (case g of
        (values, Some err) \<Rightarrow> (values, Some err)
      | (values, None) \<Rightarrow>
        (case computeAPR fc initTime endTime amount currAPR of
           Inl e \<Rightarrow> (values, Some e)
         | Inr gain \<Rightarrow>
           if \<not> FixAuditChangesV6 fc then (values(key \<mapsto> i64 (gainAt values key + gain)), None)
           else if gain < 0 then (values, Some ErrNegativeValue)
           else
             (case SafeAddI64 (gainAt values key) (ArgInt64 gain) of
                Inl e \<Rightarrow> (values(key \<mapsto> 0), Some e)
              | Inr v \<Rightarrow> (values(key \<mapsto> v), None))))"

definition aprGains_result :: "gains \<times> common_error option \<Rightarrow> common_error + gains option" where
  "aprGains_result g = (case g of (values, Some err) \<Rightarrow> Inl err | (values, None) \<Rightarrow> Inr (Some values))"

fun aprLoop ::
  "ForkController \<Rightarrow> bytes \<Rightarrow> int \<Rightarrow> int \<Rightarrow> APRData list \<Rightarrow> int \<Rightarrow> int \<Rightarrow> gains \<times> common_error option \<Rightarrow>
   int \<times> int \<times> gains \<times> common_error option"
where
  "aprLoop fc key blockTime amount [] lastClaim currAPR g = (lastClaim, currAPR, g)"
| "aprLoop fc key blockTime amount (apr # aprs) lastClaim currAPR g =
     (if blockTime \<le> ap_Timestamp apr then (lastClaim, currAPR, g)
      else if ap_Timestamp apr > lastClaim then
        aprLoop fc key blockTime amount aprs (ap_Timestamp apr) (ap_Value apr)
          (aprGains_add fc key lastClaim (ap_Timestamp apr) amount currAPR g)
      else aprLoop fc key blockTime amount aprs lastClaim (ap_Value apr) g)"

definition computeClaimAPR ::
  "ForkController \<Rightarrow> bytes \<Rightarrow> int \<Rightarrow> UserKDA \<Rightarrow> StakingData \<Rightarrow> common_error + gains option"
where
  "computeClaimAPR fc assetID blockTime userKDA staking =
     (case uk_LastClaim userKDA of
        None \<Rightarrow> Inr None
      | Some lc \<Rightarrow>
        if lc_Timestamp lc = 0 then Inr None
        else
          (case map_of (buckets userKDA) assetID of
             None \<Rightarrow> Inr None
           | Some bucket \<Rightarrow>
             if ub_UnstakedEpoch bucket \<noteq> DefaultUnstakedEpoch then Inr None
             else if ub_Value bucket = 0 then Inr None
             else
               (case aprLoop fc assetID blockTime (ub_Value bucket) (sd_APR staking) (lc_Timestamp lc) 0 (Map.empty, None) of
                  (lastClaim, currAPR, g) \<Rightarrow>
                    aprGains_result
                      (if currAPR > 0
                       then aprGains_add fc assetID lastClaim blockTime (ub_Value bucket) currAPR g else g))))"

definition isAPRStakingWithV6 :: "StakingData \<Rightarrow> ForkController \<Rightarrow> bool" where
  "isAPRStakingWithV6 staking fc \<longleftrightarrow> FixAuditChangesV6 fc \<and> sd_InterestType staking = APRI"

definition gainOf :: "common_error + gains option \<Rightarrow> bytes \<Rightarrow> int" where
  "gainOf r key = (case r of Inr (Some g) \<Rightarrow> gainAt g key | _ \<Rightarrow> 0)"

definition APRGainDropReason ::
  "ForkController \<Rightarrow> StakingData \<Rightarrow> KDAData \<Rightarrow> bytes \<Rightarrow> common_error + gains option \<Rightarrow> common_error option"
where
  "APRGainDropReason fc staking kda assetID computed =
     (if \<not> isAPRStakingWithV6 staking fc then None
      else if computed = Inl ErrInt64Overflow then Some ErrInt64Overflow
      else
        let gain = gainOf computed assetID in
        if (case computed of Inl _ \<Rightarrow> True | Inr _ \<Rightarrow> False) \<or> gain \<le> 0 then None
        else if kd_CirculatingSupply kda < 0 then Some ErrNegativeCirculatingSupply
        else if kd_MaxSupply kda > 0 \<and> gain > i64 (kd_MaxSupply kda - kd_CirculatingSupply kda) then Some ErrMaxSupplyExceeded
        else (case SafeAddI64 (kd_CirculatingSupply kda) (ArgInt64 gain) of Inl e \<Rightarrow> Some e | Inr _ \<Rightarrow> None))"

definition addAPRGainToSupply :: "KDAData \<Rightarrow> int \<Rightarrow> KDAData" where
  "addAPRGainToSupply kda gain =
     (let kda' = kda\<lparr>kd_CirculatingSupply := i64 (kd_CirculatingSupply kda + gain)\<rparr> in
      if kd_MintedValue kda > i64 (MaxInt64 - gain) then kda'\<lparr>kd_MintedValue := MaxInt64\<rparr>
      else kda'\<lparr>kd_MintedValue := i64 (kd_MintedValue kda + gain)\<rparr>)"

definition claimAPRStaking ::
  "ForkController \<Rightarrow> bytes \<Rightarrow> int \<Rightarrow> UserKDA \<Rightarrow> StakingData \<Rightarrow> KDAData \<Rightarrow> common_error + KDAData \<times> gains option"
where
  "claimAPRStaking fc assetID blockTime userKDA staking kda =
     (let computed = computeClaimAPR fc assetID blockTime userKDA staking in
      case APRGainDropReason fc staking kda assetID computed of
        Some reason \<Rightarrow> Inl (ErrAPRGainDropped reason)
      | None \<Rightarrow>
        (case computed of
           Inl e \<Rightarrow> Inl e
         | Inr g \<Rightarrow> Inr (addAPRGainToSupply kda (gainOf computed assetID), g)))"

section \<open>Rewards from distributed pools\<close>

definition bucketStakeAt :: "ForkController \<Rightarrow> UserBucket \<Rightarrow> int \<Rightarrow> int option" where
  "bucketStakeAt fc bucket fprEpoch =
     (if ub_StakedEpoch bucket < fprEpoch then Some (ub_Value bucket)
      else if \<not> FixAuditChangesV5 fc then None
      else map_option ss_Value
        (find (\<lambda>segment. ss_StakedEpoch segment < fprEpoch \<and> fprEpoch \<le> ss_ThroughEpoch segment) (ub_History bucket)))"

definition bucketEligibleForFPR :: "ForkController \<Rightarrow> UserBucket \<Rightarrow> int \<Rightarrow> bool" where
  "bucketEligibleForFPR fc bucket fprEpoch =
     (if ub_UnstakedEpoch bucket = DefaultUnstakedEpoch then True
      else if FixAuditChangesV3 fc then fprEpoch \<le> ub_UnstakedEpoch bucket
      else \<not> FixStakingBuckets fc)"

definition f64_div :: "int \<Rightarrow> int \<Rightarrow> f64" where
  "f64_div a b =
     (if b = 0 then (if a = 0 then NaN else Infinite (a > 0))
      else Fin (round53 (round53 (of_int a) / round53 (of_int b))))"

definition f64_mul :: "f64 \<Rightarrow> int \<Rightarrow> f64" where
  "f64_mul x b =
     (case x of
        Fin r \<Rightarrow> Fin (round53 (r * round53 (of_int b)))
      | Infinite pos \<Rightarrow> if b = 0 then NaN else Infinite (pos = (b > 0))
      | NaN \<Rightarrow> NaN)"

definition f64_to_int64 :: "(f64 \<Rightarrow> int) \<Rightarrow> f64 \<Rightarrow> int" where
  "f64_to_int64 castF64 x =
     (case x of
        Fin r \<Rightarrow> if is_i64 (truncR r) then truncR r else castF64 x
      | _ \<Rightarrow> castF64 x)"

definition calculateFPRAmount :: "(f64 \<Rightarrow> int) \<Rightarrow> ForkController \<Rightarrow> int \<Rightarrow> int \<Rightarrow> int \<Rightarrow> int \<Rightarrow> int" where
  "calculateFPRAmount castF64 fc totalAmount totalStaked bucketValue totalClaimed =
     (if \<not> BigBucketsCompute fc then f64_to_int64 castF64 (f64_mul (f64_div totalAmount totalStaked) bucketValue)
      else if totalAmount \<le> 0 \<or> totalStaked \<le> 0 then 0
      else
        let v = round53 (of_int totalAmount);
            v = round53 (v / round53 (of_int totalStaked));
            v = round53 (v * round53 (of_int bucketValue));
            intAmount = bigFloatInt64 v;
            intAmount = (if i64 (totalClaimed + intAmount) > totalAmount then i64 (totalAmount - totalClaimed) else intAmount) in
        if FPRComputeAndKdaFeeFlow fc \<and> intAmount < 0 then 0 else intAmount)"

text \<open>The loop over the other assets of a pool.\<close>

fun accrueKDAS ::
  "(f64 \<Rightarrow> int) \<Rightarrow> ForkController \<Rightarrow> int \<Rightarrow> int \<Rightarrow> (bytes \<times> KDAFPRData) list \<Rightarrow> gains \<Rightarrow>
   gains \<times> (bytes \<times> KDAFPRData) list"
where
  "accrueKDAS castF64 fc totalStaked stakedValue [] gains = (gains, [])"
| "accrueKDAS castF64 fc totalStaked stakedValue ((key, d) # kdas) gains =
     (let intAmount = calculateFPRAmount castF64 fc (kf_TotalAmount d) totalStaked stakedValue (kf_TotalClaimed d);
          d' = d\<lparr>kf_TotalClaimed := i64 (kf_TotalClaimed d + intAmount)\<rparr> in
      case accrueKDAS castF64 fc totalStaked stakedValue kdas (gains(key \<mapsto> i64 (gainAt gains key + intAmount))) of
        (gains', rest) \<Rightarrow> (gains', (key, d') # rest))"

definition accrueBucketFPR ::
  "(f64 \<Rightarrow> int) \<Rightarrow> ForkController \<Rightarrow> UserBucket \<Rightarrow> gains \<times> FPRData \<Rightarrow> common_error + gains \<times> FPRData"
where
  "accrueBucketFPR castF64 fc bucket st =
     (case st of (gains, fpr) \<Rightarrow>
        (case bucketStakeAt fc bucket (fp_Epoch fpr) of
           None \<Rightarrow> Inr (gains, fpr)
         | Some stakedValue \<Rightarrow>
           if \<not> BigBucketsCompute fc \<and> stakedValue > fp_TotalStaked fpr then Inl ErrInconsistentStakingData
           else if \<not> bucketEligibleForFPR fc bucket (fp_Epoch fpr) then Inr (gains, fpr)
           else
             let kdaID = (if \<not> ClaimKFI fc then KFIIdentifier else KLVIdentifier);
                 intAmount = calculateFPRAmount castF64 fc (fp_TotalAmount fpr) (fp_TotalStaked fpr) stakedValue (fp_TotalClaimed fpr);
                 (gains1, fpr1) =
                   (if fp_TotalAmount fpr > 0
                    then (gains(kdaID \<mapsto> i64 (gainAt gains kdaID + intAmount)),
                          fpr\<lparr>fp_TotalClaimed := i64 (fp_TotalClaimed fpr + intAmount)\<rparr>)
                    else (gains, fpr)) in
             (case accrueKDAS castF64 fc (fp_TotalStaked fpr1) stakedValue (fp_KDAS fpr1) gains1 of
                (gains2, kdas) \<Rightarrow> Inr (gains2, fpr1\<lparr>fp_KDAS := kdas\<rparr>))))"

fun accrueBuckets ::
  "(f64 \<Rightarrow> int) \<Rightarrow> ForkController \<Rightarrow> UserBucket list \<Rightarrow> gains \<times> FPRData \<Rightarrow> common_error + gains \<times> FPRData"
where
  "accrueBuckets castF64 fc [] st = Inr st"
| "accrueBuckets castF64 fc (b # bs) st = bindE (accrueBucketFPR castF64 fc b st) (accrueBuckets castF64 fc bs)"

fun accruePools ::
  "(f64 \<Rightarrow> int) \<Rightarrow> ForkController \<Rightarrow> int \<Rightarrow> int \<Rightarrow> UserBucket list \<Rightarrow> FPRData list \<Rightarrow> gains \<Rightarrow>
   common_error + gains \<times> FPRData list"
where
  "accruePools castF64 fc lastClaim blockEpoch bs [] gains = Inr (gains, [])"
| "accruePools castF64 fc lastClaim blockEpoch bs (fpr # fprs) gains =
     (if fp_Epoch fpr \<le> lastClaim \<or> fp_Epoch fpr > blockEpoch
      then bindE (accruePools castF64 fc lastClaim blockEpoch bs fprs gains) (\<lambda>(g, rest). Inr (g, fpr # rest))
      else bindE (accrueBuckets castF64 fc bs (gains, fpr)) (\<lambda>(g, fpr').
        bindE (accruePools castF64 fc lastClaim blockEpoch bs fprs g) (\<lambda>(g', rest). Inr (g', fpr' # rest))))"

definition computeClaimFPR ::
  "(f64 \<Rightarrow> int) \<Rightarrow> ForkController \<Rightarrow> int \<Rightarrow> UserKDA \<Rightarrow> StakingData \<Rightarrow> common_error + StakingData \<times> gains option"
where
  "computeClaimFPR castF64 fc blockEpoch userKDA staking =
     (if uk_Buckets userKDA = None \<or> uk_LastClaim userKDA = None then Inr (staking, None)
      else
        let lastClaim = lastClaimEpoch userKDA in
        if u32 (blockEpoch - lastClaim) < sd_MinEpochsToClaim staking then Inl ErrClaimNotAvailable
        else bindE (accruePools castF64 fc lastClaim blockEpoch (map snd (buckets userKDA)) (sd_FPR staking) Map.empty)
          (\<lambda>(gains, fprs). Inr (staking\<lparr>sd_FPR := fprs\<rparr>, Some gains)))"

definition ComputeAvailableClaim ::
  "(f64 \<Rightarrow> int) \<Rightarrow> ForkController \<Rightarrow> bytes \<Rightarrow> int \<Rightarrow> int \<Rightarrow> UserKDA \<Rightarrow> StakingData \<Rightarrow> common_error + StakingData \<times> gains option"
where
  "ComputeAvailableClaim castF64 fc assetID epoch blockTime userKDA staking =
     (case sd_InterestType staking of
        APRI \<Rightarrow> bindE (computeClaimAPR fc assetID blockTime userKDA staking) (\<lambda>g. Inr (staking, g))
      | FPRI \<Rightarrow> computeClaimFPR castF64 fc epoch userKDA staking
      | OtherInterest \<Rightarrow> Inl ErrInvalidStakeType)"

end
