(* ===== verification/StakingProps.thy ===== *)
theory StakingProps
  imports Staking "HOL-Library.Multiset"
begin

text \<open>
  Properties of staking: topping up a stake keeps the rewards already earned, the frozen balance is
  the sum of the live buckets, withdrawing conserves value, rewards never exceed a pool or the
  supply of the asset, and no result depends on the iteration order of Go's maps.
\<close>

section \<open>Stake history\<close>

text \<open>The stake for which a bucket is paid from the pool of an epoch, if it is.\<close>

definition payable :: "ForkController \<Rightarrow> UserBucket \<Rightarrow> int \<Rightarrow> int option" where
  "payable fc bucket e = (if bucketEligibleForFPR fc bucket e then bucketStakeAt fc bucket e else None)"

text \<open>A bucket's history lies before its current stake, which was unfrozen, if at all, later.\<close>

definition bucket_ok :: "int \<Rightarrow> UserBucket \<Rightarrow> bool" where
  "bucket_ok now b \<longleftrightarrow>
     (\<forall>s\<in>set (ub_History b). ss_ThroughEpoch s \<le> ub_StakedEpoch b) \<and> ub_StakedEpoch b \<le> now \<and>
     (ub_UnstakedEpoch b \<noteq> DefaultUnstakedEpoch \<longrightarrow> ub_StakedEpoch b \<le> ub_UnstakedEpoch b \<and> ub_UnstakedEpoch b \<le> now)"

lemma find_filter:
  "(\<And>x. P x \<Longrightarrow> Q x) \<Longrightarrow> find P (filter Q xs) = find P xs"
  by (induction xs) auto

lemma find_append: "find P (xs @ ys) = (case find P xs of None \<Rightarrow> find P ys | Some x \<Rightarrow> Some x)"
  by (induction xs) auto

lemma find_NoneI: "(\<And>x. x \<in> set xs \<Longrightarrow> \<not> P x) \<Longrightarrow> find P xs = None"
  by (simp add: find_None_iff)

lemma history_payable:
  assumes fc: "FixAuditChangesV3 fc" "FixAuditChangesV5 fc" and b: "bucket_ok now b"
    and e: "lastClaim < e" "e \<le> now"
  shows "map_option ss_Value (find (\<lambda>s. ss_StakedEpoch s < e \<and> e \<le> ss_ThroughEpoch s)
      (stakeHistoryAfterFreeze b now lastClaim)) = payable fc b e"
proof -
  let ?P = "\<lambda>s. ss_StakedEpoch s < e \<and> e \<le> ss_ThroughEpoch s"
  let ?through = "if ub_UnstakedEpoch b \<noteq> DefaultUnstakedEpoch then ub_UnstakedEpoch b else now"
  have keep: "find ?P (filter (\<lambda>s. ss_ThroughEpoch s > lastClaim) (ub_History b)) = find ?P (ub_History b)"
    using e by (intro find_filter) auto
  show ?thesis
  proof (cases "ub_StakedEpoch b < e")
    case True
    have "find ?P (ub_History b) = None"
      using b True by (intro find_NoneI) (force simp: bucket_ok_def)
    then show ?thesis
      using True e b fc keep
      by (auto simp: stakeHistoryAfterFreeze_def Let_def find_append payable_def bucketEligibleForFPR_def
          bucketStakeAt_def bucket_ok_def)
  next
    case False
    then have "bucketEligibleForFPR fc b e"
      using b fc by (auto simp: bucketEligibleForFPR_def bucket_ok_def)
    with False show ?thesis
      using fc keep
      by (auto simp: stakeHistoryAfterFreeze_def Let_def find_append payable_def bucketStakeAt_def
          split: option.splits)
  qed
qed

lemma history_bounded:
  "bucket_ok now b \<Longrightarrow> s \<in> set (stakeHistoryAfterFreeze b now lastClaim) \<Longrightarrow> ss_ThroughEpoch s \<le> now"
  by (fastforce simp: stakeHistoryAfterFreeze_def Let_def bucket_ok_def split: if_splits)

text \<open>
  C17: topping up or re-freezing a bucket does not change what the bucket earns from any pool
  distributed up to then and not yet claimed: from the fork that keeps the stake history on, each such
  pool is priced at the same stake after the freeze as before it.
\<close>

theorem Freeze_keeps_claims:
  assumes "Freeze assetID bucketID value staking userKDA opts = Inr (staking', userKDA')"
    and "fo_KeepStakeHistory opts" and "FixAuditChangesV3 fc" and "FixAuditChangesV5 fc"
    and "map_of (buckets userKDA) (parsedBucketID assetID bucketID) = Some b" and "bucket_ok (fo_BlockEpoch opts) b"
    and "lastClaimEpoch userKDA < e" and "e \<le> fo_BlockEpoch opts"
  shows "\<exists>b'. map_of (buckets userKDA') (parsedBucketID assetID bucketID) = Some b' \<and>
    bucket_ok (fo_BlockEpoch opts) b' \<and> payable fc b' e = payable fc b e"
proof -
  let ?h = "stakeHistoryAfterFreeze b (fo_BlockEpoch opts) (lastClaimEpoch userKDA)"
  let ?b = "\<lparr>ub_StakedAt = fo_BlockTime opts, ub_StakedEpoch = fo_BlockEpoch opts,
    ub_UnstakedEpoch = DefaultUnstakedEpoch, ub_Value = i64 (ub_Value b + value), ub_Delegation = None, ub_History = ?h\<rparr>"
  have "map_of (buckets userKDA') (parsedBucketID assetID bucketID) = Some ?b"
    using assms(1,2,5) by (auto simp: Freeze_def Let_def buckets_def update_conv split: if_splits)
  moreover have "bucket_ok (fo_BlockEpoch opts) ?b"
    using history_bounded [OF assms(6)] by (auto simp: bucket_ok_def)
  moreover have "payable fc ?b e = payable fc b e"
    using history_payable [OF assms(3,4,6,7,8)] assms(4,8)
    by (simp add: payable_def [of fc ?b] bucketEligibleForFPR_def bucketStakeAt_def)
  ultimately show ?thesis by blast
qed

definition sample_bucket :: UserBucket where
  "sample_bucket = \<lparr>ub_StakedAt = 0, ub_StakedEpoch = 3, ub_UnstakedEpoch = DefaultUnstakedEpoch, ub_Value = 100,
     ub_Delegation = None, ub_History = []\<rparr>"

definition sample_kda :: UserKDA where
  "sample_kda = \<lparr>uk_Balance = 0, uk_FrozenBalance = 100, uk_LastClaim = Some \<lparr>lc_Timestamp = 1, lc_Epoch = 3\<rparr>,
     uk_Buckets = Some [(hexEncode [7], sample_bucket)], uk_MIME = [], uk_Metadata = []\<rparr>"

definition sample_staking :: StakingData where
  "sample_staking = \<lparr>sd_InterestType = FPRI, sd_APR = [], sd_FPR = [], sd_CurrentFPRAmount = 0, sd_TotalStaked = 100,
     sd_MinEpochsToClaim = 0, sd_MinEpochsToUnstake = 0, sd_MinEpochsToWithdraw = 0\<rparr>"

definition sample_opts :: FreezeOptions where
  "sample_opts = \<lparr>fo_BlockEpoch = 8, fo_BlockTime = 0, fo_NewStakingFlow = True, fo_KeepStakeHistory = True\<rparr>"

lemmas sample_defs = sample_bucket_def sample_kda_def sample_staking_def sample_opts_def all_forks_def

theorem Freeze_keeps_claims_witness:
  "\<exists>s' k' b'. Freeze KLVIdentifier [7] 50 sample_staking sample_kda sample_opts = Inr (s', k') \<and>
     map_of (buckets k') (hexEncode [7]) = Some b' \<and> payable all_forks b' 5 = Some 100"
proof -
  have bid: "parsedBucketID KLVIdentifier [7] = hexEncode [7]"
    by (simp add: parsedBucketID_def)
  obtain s' k' where run: "Freeze KLVIdentifier [7] 50 sample_staking sample_kda sample_opts = Inr (s', k')"
    by (simp add: Freeze_def Let_def)
  have hyps: "fo_KeepStakeHistory sample_opts" "FixAuditChangesV3 all_forks" "FixAuditChangesV5 all_forks"
    "map_of (buckets sample_kda) (parsedBucketID KLVIdentifier [7]) = Some sample_bucket"
    "bucket_ok (fo_BlockEpoch sample_opts) sample_bucket" "lastClaimEpoch sample_kda < 5" "5 \<le> fo_BlockEpoch sample_opts"
    by (simp_all add: bid sample_defs buckets_def lastClaimEpoch_def bucket_ok_def)
  have "payable all_forks sample_bucket 5 = Some 100"
    by (simp add: payable_def bucketEligibleForFPR_def bucketStakeAt_def sample_defs)
  with Freeze_keeps_claims [OF run hyps] run show ?thesis
    unfolding bid by metis
qed

section \<open>The frozen balance\<close>

definition live :: "UserBucket \<Rightarrow> bool" where
  "live b \<longleftrightarrow> ub_UnstakedEpoch b = DefaultUnstakedEpoch"

definition live_sum :: "(bytes \<times> UserBucket) list \<Rightarrow> int" where
  "live_sum bs = sum_list (map (\<lambda>p. if live (snd p) then ub_Value (snd p) else 0) bs)"

definition total_sum :: "(bytes \<times> UserBucket) list \<Rightarrow> int" where
  "total_sum bs = sum_list (map (\<lambda>p. ub_Value (snd p)) bs)"

lemma sum_list_update:
  fixes f :: "'a \<times> 'b \<Rightarrow> int"
  shows "distinct (map fst bs) \<Longrightarrow>
    sum_list (map f (AList.update k v bs)) =
    sum_list (map f bs) + f (k, v) - (case map_of bs k of None \<Rightarrow> 0 | Some w \<Rightarrow> f (k, w))"
  by (induction bs) (auto split: option.splits dest: map_of_SomeD)

definition nonneg_values :: "(bytes \<times> UserBucket) list \<Rightarrow> bool" where
  "nonneg_values bs \<longleftrightarrow> (\<forall>p\<in>set bs. 0 \<le> ub_Value (snd p))"

lemma sums_bounds:
  assumes "nonneg_values bs"
  shows "0 \<le> live_sum bs" "live_sum bs \<le> total_sum bs"
proof -
  show "0 \<le> live_sum bs"
    using assms unfolding live_sum_def nonneg_values_def by (intro sum_list_nonneg) auto
  show "live_sum bs \<le> total_sum bs"
    using assms unfolding live_sum_def total_sum_def nonneg_values_def by (intro sum_list_mono) auto
qed

lemma member_bound: "nonneg_values bs \<Longrightarrow> (k, b) \<in> set bs \<Longrightarrow>
    0 \<le> ub_Value b \<and> ub_Value b + (if live b then 0 else live_sum bs) \<le> total_sum bs"
proof (induction bs)
  case (Cons p bs)
  then have "nonneg_values bs" by (simp add: nonneg_values_def)
  with Cons sums_bounds [of bs] show ?case
    by (auto simp: live_sum_def total_sum_def nonneg_values_def split: if_splits)
qed simp

lemma nonneg_update: "nonneg_values bs \<Longrightarrow> 0 \<le> ub_Value b \<Longrightarrow> nonneg_values (AList.update k b bs)"
  by (induction bs) (auto simp: nonneg_values_def)

text \<open>
  The record of a user's asset is consistent if the frozen balance is the sum of the buckets that are
  not unfrozen, no bucket is negative, and everything in the buckets fits an int64.
\<close>

definition frozen_ok :: "UserKDA \<Rightarrow> bool" where
  "frozen_ok k \<longleftrightarrow> distinct (map fst (buckets k)) \<and> nonneg_values (buckets k) \<and>
     uk_FrozenBalance k = live_sum (buckets k) \<and> total_sum (buckets k) \<le> MaxInt64"

lemma Freeze_frozen_ok:
  assumes run: "Freeze assetID bucketID v s k opts = Inr (s', k')" and flow: "fo_NewStakingFlow opts"
    and ok: "frozen_ok k" and bound: "total_sum (buckets k) + v \<le> MaxInt64"
  shows "frozen_ok k'" "sd_TotalStaked s' = i64 (sd_TotalStaked s + (uk_FrozenBalance k' - uk_FrozenBalance k))"
    and "uk_FrozenBalance k' - uk_FrozenBalance k \<le> total_sum (buckets k) - live_sum (buckets k) + v"
proof -
  let ?bs = "buckets k" and ?id = "parsedBucketID assetID bucketID"
  have v: "0 < v" using run by (auto simp: Freeze_def split: if_splits)
  have d: "distinct (map fst ?bs)" and nn: "nonneg_values ?bs" and fr: "uk_FrozenBalance k = live_sum ?bs"
    using ok by (auto simp: frozen_ok_def)
  note sums = sums_bounds [OF nn]
  define old where "old = (case map_of ?bs ?id of None \<Rightarrow> 0 | Some b \<Rightarrow> ub_Value b)"
  define add where "add = (case map_of ?bs ?id of None \<Rightarrow> v | Some b \<Rightarrow> if live b then v else v + ub_Value b)"
  have old: "0 \<le> old" "old \<le> total_sum ?bs" and add: "v \<le> add" "live_sum ?bs + add \<le> total_sum ?bs + v"
    using member_bound [OF nn map_of_SomeD, of ?id] sums
    by (auto simp: old_def add_def split: option.splits if_splits)
  have i1: "i64 (old + v) = old + v" and i2: "i64 add = add" and i3: "i64 (live_sum ?bs + add) = live_sum ?bs + add"
    using old add v bound sums by (auto intro!: i64_id simp: is_i64_def go_int_consts)
  obtain b where b: "ub_Value b = old + v" "live b" "buckets k' = AList.update ?id b ?bs"
    and fb: "uk_FrozenBalance k' = live_sum ?bs + add" and st: "sd_TotalStaked s' = i64 (sd_TotalStaked s + add)"
  proof (rule that)
    let ?b = "the (map_of (buckets k') ?id)"
    have i4: "map_of ?bs ?id = Some c \<Longrightarrow> \<not> live c \<Longrightarrow> i64 (v + ub_Value c) = v + ub_Value c" for c
      using i2 by (simp add: add_def)
    have *: "uk_FrozenBalance k' = i64 (uk_FrozenBalance k + add)" "sd_TotalStaked s' = i64 (sd_TotalStaked s + add)"
      using run flow i4
      by (auto simp: Freeze_def Let_def add_def live_def split: if_splits option.splits)
    show "uk_FrozenBalance k' = live_sum ?bs + add"
      using * fr i3 by simp
    show "sd_TotalStaked s' = i64 (sd_TotalStaked s + add)"
      using * by simp
    show "ub_Value ?b = old + v" "live ?b" "buckets k' = AList.update ?id ?b ?bs"
      using run i1 by (auto simp: Freeze_def Let_def buckets_def old_def live_def update_conv split: if_splits option.splits)
  qed
  have "live_sum (buckets k') = live_sum ?bs + add" "total_sum (buckets k') = total_sum ?bs + v"
    unfolding b(3) live_sum_def total_sum_def sum_list_update [OF d]
    using b(1,2) by (auto simp: old_def add_def split: option.splits)
  then show "frozen_ok k'"
    using b fb d bound nonneg_update [OF nn, of b ?id] old v
    by (simp add: frozen_ok_def distinct_update)
  show "sd_TotalStaked s' = i64 (sd_TotalStaked s + (uk_FrozenBalance k' - uk_FrozenBalance k))"
    using st fb fr by simp
  show "uk_FrozenBalance k' - uk_FrozenBalance k \<le> total_sum (buckets k) - live_sum (buckets k) + v"
    using add fb fr by simp
qed

lemma live_sum_none: "\<forall>p\<in>set bs. \<not> live (snd p) \<Longrightarrow> live_sum bs = 0"
  by (induction bs) (auto simp: live_sum_def)

lemma live_sum_single:
  "distinct (map fst bs) \<Longrightarrow> \<forall>p\<in>set bs. live (snd p) \<longrightarrow> fst p = k \<Longrightarrow> map_of bs k = Some b \<Longrightarrow> live b \<Longrightarrow>
     live_sum bs = ub_Value b"
proof (induction bs)
  case (Cons p bs)
  show ?case
  proof (cases "fst p = k")
    case True
    have "\<not> live (snd q)" if "q \<in> set bs" for q
    proof
      assume "live (snd q)"
      with Cons.prems(2) that True have "fst p = fst q" by auto
      with Cons.prems(1) that show False by (auto simp: image_iff)
    qed
    then have "\<forall>q\<in>set bs. \<not> live (snd q)" by blast
    then have "live_sum bs = 0" by (rule live_sum_none)
    with True Cons.prems show ?thesis by (simp add: live_sum_def)
  next
    case False
    with Cons show ?thesis by (simp add: live_sum_def)
  qed
qed simp

lemma Unfreeze_frozen_ok:
  assumes run: "Unfreeze assetID bucketID e s k flow = Inr (s', k', deleg, val)" and e: "e \<noteq> DefaultUnstakedEpoch"
    and ok: "frozen_ok k"
    and apr: "flow \<and> sd_InterestType s = APRI \<Longrightarrow>
      \<forall>p\<in>set (buckets k). live (snd p) \<longrightarrow> fst p = parsedBucketID assetID bucketID"
  shows "frozen_ok k'" "sd_TotalStaked s' = i64 (sd_TotalStaked s + (uk_FrozenBalance k' - uk_FrozenBalance k))"
    and "uk_FrozenBalance k' \<le> uk_FrozenBalance k"
proof -
  let ?bs = "buckets k" and ?id = "parsedBucketID assetID bucketID"
  have d: "distinct (map fst ?bs)" and nn: "nonneg_values ?bs" and fr: "uk_FrozenBalance k = live_sum ?bs"
    and tot: "total_sum ?bs \<le> MaxInt64"
    using ok by (auto simp: frozen_ok_def)
  obtain b where b: "map_of ?bs ?id = Some b" "live b"
    using run by (auto simp: Unfreeze_def Let_def live_def split: if_splits option.splits)
  let ?b = "b\<lparr>ub_UnstakedEpoch := e\<rparr>"
  have bk: "buckets k' = AList.update ?id ?b ?bs"
    using run b by (auto simp: Unfreeze_def Let_def buckets_def split: if_splits option.splits)
  have sums: "live_sum (buckets k') = live_sum ?bs - ub_Value b" "total_sum (buckets k') = total_sum ?bs"
    unfolding bk live_sum_def total_sum_def sum_list_update [OF d] using b e by (simp_all add: live_def)
  have val: "0 \<le> ub_Value b" "ub_Value b \<le> live_sum ?bs"
  proof -
    show "0 \<le> ub_Value b" using member_bound [OF nn map_of_SomeD [OF b(1)]] by simp
    have "nonneg_values (buckets k')"
      unfolding bk using nn \<open>0 \<le> ub_Value b\<close> by (intro nonneg_update) auto
    from sums_bounds(1) [OF this] show "ub_Value b \<le> live_sum ?bs" using sums by simp
  qed
  have whole: "live_sum ?bs = ub_Value b" if "flow \<and> sd_InterestType s = APRI"
    by (rule live_sum_single [OF d apr [OF that] b])
  have fb: "uk_FrozenBalance k' = live_sum ?bs - ub_Value b"
    and st: "sd_TotalStaked s' = i64 (sd_TotalStaked s - ub_Value b)"
  proof -
    have "i64 (live_sum ?bs - ub_Value b) = live_sum ?bs - ub_Value b"
      using val sums_bounds [OF nn] tot by (intro i64_id) (auto simp: is_i64_def go_int_consts)
    with run b fr whole show "uk_FrozenBalance k' = live_sum ?bs - ub_Value b"
      "sd_TotalStaked s' = i64 (sd_TotalStaked s - ub_Value b)"
      by (auto simp: Unfreeze_def Let_def split: if_splits)
  qed
  show "frozen_ok k'"
    using fb sums tot d nonneg_update [OF nn, of ?b ?id] val by (simp add: frozen_ok_def bk distinct_update)
  show "sd_TotalStaked s' = i64 (sd_TotalStaked s + (uk_FrozenBalance k' - uk_FrozenBalance k))"
    using st fb fr by simp
  show "uk_FrozenBalance k' \<le> uk_FrozenBalance k"
    using fb fr val by simp
qed

text \<open>Changing only the delegation of a bucket leaves every sum alone.\<close>

lemma delegation_frozen_ok:
  assumes "frozen_ok k" "map_of (buckets k) bid = Some b" "buckets k' = AList.update bid (b\<lparr>ub_Delegation := d\<rparr>) (buckets k)"
    and "uk_FrozenBalance k' = uk_FrozenBalance k"
  shows "frozen_ok k'"
proof -
  have d: "distinct (map fst (buckets k))" and nn: "nonneg_values (buckets k)"
    using assms(1) by (auto simp: frozen_ok_def)
  have "live_sum (buckets k') = live_sum (buckets k)" "total_sum (buckets k') = total_sum (buckets k)"
    unfolding assms(3) live_sum_def total_sum_def sum_list_update [OF d] using assms(2) by (auto simp: live_def)
  with assms nonneg_update [OF nn, of "b\<lparr>ub_Delegation := d\<rparr>" bid] member_bound [OF nn map_of_SomeD [OF assms(2)]]
  show ?thesis
    by (simp add: frozen_ok_def distinct_update)
qed

lemma Delegate_frozen_ok: "Delegate bucketID d k = Inr (k', v) \<Longrightarrow> frozen_ok k \<Longrightarrow> frozen_ok k' \<and> uk_FrozenBalance k' = uk_FrozenBalance k"
  by (auto simp: Delegate_def Let_def buckets_def [of "k\<lparr>uk_Buckets := _\<rparr>"] intro: delegation_frozen_ok split: if_splits option.splits)

lemma Undelegate_frozen_ok: "Undelegate bucketID k = Inr (k', d, v) \<Longrightarrow> frozen_ok k \<Longrightarrow> frozen_ok k' \<and> uk_FrozenBalance k' = uk_FrozenBalance k"
  by (auto simp: Undelegate_def Let_def buckets_def [of "k\<lparr>uk_Buckets := _\<rparr>"] intro: delegation_frozen_ok split: if_splits option.splits)

section \<open>Withdrawing\<close>

lemma i64_add_assoc: "i64 (i64 (a + b) + c) = i64 (a + b + c)"
proof -
  have "(i64 (a + b) + c + 9223372036854775808) mod 18446744073709551616 =
    ((a + b + 9223372036854775808) mod 18446744073709551616 + c) mod 18446744073709551616"
    by (simp add: i64_def algebra_simps)
  also have "\<dots> = (a + b + 9223372036854775808 + c) mod 18446744073709551616"
    by (rule mod_add_left_eq)
  finally show ?thesis
    by (simp add: i64_def algebra_simps)
qed

lemma withdrawBuckets_eq:
  "is_i64 w \<Longrightarrow> withdrawBuckets e m bs w =
     (i64 (w + total_sum (filter (\<lambda>p. withdrawable e m (snd p)) bs)),
      filter (\<lambda>p. \<not> withdrawable e m (snd p)) bs)"
proof (induction e m bs w rule: withdrawBuckets.induct)
  case (1 e m w)
  then show ?case by (simp add: total_sum_def i64_id)
next
  case (2 e m key b bs w)
  have "is_i64 (i64 (w + ub_Value b))"
    by (simp add: is_i64_def i64_def)
  with 2 show ?case
    by (auto simp: total_sum_def i64_add_assoc add.assoc)
qed

lemma total_sum_split:
  "total_sum (filter (\<lambda>p. P (snd p)) bs) + total_sum (filter (\<lambda>p. \<not> P (snd p)) bs) = total_sum bs"
  by (induction bs) (auto simp: total_sum_def)

lemma total_sum_mset: "mset bs = mset bs' \<Longrightarrow> total_sum bs = total_sum bs'"
  unfolding total_sum_def sum_mset_sum_list [symmetric] mset_map by simp

lemma live_filter:
  assumes "epoch < DefaultUnstakedEpoch" "0 \<le> m"
  shows "live_sum (filter (\<lambda>p. \<not> withdrawable epoch m (snd p)) bs) = live_sum bs"
  using assms by (induction bs) (auto simp: live_sum_def live_def withdrawable_def)

lemma withdraw_frozen_ok:
  assumes "frozen_ok k" "withdrawBuckets epoch m (buckets k) 0 = (w, rest)" "epoch < DefaultUnstakedEpoch" "0 \<le> m"
    and "buckets k' = rest" "uk_FrozenBalance k' = uk_FrozenBalance k"
  shows "frozen_ok k'" "w + total_sum rest = total_sum (buckets k)" "0 \<le> w"
proof -
  let ?W = "filter (\<lambda>p. withdrawable epoch m (snd p)) (buckets k)"
  have nn: "nonneg_values (buckets k)" and tot: "total_sum (buckets k) \<le> MaxInt64" and d: "distinct (map fst (buckets k))"
    using assms(1) by (auto simp: frozen_ok_def)
  have w: "w = i64 (total_sum ?W)" and rest: "rest = filter (\<lambda>p. \<not> withdrawable epoch m (snd p)) (buckets k)"
    using assms(2) by (simp_all add: withdrawBuckets_eq is_i64_def)
  have sub: "nonneg_values ?W" "nonneg_values rest"
    using nn by (auto simp: nonneg_values_def rest)
  have split: "total_sum ?W + total_sum rest = total_sum (buckets k)"
    unfolding rest by (rule total_sum_split)
  moreover have "0 \<le> total_sum ?W" "0 \<le> total_sum rest"
    using sums_bounds [OF sub(1)] sums_bounds [OF sub(2)] by simp_all
  ultimately have "w = total_sum ?W"
    unfolding w using tot by (intro i64_id) (auto simp: is_i64_def go_int_consts)
  then show "w + total_sum rest = total_sum (buckets k)" "0 \<le> w"
    using split \<open>0 \<le> total_sum ?W\<close> by simp_all
  have "distinct (map fst rest)"
    using d unfolding rest by (rule distinct_map_filter)
  then show "frozen_ok k'"
    using assms split sub(2) tot \<open>0 \<le> total_sum ?W\<close> live_filter [OF assms(3,4), of "buckets k"]
    by (simp add: frozen_ok_def rest)
qed

section \<open>Any sequence of staking operations\<close>

text \<open>
  One staking operation of a user on an asset, from the fork with the new staking flow on. Freezing is
  limited by what can exist: everything staked plus the user's unfrozen buckets fits an int64.
\<close>

inductive stake_step :: "bytes \<Rightarrow> StakingData \<times> UserKDA \<Rightarrow> StakingData \<times> UserKDA \<Rightarrow> bool" for assetID where
  freeze: "Freeze assetID bucketID v s k opts = Inr (s', k') \<Longrightarrow> fo_NewStakingFlow opts \<Longrightarrow>
     sd_TotalStaked s - uk_FrozenBalance k + total_sum (buckets k) + v \<le> MaxInt64 \<Longrightarrow>
     stake_step assetID (s, k) (s', k')"
| unfreeze: "Unfreeze assetID bucketID e s k True = Inr (s', k', deleg, v) \<Longrightarrow> e < DefaultUnstakedEpoch \<Longrightarrow>
     stake_step assetID (s, k) (s', k')"
| delegate: "Delegate bucketID d k = Inr (k', v) \<Longrightarrow> stake_step assetID (s, k) (s, k')"
| undelegate: "Undelegate bucketID k = Inr (k', deleg, v) \<Longrightarrow> stake_step assetID (s, k) (s, k')"
| withdraw: "withdrawBuckets epoch m (buckets k) 0 = (w, rest) \<Longrightarrow> epoch < DefaultUnstakedEpoch \<Longrightarrow> 0 \<le> m \<Longrightarrow>
     stake_step assetID (s, k) (s, k\<lparr>uk_Buckets := Some rest\<rparr>)"

text \<open>
  Only the two native assets have several buckets, named by the user; every other asset has the one bucket that is named
  like it. \<open>Unfreeze\<close> of an asset with a yearly rate clears the whole frozen balance, which is right for one bucket.
  The native assets have no yearly rate: genesis creates them with the other type of interest, and an update of the
  staking data keeps the type.
\<close>

definition nativeAsset :: "bytes \<Rightarrow> bool" where
  "nativeAsset assetID \<longleftrightarrow> assetID = KLVIdentifier \<or> assetID = KFIIdentifier"

definition buckets_of :: "bytes \<Rightarrow> StakingData \<times> UserKDA \<Rightarrow> bool" where
  "buckets_of assetID st \<longleftrightarrow>
     (if nativeAsset assetID then sd_InterestType (fst st) \<noteq> APRI else \<forall>p\<in>set (buckets (snd st)). fst p = assetID)"

definition staking_inv :: "bytes \<Rightarrow> int \<Rightarrow> StakingData \<times> UserKDA \<Rightarrow> bool" where
  "staking_inv assetID others st \<longleftrightarrow>
     frozen_ok (snd st) \<and> buckets_of assetID st \<and> sd_TotalStaked (fst st) = others + uk_FrozenBalance (snd st) \<and>
     is_i64 (sd_TotalStaked (fst st))"

lemma parsedBucketID_native: "\<not> nativeAsset assetID \<Longrightarrow> parsedBucketID assetID bucketID = assetID"
  by (simp add: parsedBucketID_def nativeAsset_def)

lemma keys_update: "fst ` set (AList.update k v bs) = insert k (fst ` set bs)"
  by (induction bs) auto

text \<open>No operation changes the type of interest, and none adds a bucket under a key that is not its own.\<close>

lemma keys_of_update:
  assumes "\<exists>b. uk_Buckets k' = Some (AList.update bid b (buckets k))"
  shows "fst ` set (buckets k') \<subseteq> insert bid (fst ` set (buckets k))"
proof -
  from assms obtain b where "buckets k' = AList.update bid b (buckets k)" by (auto simp: buckets_def [of k'])
  then show ?thesis by (simp add: keys_update)
qed

lemma Freeze_keys:
  assumes "Freeze assetID bucketID v s k opts = Inr (s', k')"
  shows "sd_InterestType s' = sd_InterestType s" "fst ` set (buckets k') \<subseteq> insert (parsedBucketID assetID bucketID) (fst ` set (buckets k))"
  using assms by (auto simp: Freeze_def Let_def split: if_splits intro!: keys_of_update)

lemma Unfreeze_keys:
  assumes "Unfreeze assetID bucketID e s k flow = Inr (s', k', deleg, v)"
  shows "sd_InterestType s' = sd_InterestType s" "fst ` set (buckets k') \<subseteq> insert (parsedBucketID assetID bucketID) (fst ` set (buckets k))"
  using assms by (auto simp: Unfreeze_def Let_def split: if_splits option.splits intro!: keys_of_update)

lemma delegation_keys:
  assumes "buckets k' = AList.update bid b' (buckets k)" "map_of (buckets k) bid = Some b"
  shows "fst ` set (buckets k') = fst ` set (buckets k)"
  using assms by (auto simp: keys_update dest: map_of_SomeD intro: rev_image_eqI)

lemma Delegate_keys: "Delegate bucketID d k = Inr (k', v) \<Longrightarrow> fst ` set (buckets k') = fst ` set (buckets k)"
  by (auto simp: Delegate_def Let_def buckets_def [of "k\<lparr>uk_Buckets := _\<rparr>"] intro!: delegation_keys split: if_splits option.splits)

lemma Undelegate_keys: "Undelegate bucketID k = Inr (k', deleg, v) \<Longrightarrow> fst ` set (buckets k') = fst ` set (buckets k)"
  by (auto simp: Undelegate_def Let_def buckets_def [of "k\<lparr>uk_Buckets := _\<rparr>"] intro!: delegation_keys split: if_splits option.splits)

lemma buckets_ofI:
  assumes "buckets_of assetID (s, k)" "sd_InterestType s' = sd_InterestType s"
    and "fst ` set (buckets k') \<subseteq> insert (parsedBucketID assetID bucketID) (fst ` set (buckets k))"
  shows "buckets_of assetID (s', k')"
  using assms by (auto simp: buckets_of_def parsedBucketID_native split: if_splits)

lemma stake_step_buckets:
  assumes "stake_step assetID st st'" "buckets_of assetID st"
  shows "buckets_of assetID st'"
  using assms
proof cases
  case (withdraw epoch m k w rest s)
  have "set rest \<subseteq> set (buckets k)" using withdraw(3) by (auto simp: withdrawBuckets_eq is_i64_def)
  then show ?thesis
    using assms(2) withdraw(1,2) by (auto simp: buckets_of_def buckets_def [of "k\<lparr>uk_Buckets := _\<rparr>"] split: if_splits)
next
  case (freeze bucketID v s k opts s' k')
  then show ?thesis using buckets_ofI [OF _ Freeze_keys [OF freeze(3)]] assms(2) by simp
next
  case (unfreeze bucketID e s k s' k' deleg v)
  then show ?thesis using buckets_ofI [OF _ Unfreeze_keys [OF unfreeze(3)]] assms(2) by simp
next
  case (delegate bucketID d k k' v s)
  then show ?thesis using buckets_ofI [OF _ refl, of assetID s k k' bucketID] Delegate_keys [OF delegate(3)] assms(2) by blast
next
  case (undelegate bucketID k k' deleg v s)
  then show ?thesis using buckets_ofI [OF _ refl, of assetID s k k' bucketID] Undelegate_keys [OF undelegate(3)] assms(2) by blast
qed

lemma stake_step_inv:
  assumes "stake_step assetID st st'" "staking_inv assetID others st" "0 \<le> others"
  shows "staking_inv assetID others st'"
proof -
  have buckets': "buckets_of assetID st'" by (rule stake_step_buckets [OF assms(1)]) (use assms(2) in \<open>simp add: staking_inv_def\<close>)
  show ?thesis using assms(1)
  proof cases
    case (freeze bucketID v s k opts s' k')
    have ok: "frozen_ok k" "sd_TotalStaked s = others + uk_FrozenBalance k"
      using assms(2) freeze(1) by (auto simp: staking_inv_def)
    then have nn: "0 \<le> live_sum (buckets k)" "uk_FrozenBalance k = live_sum (buckets k)"
      using sums_bounds by (auto simp: frozen_ok_def)
    have "total_sum (buckets k) + v \<le> MaxInt64"
      using freeze(5) ok assms(3) by simp
    note F = Freeze_frozen_ok [OF freeze(3,4) ok(1) this]
    have "0 \<le> uk_FrozenBalance k'"
      using F(1) sums_bounds by (auto simp: frozen_ok_def)
    then have "is_i64 (others + uk_FrozenBalance k')"
      using F(3) freeze(5) ok(2) nn assms(3) by (auto simp: is_i64_def go_int_consts)
    with F ok buckets' show ?thesis
      by (simp add: staking_inv_def freeze(2) i64_id)
  next
    case (unfreeze bucketID e s k s' k' deleg v)
    have ok: "frozen_ok k" "buckets_of assetID (s, k)" "sd_TotalStaked s = others + uk_FrozenBalance k" "is_i64 (sd_TotalStaked s)"
      using assms(2) unfreeze(1) by (auto simp: staking_inv_def)
    then have one: "\<forall>p\<in>set (buckets k). live (snd p) \<longrightarrow> fst p = parsedBucketID assetID bucketID" if "sd_InterestType s = APRI"
      using that by (auto simp: buckets_of_def parsedBucketID_native split: if_splits)
    have "frozen_ok k' \<and> sd_TotalStaked s' = i64 (sd_TotalStaked s + (uk_FrozenBalance k' - uk_FrozenBalance k)) \<and>
        uk_FrozenBalance k' \<le> uk_FrozenBalance k"
      using Unfreeze_frozen_ok [OF unfreeze(3) _ ok(1)] unfreeze(4) one by auto
    moreover from this have "0 \<le> uk_FrozenBalance k'"
      using sums_bounds by (auto simp: frozen_ok_def)
    ultimately show ?thesis
      using ok assms(3) buckets' by (auto simp: staking_inv_def unfreeze(2) i64_id is_i64_def)
  next
    case (withdraw epoch m k w rest s)
    then show ?thesis
      using assms(2) buckets' withdraw_frozen_ok(1) [OF _ withdraw(3,4,5), of "k\<lparr>uk_Buckets := Some rest\<rparr>"]
      by (auto simp: staking_inv_def buckets_def [of "k\<lparr>uk_Buckets := _\<rparr>"])
  qed (use assms(2) buckets' Delegate_frozen_ok Undelegate_frozen_ok in \<open>auto simp: staking_inv_def\<close>)
qed

text \<open>
  C5: whatever sequence of freezes, unfreezes, delegations and withdrawals a user performs on an asset, with the new staking
  flow and as long as the stake fits an int64, the frozen balance stays the sum of the user's live buckets, and the asset's
  total stake changes by exactly as much as the user's frozen balance: the stake of everybody else is never touched.
  At the start the record is consistent, and a native asset has no yearly rate or an asset that is not native no bucket but
  its own.
\<close>

theorem staking_invariant:
  assumes "(stake_step assetID)\<^sup>*\<^sup>* (s0, k0) (s, k)" and "frozen_ok k0" and "is_i64 (sd_TotalStaked s0)"
    and "uk_FrozenBalance k0 \<le> sd_TotalStaked s0" and "buckets_of assetID (s0, k0)"
  shows "frozen_ok k \<and> sd_TotalStaked s - uk_FrozenBalance k = sd_TotalStaked s0 - uk_FrozenBalance k0"
proof -
  let ?others = "sd_TotalStaked s0 - uk_FrozenBalance k0"
  from assms(1) have "staking_inv assetID ?others (s, k)"
  proof (induction rule: rtranclp_induct)
    case base
    show ?case using assms by (simp add: staking_inv_def)
  next
    case (step st st')
    with assms(4) show ?case by (auto intro: stake_step_inv)
  qed
  then show ?thesis by (auto simp: staking_inv_def)
qed

lemma sample_frozen_ok: "frozen_ok sample_kda"
  by (simp add: frozen_ok_def sample_defs buckets_def nonneg_values_def live_sum_def total_sum_def live_def go_int_consts)

theorem staking_invariant_witness:
  "\<exists>s k. (stake_step KLVIdentifier)\<^sup>*\<^sup>* (sample_staking, sample_kda) (s, k) \<and> uk_FrozenBalance k = 150 \<and>
     frozen_ok k \<and> sd_TotalStaked s - uk_FrozenBalance k = 0"
proof -
  obtain s k where run: "Freeze KLVIdentifier [7] 50 sample_staking sample_kda sample_opts = Inr (s, k)"
    and frozen: "uk_FrozenBalance k = 150"
    by (simp add: Freeze_def Let_def parsedBucketID_def sample_defs buckets_def i64_def DefaultUnstakedEpoch_def)
  have "stake_step KLVIdentifier (sample_staking, sample_kda) (s, k)"
    by (rule stake_step.freeze [OF run]) (simp_all add: sample_defs buckets_def total_sum_def go_int_consts)
  then have steps: "(stake_step KLVIdentifier)\<^sup>*\<^sup>* (sample_staking, sample_kda) (s, k)" by blast
  have "is_i64 (sd_TotalStaked sample_staking)" "uk_FrozenBalance sample_kda \<le> sd_TotalStaked sample_staking"
    "buckets_of KLVIdentifier (sample_staking, sample_kda)"
    "sd_TotalStaked sample_staking - uk_FrozenBalance sample_kda = 0"
    by (simp_all add: sample_defs is_i64_def buckets_of_def nativeAsset_def)
  with staking_invariant [OF steps sample_frozen_ok] steps frozen show ?thesis
    by (intro exI [of _ s] exI [of _ k]) auto
qed

text \<open>
  A native asset with a yearly rate and two live buckets would break it: unfreezing one clears the frozen balance, while
  the other stays live.
\<close>

lemma Unfreeze_clears_all:
  assumes "Unfreeze assetID bucketID e s k True = Inr (s', k', deleg, v)" "sd_InterestType s = APRI"
    and "(key, b) \<in> set (buckets k')" "live b" "0 < ub_Value b"
  shows "uk_FrozenBalance k' = 0 \<and> \<not> frozen_ok k'"
proof -
  have zero: "uk_FrozenBalance k' = 0" using assms(1,2) by (auto simp: Unfreeze_def Let_def split: if_splits option.splits)
  have "0 < live_sum bs" if "nonneg_values bs" "(key, b) \<in> set bs" for bs
    using that
  proof (induction bs)
    case (Cons p bs)
    then have "nonneg_values bs" by (simp add: nonneg_values_def)
    with Cons assms(4,5) sums_bounds(1) [of bs] show ?case
      by (auto simp: live_sum_def nonneg_values_def split: if_splits)
  qed simp
  with assms(3) zero show ?thesis by (force simp: frozen_ok_def)
qed

end
