(* ===== verification/Permissions.thy ===== *)
theory Permissions
  imports GoPrelude
begin

text \<open>
  Permission masks: the sets of contract types a key of an account may sign for, stored as little-endian
  bit masks (\<open>data/transaction/utils.go\<close>, with the byte conversions of \<open>tools/converters.go\<close>). A contract
  type is an int32; Go's shift by 64 or more gives zero, and a negative type becomes a huge shift.
\<close>

unbundle bit_operations_syntax

section \<open>Little-endian bytes\<close>

definition LittleEndianUint64 :: "bytes \<Rightarrow> 64 word" where
  "LittleEndianUint64 b = foldr (\<lambda>i v. v OR push_bit (8 * i) (ucast (b ! i))) [0..<8] 0"

definition BytesToUint64LE :: "bytes \<Rightarrow> 64 word" where
  "BytesToUint64LE b = LittleEndianUint64 (take 8 b @ replicate (8 - length b) 0)"

function truncLoop :: "64 word \<Rightarrow> bytes" where
  "truncLoop u = (if u > 0 then ucast (u AND 0xFF) # truncLoop (drop_bit 8 u) else [])"
  by auto

definition Uint64ToBytesLE :: "64 word \<Rightarrow> bytes" where
  "Uint64ToBytesLE u = map (\<lambda>i. ucast (drop_bit (8 * i) u)) [0..<8]"

lemma drop_bit_less: "u > 0 \<Longrightarrow> drop_bit 8 u < (u :: 64 word)"
proof -
  assume "u > 0"
  then have "unat u div 256 < unat u" by (simp add: word_greater_zero_iff unat_gt_0)
  then show ?thesis by (simp add: word_less_nat_alt drop_bit_eq_div unat_div)
qed

termination truncLoop
  by (relation "measure unat") (auto simp: drop_bit_less word_less_nat_alt [symmetric] simp del: word_greater_zero_iff)

declare truncLoop.simps [simp del]

definition Uint64ToBytesLETruncate :: "64 word \<Rightarrow> bytes" where
  "Uint64ToBytesLETruncate u = (if u = 0 then [0] else truncLoop u)"

section \<open>Masks\<close>

definition shl1 :: "int \<Rightarrow> 64 word" where
  "shl1 contractType = (if u64 contractType < 64 then push_bit (nat (u64 contractType)) 1 else 0)"

definition EncodeContractPermissions :: "int list \<Rightarrow> bytes" where
  "EncodeContractPermissions contractTypes =
     (if length contractTypes = 0 then []
      else Uint64ToBytesLETruncate (fold (\<lambda>contractType v. v OR shl1 contractType) contractTypes 0))"

definition DecodeContractPermissions :: "bytes \<Rightarrow> int list" where
  "DecodeContractPermissions permissions =
     concat (map (\<lambda>byteIndex.
         if permissions ! byteIndex = 0 then []
         else map (\<lambda>bitIndex. i32 (int (byteIndex * 8 + bitIndex)))
           (filter (\<lambda>bitIndex. permissions ! byteIndex AND push_bit bitIndex 1 \<noteq> 0) [0..<8]))
       [0..<length permissions])"

definition getPermissionMask :: "int \<Rightarrow> nat \<times> byte" where
  "getPermissionMask contractType = (nat (contractType div 8), push_bit (nat (contractType mod 8)) 1)"

definition CheckPermissionGrantedForContract :: "bytes \<Rightarrow> int \<Rightarrow> bool" where
  "CheckPermissionGrantedForContract permissions contractType =
     (case getPermissionMask (u32 contractType) of (byteIndex, bitMask) \<Rightarrow>
        if byteIndex \<ge> length permissions then False else permissions ! byteIndex AND bitMask \<noteq> 0)"

definition CheckPermissionGrantedForContracts :: "bytes \<Rightarrow> int list \<Rightarrow> bool" where
  "CheckPermissionGrantedForContracts permissions contractTypes =
     (if length permissions = 0 then False
      else list_all (CheckPermissionGrantedForContract permissions) contractTypes)"

definition CheckPermissionGrantedForUint64 :: "bytes \<Rightarrow> 64 word \<Rightarrow> bool" where
  "CheckPermissionGrantedForUint64 permissions ops = (ops AND NOT (BytesToUint64LE permissions) = 0)"

section \<open>Masks as sets of bits\<close>

text \<open>Bit \<open>n\<close> of a little-endian byte string.\<close>

definition granted :: "bytes \<Rightarrow> nat \<Rightarrow> bool" where
  "granted b n \<longleftrightarrow> n div 8 < length b \<and> bit (b ! (n div 8)) (n mod 8)"

lemma and_push_bit_one: "x AND push_bit n 1 \<noteq> 0 \<longleftrightarrow> bit (x :: 'a :: len word) n"
  by (simp add: push_bit_of_1 and_exp_eq_0_iff_not_bit)

lemma bit_LittleEndian_upto:
  "k \<le> 8 \<Longrightarrow> bit (foldr (\<lambda>i v. v OR push_bit (8 * i) (ucast (b ! i))) [0..<k] (0 :: 64 word)) n \<longleftrightarrow>
     n < 8 * k \<and> bit (b ! (n div 8) :: byte) (n mod 8)"
proof (induction k)
  case 0
  then show ?case by simp
next
  case (Suc k)
  have "foldr (\<lambda>i v. v OR push_bit (8 * i) (ucast (b ! i))) xs a =
      foldr (\<lambda>i v. v OR push_bit (8 * i) (ucast (b ! i))) xs 0 OR (a :: 64 word)" for xs a
    by (induction xs) (simp_all add: or.assoc or.left_commute or.commute)
  note split = this [of "[0..<k]" "0 OR push_bit (8 * k) (ucast (b ! k))"]
  have "8 * k \<le> n \<and> n - 8 * k < 8 \<Longrightarrow> n div 8 = k \<and> n mod 8 = n - 8 * k"
    by presburger
  moreover have "n < 8 * Suc k \<longleftrightarrow> n < 8 * k \<or> 8 * k \<le> n \<and> n - 8 * k < 8"
    by auto
  ultimately show ?case
    using Suc split by (auto simp: bit_simps bit_imp_le_length [where 'a = 8] dest: bit_imp_le_length)
qed

lemma bit_BytesToUint64LE: "bit (BytesToUint64LE b) n \<longleftrightarrow> n < 64 \<and> granted b n"
proof -
  have "(take 8 b @ replicate (8 - length b) 0) ! i = (if i < length b then b ! i else 0)" if "i < 8" for i
    using that by (auto simp: nth_append)
  from this [of "n div 8"] show ?thesis
    using bit_LittleEndian_upto [of 8 "take 8 b @ replicate (8 - length b) 0" n]
    by (auto simp: BytesToUint64LE_def LittleEndianUint64_def granted_def split: if_splits)
qed

lemma granted_Cons: "granted (x # xs) n \<longleftrightarrow> (if n < 8 then bit x n else granted xs (n - 8))"
proof (cases "n < 8")
  case False
  then have "n div 8 = Suc ((n - 8) div 8)" "(n - 8) mod 8 = n mod 8"
    by (simp_all add: le_div_geq le_mod_geq)
  with False show ?thesis by (simp add: granted_def)
qed (simp add: granted_def)

lemma granted_Nil [simp]: "\<not> granted [] n"
  by (simp add: granted_def)

lemma mask8: "(0xFF :: 64 word) = mask 8"
  by (simp add: mask_eq_exp_minus_1)

lemma granted_truncLoop: "granted (truncLoop u) n \<longleftrightarrow> bit u n"
proof (induction u arbitrary: n rule: truncLoop.induct)
  case (1 u)
  have "bit (ucast (u AND 0xFF) :: byte) n \<longleftrightarrow> bit u n" if "n < 8"
    using that by (simp add: bit_simps mask8)
  with 1 show ?case
    by (subst truncLoop.simps) (auto simp: granted_Cons bit_drop_bit_eq word_greater_zero_iff)
qed

lemma granted_Truncate: "granted (Uint64ToBytesLETruncate u) n \<longleftrightarrow> bit u n"
  by (simp add: Uint64ToBytesLETruncate_def granted_truncLoop granted_Cons)

lemma bit_fold_or:
  "bit (fold (\<lambda>c v. v OR f c) cs v) n \<longleftrightarrow> bit v n \<or> (\<exists>c\<in>set cs. bit (f c :: 64 word) n)"
  by (induction cs arbitrary: v) (auto simp: bit_or_iff)

lemma bit_shl1: "0 \<le> c \<Longrightarrow> c < 64 \<Longrightarrow> bit (shl1 c) n \<longleftrightarrow> int n = c"
  by (auto simp: shl1_def u64_def bit_simps)

lemma granted_Encode:
  assumes "list_all (\<lambda>c. 0 \<le> c \<and> c < 64) cts"
  shows "granted (EncodeContractPermissions cts) n \<longleftrightarrow> int n \<in> set cts"
  using assms by (auto simp: EncodeContractPermissions_def granted_Truncate bit_fold_or bit_shl1 list_all_iff)

lemma Check_granted:
  assumes "is_u32 c"
  shows "CheckPermissionGrantedForContract b c \<longleftrightarrow> granted b (nat c)"
  using assms by (auto simp: CheckPermissionGrantedForContract_def getPermissionMask_def granted_def and_exp_eq_0_iff_not_bit
      u32_def is_u32_def nat_div_distrib nat_mod_distrib not_le)

lemma set_Decode: "set (DecodeContractPermissions b) = (\<lambda>n. i32 (int n)) ` {n. granted b n}"
proof -
  have "granted b n \<longleftrightarrow> (\<exists>i < length b. \<exists>j < 8. b ! i \<noteq> 0 \<and> bit (b ! i) j \<and> n = i * 8 + j)" for n
  proof
    assume "granted b n"
    then show "\<exists>i < length b. \<exists>j < 8. b ! i \<noteq> 0 \<and> bit (b ! i) j \<and> n = i * 8 + j"
      by (intro exI [of _ "n div 8"] conjI exI [of _ "n mod 8"]) (auto simp: granted_def)
  qed (auto simp: granted_def)
  then have "{n. granted b n} = (\<Union>i\<in>{0..<length b}. if b ! i = 0 then {} else (\<lambda>j. i * 8 + j) ` {j. j < 8 \<and> bit (b ! i) j})"
    by (auto split: if_splits)
  then show ?thesis
    by (auto simp: DecodeContractPermissions_def and_exp_eq_0_iff_not_bit push_bit_of_1 simp del: of_nat_add of_nat_mult
        intro!: imageI split: if_splits)
qed

text \<open>
  C30: encoding a set of contract types and checking it are inverse. A mask built from contract types
  below 64 grants exactly these, and decoding it lists exactly these.
\<close>

theorem permissions_roundtrip:
  assumes "list_all (\<lambda>c. 0 \<le> c \<and> c < 64) contractTypes" and "is_u32 c"
  shows "(CheckPermissionGrantedForContract (EncodeContractPermissions contractTypes) c \<longleftrightarrow> c \<in> set contractTypes) \<and>
    set (DecodeContractPermissions (EncodeContractPermissions contractTypes)) = set contractTypes"
proof
  show "CheckPermissionGrantedForContract (EncodeContractPermissions contractTypes) c \<longleftrightarrow> c \<in> set contractTypes"
    using assms by (simp add: Check_granted granted_Encode is_u32_def)
  have "i32 (int n) = int n" if "int n \<in> set contractTypes" for n
    using assms(1) that by (auto simp: list_all_iff i32_def)
  moreover have "\<exists>n. c = int n" if "c \<in> set contractTypes" for c
    using assms(1) that by (auto simp: list_all_iff intro!: exI [of _ "nat c"])
  ultimately show "set (DecodeContractPermissions (EncodeContractPermissions contractTypes)) = set contractTypes"
    unfolding set_Decode granted_Encode [OF assms(1)] by (auto simp: image_iff)
qed

theorem permissions_roundtrip_witness:
  "CheckPermissionGrantedForContract (EncodeContractPermissions [0, 9, 63]) 9 \<and>
   set (DecodeContractPermissions (EncodeContractPermissions [0, 9, 63])) = {0, 9, 63}"
  using permissions_roundtrip [of "[0, 9, 63]" 9] by (simp add: is_u32_def)

text \<open>
  C31: the two ways of checking several operations at once agree, except on permissions of no bytes. The check of contract
  types below 64 grants exactly when there are permissions and the check of the mask of these types grants; with permissions
  of no bytes the check of contract types denies even an empty list of operations, which the check of the mask grants.
\<close>

theorem permission_checks_agree:
  assumes "list_all (\<lambda>c. 0 \<le> c \<and> c < 64) contractTypes"
  shows "CheckPermissionGrantedForContracts permissions contractTypes \<longleftrightarrow> permissions \<noteq> [] \<and>
    CheckPermissionGrantedForUint64 permissions (BytesToUint64LE (EncodeContractPermissions contractTypes))"
proof -
  have u32: "is_u32 c \<and> nat c < 64 \<and> int (nat c) = c" if "c \<in> set contractTypes" for c
    using assms that by (auto simp: list_all_iff is_u32_def)
  have "ops AND NOT p = 0 \<longleftrightarrow> (\<forall>n < 64. bit ops n \<longrightarrow> bit p n)" for ops p :: "64 word"
    by (auto simp: bit_eq_iff bit_simps)
  then have "CheckPermissionGrantedForUint64 permissions (BytesToUint64LE (EncodeContractPermissions contractTypes)) \<longleftrightarrow>
      (\<forall>n < 64. int n \<in> set contractTypes \<longrightarrow> granted permissions n)"
    by (auto simp: CheckPermissionGrantedForUint64_def bit_BytesToUint64LE granted_Encode [OF assms])
  also have "\<dots> \<longleftrightarrow> (\<forall>c \<in> set contractTypes. granted permissions (nat c))"
    using u32 by (metis nat_int)
  finally show ?thesis
    using u32 by (simp add: CheckPermissionGrantedForContracts_def list_all_iff Check_granted)
qed

text \<open>The mask of no operations is granted by permissions of no bytes, the empty list of operations is not.\<close>

theorem permission_checks_agree_witness:
  "CheckPermissionGrantedForUint64 [3, 2] (BytesToUint64LE (EncodeContractPermissions [1, 9])) \<and>
   CheckPermissionGrantedForUint64 [] (BytesToUint64LE (EncodeContractPermissions [])) \<and>
   \<not> CheckPermissionGrantedForContracts [] []"
proof (intro conjI)
  have "CheckPermissionGrantedForContracts [3, 2] [1, 9]"
    by (simp add: CheckPermissionGrantedForContracts_def CheckPermissionGrantedForContract_def getPermissionMask_def u32_def)
  then show "CheckPermissionGrantedForUint64 [3, 2] (BytesToUint64LE (EncodeContractPermissions [1, 9]))"
    using permission_checks_agree [of "[1, 9]" "[3, 2]"] by simp
  show "\<not> CheckPermissionGrantedForContracts [] []"
    using permission_checks_agree [of "[]" "[]"] by simp
  show "CheckPermissionGrantedForUint64 [] (BytesToUint64LE (EncodeContractPermissions []))"
    by (simp add: CheckPermissionGrantedForUint64_def EncodeContractPermissions_def bit_eq_iff bit_BytesToUint64LE granted_def)
qed

end
