(* ===== verification/UserAccount.thy ===== *)
theory UserAccount
  imports Staking DataTrie Permissions
begin

text \<open>
  User accounts: \<open>data/state/userAccount.go\<close> and \<open>data/state/baseAccount.go\<close>. The balance of the native
  asset is a field of the account, every other asset is a record in the account's data trie, encoded by
  the protobuf codec, which is a parameter. An embedded Go struct is a record extension.

  A method with a pointer receiver returns the account it leaves behind next to its result, on errors
  too. Reading may load nodes into the cached trie, so readers return the account as well. An asset
  identifier that may be nil is an option; the optional asset record of the balance methods is the list
  of the variadic arguments, with nil pointers as \<^term>\<open>None\<close>, and is returned as the method leaves it.
\<close>

section \<open>Data\<close>

record baseAccount =
  ba_address :: bytes
  ba_dataTrieTracker :: "TrackableDataTrie option"
  ba_code :: bytes
  ba_hasNewCode :: bool

datatype PermissionType = Permission_Owner | Permission_User | Permission_Unknown int

record Key =
  ky_Address :: bytes
  ky_Weight :: int

record Permission =
  pm_ID :: int
  pm_Type :: PermissionType
  pm_PermissionName :: bytes
  pm_Threshold :: int
  pm_Operations :: bytes
  pm_Signers :: "Key list"

record userAccount = baseAccount +
  ua_Address :: bytes
  ua_Name :: bytes
  ua_RootHash :: bytes
  ua_Balance :: int
  ua_Allowance :: int
  ua_Nonce :: int
  ua_Permissions :: "Permission list"
  ua_OwnerAddress :: bytes
  ua_CodeHash :: bytes
  ua_CodeMetadata :: bytes

text \<open>What an account calls: the data trie with its fuel, and the protobuf codec of asset records.\<close>

record account_env =
  ae_extra :: nat
  ae_trie :: trie_env
  ae_marshal :: "UserKDA \<Rightarrow> common_error + bytes"
  ae_unmarshal :: "bytes \<Rightarrow> common_error + UserKDA"

datatype EnumClaimType = StakingClaim | AllowanceClaim | MarketClaim | UnknownClaim int

section \<open>Construction and plain fields\<close>

definition NewEmptyUserAccount :: userAccount where
  "NewEmptyUserAccount =
     \<lparr>ba_address = [], ba_dataTrieTracker = None, ba_code = [], ba_hasNewCode = False,
      ua_Address = [], ua_Name = [], ua_RootHash = [], ua_Balance = 0, ua_Allowance = 0, ua_Nonce = 0,
      ua_Permissions = [], ua_OwnerAddress = [], ua_CodeHash = [], ua_CodeMetadata = []\<rparr>"

definition NewUserAccountNoCheck :: "bytes \<Rightarrow> userAccount" where
  "NewUserAccountNoCheck address =
     NewEmptyUserAccount\<lparr>ba_address := address, ba_dataTrieTracker := Some (NewTrackableDataTrie address None),
       ua_Address := address\<rparr>"

definition NewUserAccount :: "bytes \<Rightarrow> common_error + userAccount" where
  "NewUserAccount address =
     (if length address = 0 then Inl ErrNilAddress else Inr (NewUserAccountNoCheck address))"

definition IncreaseNonce :: "int \<Rightarrow> userAccount \<Rightarrow> userAccount" where
  "IncreaseNonce value a = a\<lparr>ua_Nonce := u64 (ua_Nonce a + value)\<rparr>"

definition SetName :: "bytes \<Rightarrow> userAccount \<Rightarrow> userAccount" where
  "SetName name a = a\<lparr>ua_Name := name\<rparr>"

definition SetRootHash :: "bytes \<Rightarrow> userAccount \<Rightarrow> userAccount" where
  "SetRootHash roothash a = a\<lparr>ua_RootHash := roothash\<rparr>"

definition SetPermissions :: "Permission list \<Rightarrow> userAccount \<Rightarrow> userAccount" where
  "SetPermissions permissions a = a\<lparr>ua_Permissions := permissions\<rparr>"

definition SetOwnerAddress :: "bytes \<Rightarrow> userAccount \<Rightarrow> userAccount" where
  "SetOwnerAddress address a = a\<lparr>ua_OwnerAddress := address\<rparr>"

definition SetCodeHash :: "bytes \<Rightarrow> userAccount \<Rightarrow> userAccount" where
  "SetCodeHash codeHash a = a\<lparr>ua_CodeHash := codeHash\<rparr>"

definition SetCodeMetadata :: "bytes \<Rightarrow> userAccount \<Rightarrow> userAccount" where
  "SetCodeMetadata codeMetadata a = a\<lparr>ua_CodeMetadata := codeMetadata\<rparr>"

definition SetCode :: "bytes \<Rightarrow> userAccount \<Rightarrow> userAccount" where
  "SetCode code a = a\<lparr>ba_hasNewCode := True, ba_code := code\<rparr>"

definition base_SaveKeyValue :: "bytes \<Rightarrow> bytes \<Rightarrow> userAccount \<Rightarrow> userAccount \<times> (common_error + unit)" where
  "base_SaveKeyValue key value a =
     (case ba_dataTrieTracker a of
        None \<Rightarrow> (a, Inl ErrNilTrackableDataTrie)
      | Some t \<Rightarrow> (case SaveKeyValue key value t of (t', r) \<Rightarrow> (a\<lparr>ba_dataTrieTracker := Some t'\<rparr>, r)))"

definition base_RetrieveValue :: "account_env \<Rightarrow> bytes \<Rightarrow> userAccount \<Rightarrow> userAccount \<times> (common_error + bytes)" where
  "base_RetrieveValue e key a =
     (case ba_dataTrieTracker a of
        None \<Rightarrow> (a, Inl ErrNilTrackableDataTrie)
      | Some t \<Rightarrow>
        (case RetrieveValue (ae_extra e) (ae_trie e) key t of (t', r) \<Rightarrow> (a\<lparr>ba_dataTrieTracker := Some t'\<rparr>, r)))"

section \<open>Asset records\<close>

definition newUserKDA :: UserKDA where
  "newUserKDA = \<lparr>uk_Balance = 0, uk_FrozenBalance = 0, uk_LastClaim = Some \<lparr>lc_Timestamp = 0, lc_Epoch = 0\<rparr>,
     uk_Buckets = Some [], uk_MIME = [], uk_Metadata = []\<rparr>"

definition assetOrKLV :: "bytes option \<Rightarrow> bytes" where
  "assetOrKLV assetID = (case assetID of None \<Rightarrow> KLVIdentifier | Some i \<Rightarrow> i)"

definition GetUserKDA ::
  "account_env \<Rightarrow> bytes option \<Rightarrow> bytes \<Rightarrow> bool \<Rightarrow> userAccount \<Rightarrow> userAccount \<times> (common_error + UserKDA)"
where
  "GetUserKDA e assetID nonce checkDirtData a =
     (case ba_dataTrieTracker a of
        None \<Rightarrow> (a, Inl PanicNilPointer)
      | Some t \<Rightarrow>
        if td_tr t = None \<and> (\<not> checkDirtData \<or> length (td_dirtyData t) = 0) then (a, Inr newUserKDA)
        else
          (case RetrieveValue (ae_extra e) (ae_trie e) (ToKDAKey (assetOrKLV assetID) nonce) t of
             (t', r) \<Rightarrow>
               (a\<lparr>ba_dataTrieTracker := Some t'\<rparr>,
                case r of
                  Inl err \<Rightarrow> if err \<noteq> ErrNilTrie then Inl err else Inr newUserKDA
                | Inr value \<Rightarrow> if length value = 0 then Inr newUserKDA else ae_unmarshal e value)))"

definition SetUserKDA ::
  "account_env \<Rightarrow> bytes option \<Rightarrow> bytes \<Rightarrow> UserKDA \<Rightarrow> userAccount \<Rightarrow> userAccount \<times> (common_error + unit)"
where
  "SetUserKDA e assetID nonce userKDA a =
     (case ae_marshal e userKDA of
        Inl err \<Rightarrow> (a, Inl err)
      | Inr data \<Rightarrow>
        (case ba_dataTrieTracker a of
           None \<Rightarrow> (a, Inl PanicNilPointer)
         | Some t \<Rightarrow>
           (case SaveKeyValue (ToKDAKey (assetOrKLV assetID) nonce) data t of
              (t', r) \<Rightarrow> (a\<lparr>ba_dataTrieTracker := Some t'\<rparr>, r))))"

section \<open>Balances\<close>

text \<open>The asset record of the call: the one passed in, or the stored one.\<close>

definition optKDA :: "UserKDA option list \<Rightarrow> UserKDA option" where
  "optKDA opts = (case opts of [k] \<Rightarrow> k | _ \<Rightarrow> None)"

definition loadKDA ::
  "account_env \<Rightarrow> bytes option \<Rightarrow> bytes \<Rightarrow> bool \<Rightarrow> UserKDA option list \<Rightarrow> userAccount \<Rightarrow>
   userAccount \<times> (common_error + UserKDA)"
where
  "loadKDA e assetID nonce cdd opts a =
     (case optKDA opts of Some userKDA \<Rightarrow> (a, Inr userKDA) | None \<Rightarrow> GetUserKDA e assetID nonce cdd a)"

text \<open>The end of the four methods: the new balance is checked, set and stored.\<close>

definition storeBalance ::
  "account_env \<Rightarrow> common_error \<Rightarrow> int \<Rightarrow> bytes option \<Rightarrow> bytes \<Rightarrow> UserKDA option list \<Rightarrow> UserKDA \<Rightarrow> userAccount \<Rightarrow>
   userAccount \<times> UserKDA option list \<times> (common_error + unit)"
where
  "storeBalance e err newBalance assetID nonce opts userKDA a =
     (if newBalance < 0 then (a, opts, Inl err)
      else
        let userKDA' = userKDA\<lparr>uk_Balance := newBalance\<rparr> in
        (case SetUserKDA e assetID nonce userKDA' a of
           (a', r) \<Rightarrow> (a', (if optKDA opts = None then opts else [Some userKDA']), r)))"

definition AddToAllowance :: "int \<Rightarrow> userAccount \<Rightarrow> userAccount \<times> (common_error + unit)" where
  "AddToAllowance value a =
     (if value < 0 then (a, Inl ErrInvalidValue)
      else (a\<lparr>ua_Allowance := i64 (ua_Allowance a + value)\<rparr>, Inr ()))"

definition AddToBalance ::
  "account_env \<Rightarrow> int \<Rightarrow> bytes option \<Rightarrow> bool \<Rightarrow> UserKDA option list \<Rightarrow> userAccount \<Rightarrow>
   userAccount \<times> UserKDA option list \<times> (common_error + unit)"
where
  "AddToBalance e value assetID cdd opts a =
     (if value < 0 then (a, opts, Inl ErrInvalidValue)
      else if assetID = None \<or> assetID = Some KLVIdentifier then
        let newBalance = i64 (ua_Balance a + value) in
        if newBalance < 0 then (a, opts, Inl ErrAddBalanceOverflow)
        else (a\<lparr>ua_Balance := newBalance\<rparr>, opts, Inr ())
      else
        (case loadKDA e assetID [] cdd opts a of
           (a1, Inl err) \<Rightarrow> (a1, opts, Inl err)
         | (a1, Inr userKDA) \<Rightarrow>
             storeBalance e ErrAddBalanceOverflow (i64 (uk_Balance userKDA + value)) assetID [] opts userKDA a1))"

text \<open>The nonce of a token, which has to be the decimal form of a positive int64.\<close>

definition checkNonce :: "bytes \<Rightarrow> common_error option" where
  "checkNonce nonce =
     (case ParseInt 64 nonce of
        (_, Some err) \<Rightarrow> Some (NumErr err)
      | (internalIDInt, None) \<Rightarrow> if internalIDInt \<le> 0 then Some ErrInvalidNonce else None)"

definition AddToBalanceWithNonce ::
  "account_env \<Rightarrow> int \<Rightarrow> bytes \<Rightarrow> bytes \<Rightarrow> bool \<Rightarrow> UserKDA option list \<Rightarrow> userAccount \<Rightarrow>
   userAccount \<times> UserKDA option list \<times> (common_error + unit)"
where
  "AddToBalanceWithNonce e value assetID nonce cdd opts a =
     (if value < 0 then (a, opts, Inl ErrInvalidValue)
      else if value = 0 then (a, opts, Inr ())
      else
        (case checkNonce nonce of
           Some err \<Rightarrow> (a, opts, Inl err)
         | None \<Rightarrow>
           (case loadKDA e (Some assetID) nonce cdd opts a of
              (a1, Inl err) \<Rightarrow> (a1, opts, Inl err)
            | (a1, Inr userKDA) \<Rightarrow>
                storeBalance e ErrAddBalanceOverflow (i64 (uk_Balance userKDA + value)) (Some assetID) nonce opts userKDA a1)))"

definition SubFromBalance ::
  "account_env \<Rightarrow> int \<Rightarrow> bytes option \<Rightarrow> bool \<Rightarrow> UserKDA option list \<Rightarrow> userAccount \<Rightarrow>
   userAccount \<times> UserKDA option list \<times> (common_error + unit)"
where
  "SubFromBalance e value assetID cdd opts a =
     (if value < 0 then (a, opts, Inl ErrInvalidValue)
      else if assetID = None \<or> assetID = Some KLVIdentifier then
        let newBalance = i64 (ua_Balance a - value) in
        if newBalance < 0 then (a, opts, Inl ErrInsufficientFunds)
        else (a\<lparr>ua_Balance := newBalance\<rparr>, opts, Inr ())
      else
        (case loadKDA e assetID [] cdd opts a of
           (a1, Inl err) \<Rightarrow> (a1, opts, Inl err)
         | (a1, Inr userKDA) \<Rightarrow>
             storeBalance e ErrInsufficientFunds (i64 (uk_Balance userKDA - value)) assetID [] opts userKDA a1))"

definition SubFromBalanceWithNonce ::
  "account_env \<Rightarrow> int \<Rightarrow> bytes \<Rightarrow> bytes \<Rightarrow> bool \<Rightarrow> UserKDA option list \<Rightarrow> userAccount \<Rightarrow>
   userAccount \<times> UserKDA option list \<times> (common_error + unit)"
where
  "SubFromBalanceWithNonce e value assetID nonce cdd opts a =
     (if value < 0 then (a, opts, Inl ErrInvalidValue)
      else
        (case checkNonce nonce of
           Some err \<Rightarrow> (a, opts, Inl err)
         | None \<Rightarrow>
           (case loadKDA e (Some assetID) nonce cdd opts a of
              (a1, Inl err) \<Rightarrow> (a1, opts, Inl err)
            | (a1, Inr userKDA) \<Rightarrow>
                storeBalance e ErrAddBalanceOverflow (i64 (uk_Balance userKDA - value)) (Some assetID) nonce opts userKDA a1)))"

definition AddInternalKDA :: "bytes \<Rightarrow> bytes \<Rightarrow> bytes \<Rightarrow> userAccount \<Rightarrow> userAccount \<times> (common_error + unit)" where
  "AddInternalKDA assetID internalID data a =
     (if length data = 0 then (a, Inl ErrAssetNotFound)
      else
        (case ba_dataTrieTracker a of
           None \<Rightarrow> (a, Inl PanicNilPointer)
         | Some t \<Rightarrow>
           (case SaveKeyValue (ToKDAKey assetID internalID) data t of
              (t', r) \<Rightarrow> (a\<lparr>ba_dataTrieTracker := Some t'\<rparr>, r))))"

definition SubInternalKDA :: "account_env \<Rightarrow> bytes \<Rightarrow> bytes \<Rightarrow> userAccount \<Rightarrow> userAccount \<times> (common_error + bytes)" where
  "SubInternalKDA e assetID internalID a =
     (case ba_dataTrieTracker a of
        None \<Rightarrow> (a, Inl PanicNilPointer)
      | Some t \<Rightarrow>
        (case RetrieveValue (ae_extra e) (ae_trie e) (ToKDAKey assetID internalID) t of
           (t1, Inl err) \<Rightarrow> (a\<lparr>ba_dataTrieTracker := Some t1\<rparr>, Inl err)
         | (t1, Inr data) \<Rightarrow>
           if length data = 0 then (a\<lparr>ba_dataTrieTracker := Some t1\<rparr>, Inl ErrAssetNotFound)
           else
             (case SaveKeyValue (ToKDAKey assetID internalID) [] t1 of
                (t2, Inl err) \<Rightarrow> (a\<lparr>ba_dataTrieTracker := Some t2\<rparr>, Inl err)
              | (t2, Inr _) \<Rightarrow> (a\<lparr>ba_dataTrieTracker := Some t2\<rparr>, Inr data))))"

definition GetBalanceWithNonce :: "account_env \<Rightarrow> bytes option \<Rightarrow> bytes \<Rightarrow> bool \<Rightarrow> userAccount \<Rightarrow> userAccount \<times> int" where
  "GetBalanceWithNonce e assetID nonce cdd a =
     (case GetUserKDA e assetID nonce cdd a of
        (a', Inl _) \<Rightarrow> (a', 0)
      | (a', Inr userKDA) \<Rightarrow> (a', uk_Balance userKDA))"

definition GetBalance :: "account_env \<Rightarrow> bytes option \<Rightarrow> bool \<Rightarrow> userAccount \<Rightarrow> userAccount \<times> int" where
  "GetBalance e assetID cdd a =
     (if assetID = None \<or> assetID = Some KLVIdentifier then (a, ua_Balance a)
      else GetBalanceWithNonce e assetID [] cdd a)"

definition GetFrozenBalance :: "account_env \<Rightarrow> bytes option \<Rightarrow> bool \<Rightarrow> userAccount \<Rightarrow> userAccount \<times> int" where
  "GetFrozenBalance e assetID cdd a =
     (case GetUserKDA e assetID [] cdd a of
        (a', Inl _) \<Rightarrow> (a', 0)
      | (a', Inr userKDA) \<Rightarrow> (a', uk_FrozenBalance userKDA))"

definition GetBuckets ::
  "account_env \<Rightarrow> bytes option \<Rightarrow> bool \<Rightarrow> userAccount \<Rightarrow> userAccount \<times> (bytes \<times> UserBucket) list option"
where
  "GetBuckets e assetID cdd a =
     (case GetUserKDA e assetID [] cdd a of
        (a', Inl _) \<Rightarrow> (a', None)
      | (a', Inr userKDA) \<Rightarrow> (a', uk_Buckets userKDA))"

section \<open>Withdrawing and claiming\<close>

text \<open>The buckets are taken out of the asset record even when the method then fails.\<close>

definition Withdraw ::
  "account_env \<Rightarrow> bytes \<Rightarrow> int \<Rightarrow> int \<Rightarrow> UserKDA \<Rightarrow> userAccount \<Rightarrow> userAccount \<times> UserKDA \<times> (common_error + int)"
where
  "Withdraw e assetID epoch minEpochsToWithdraw userKDA a =
     (case withdrawBuckets epoch minEpochsToWithdraw (buckets userKDA) 0 of
        (withdraw, rest) \<Rightarrow>
          let userKDA1 = userKDA\<lparr>uk_Buckets := map_option (\<lambda>_. rest) (uk_Buckets userKDA)\<rparr> in
          if withdraw = 0 then (a, userKDA1, Inl ErrWithdrawNotAvailable)
          else
            let (a1, userKDA2) =
              (if assetID = KLVIdentifier then (a\<lparr>ua_Balance := i64 (ua_Balance a + withdraw)\<rparr>, userKDA1)
               else (a, userKDA1\<lparr>uk_Balance := i64 (uk_Balance userKDA1 + withdraw)\<rparr>)) in
            (case SetUserKDA e (Some assetID) [] userKDA2 a1 of
               (a2, Inl err) \<Rightarrow> (a2, userKDA2, Inl err)
             | (a2, Inr _) \<Rightarrow> (a2, userKDA2, Inr withdraw)))"

definition claimAllowance :: "userAccount \<Rightarrow> userAccount \<times> gains" where
  "claimAllowance a = (a\<lparr>ua_Allowance := 0\<rparr>, [KLVIdentifier \<mapsto> ua_Allowance a])"

definition claimStaking ::
  "(f64 \<Rightarrow> int) \<Rightarrow> ForkController \<Rightarrow> bytes \<Rightarrow> int \<Rightarrow> int \<Rightarrow> UserKDA \<Rightarrow> StakingData \<Rightarrow> common_error + StakingData \<times> gains option"
where
  "claimStaking castF64 fc assetID epoch blockTime userKDA staking =
     ComputeAvailableClaim castF64 fc assetID epoch blockTime userKDA staking"

text \<open>
  \<open>Claim\<close> changes the account, the pools of the staking data and the supply of the asset. The staking
  data is not nil: both the yearly-rate and the pool computations dereference it.
\<close>

definition Claim ::
  "(f64 \<Rightarrow> int) \<Rightarrow> ForkController \<Rightarrow> EnumClaimType \<Rightarrow> bytes \<Rightarrow> int \<Rightarrow> int \<Rightarrow> StakingData \<Rightarrow> KDAData \<Rightarrow> UserKDA \<Rightarrow>
   userAccount \<Rightarrow> common_error + userAccount \<times> StakingData \<times> KDAData \<times> gains option"
where
  "Claim castF64 fc claimType assetID epoch blockTime staking kda userKDA a =
     (case claimType of
        StakingClaim \<Rightarrow>
          if isAPRStakingWithV6 staking fc then
            bindE (claimAPRStaking fc assetID blockTime userKDA staking kda) (\<lambda>(kda', g). Inr (a, staking, kda', g))
          else
            bindE (claimStaking castF64 fc assetID epoch blockTime userKDA staking) (\<lambda>(staking', g).
              let amount = gainOf (Inr g) assetID in
              if sd_InterestType staking = APRI then
                if kd_MaxSupply kda > 0 \<and> i64 (kd_CirculatingSupply kda + amount) > kd_MaxSupply kda
                then Inl ErrMaxSupplyExceeded
                else Inr (a, staking', kda\<lparr>kd_CirculatingSupply := i64 (kd_CirculatingSupply kda + amount),
                            kd_MintedValue := i64 (kd_MintedValue kda + amount)\<rparr>, g)
              else Inr (a, staking', kda, g))
      | AllowanceClaim \<Rightarrow>
          if assetID \<noteq> KLVIdentifier then Inl ErrAssetIDInvalid
          else (case claimAllowance a of (a', g) \<Rightarrow> Inr (a', staking, kda, Some g))
      | MarketClaim \<Rightarrow> Inr (a, staking, kda, None)
      | UnknownClaim _ \<Rightarrow> Inl ErrInvalidClaimType)"

section \<open>Permissions\<close>

definition GetPermission :: "int \<Rightarrow> userAccount \<Rightarrow> common_error + Permission \<times> bool" where
  "GetPermission id' a =
     (if length (ua_Permissions a) = 0 then
        if id' = 0 then
          Inr (\<lparr>pm_ID = 0, pm_Type = Permission_Owner, pm_PermissionName = [], pm_Threshold = 1, pm_Operations = [],
                pm_Signers = [\<lparr>ky_Address = ba_address a, ky_Weight = 1\<rparr>]\<rparr>, False)
        else Inl ErrInvalidPermissionID
      else
        (case find (\<lambda>p. pm_ID p = id') (ua_Permissions a) of
           Some p \<Rightarrow> Inr (p, True)
         | None \<Rightarrow> Inl ErrInvalidPermissionID))"

definition perm_GrantedForContracts :: "Permission option \<Rightarrow> int list \<Rightarrow> bool" where
  "perm_GrantedForContracts x contractTypes =
     (case x of
        None \<Rightarrow> False
      | Some p \<Rightarrow> if pm_Type p = Permission_Owner then True
          else CheckPermissionGrantedForContracts (pm_Operations p) contractTypes)"

definition perm_GrantedForUint64 :: "Permission option \<Rightarrow> 64 word \<Rightarrow> bool" where
  "perm_GrantedForUint64 x ops =
     (case x of
        None \<Rightarrow> False
      | Some p \<Rightarrow> if pm_Type p = Permission_Owner then True
          else and ops (not (BytesToUint64LE (pm_Operations p))) = 0)"

end
