(* ===== verification/UserAccountProps.thy ===== *)
theory UserAccountProps
  imports UserAccount
begin

text \<open>
  Properties of user accounts: what the balance methods do to every balance of an account, that no
  balance ever becomes negative, and what claiming pays.
\<close>

section \<open>Stored records\<close>

text \<open>The account can read its storage: there is a cache, and its trie, if any, is well formed.\<close>

definition storage_ok :: "account_env \<Rightarrow> userAccount \<Rightarrow> bool" where
  "storage_ok e a \<longleftrightarrow>
     (case ba_dataTrieTracker a of
        None \<Rightarrow> False
      | Some t \<Rightarrow> (case td_tr t of None \<Rightarrow> True | Some tr \<Rightarrow> wf_trie (ae_trie e) tr))"

text \<open>
  The codec reads back the fields it wrote. Protobuf writes nothing for a field with its default value,
  so only a record of zeros has the empty encoding.
\<close>

definition codec_ok :: "account_env \<Rightarrow> bool" where
  "codec_ok e \<longleftrightarrow>
     (\<forall>k d. ae_marshal e k = Inr d \<longrightarrow>
        (if d = [] then uk_Balance k = 0 \<and> uk_FrozenBalance k = 0
         else \<exists>k'. ae_unmarshal e d = Inr k' \<and> uk_Balance k' = uk_Balance k \<and> uk_FrozenBalance k' = uk_FrozenBalance k)) \<and>
     (\<forall>d k. ae_unmarshal e d = Inr k \<longrightarrow> is_i64 (uk_Balance k))"

definition readKDA :: "account_env \<Rightarrow> bytes option \<Rightarrow> bytes \<Rightarrow> userAccount \<Rightarrow> common_error + UserKDA" where
  "readKDA e assetID nonce a = snd (GetUserKDA e assetID nonce True a)"

definition balanceAt :: "account_env \<Rightarrow> bytes option \<Rightarrow> bytes \<Rightarrow> userAccount \<Rightarrow> int" where
  "balanceAt e assetID nonce a = snd (GetBalanceWithNonce e assetID nonce True a)"

lemma balanceAt_eq: "balanceAt e i n a = (case readKDA e i n a of Inl _ \<Rightarrow> 0 | Inr k \<Rightarrow> uk_Balance k)"
  by (simp add: balanceAt_def readKDA_def GetBalanceWithNonce_def split: prod.splits sum.splits)

lemma RetrieveValue_snd:
  "snd (RetrieveValue extra env key t) =
     (case map_of (td_dirtyData t) key of
        Some value \<Rightarrow> trimValue value (length key + length (td_identifier t))
      | None \<Rightarrow>
        (case td_tr t of
           None \<Rightarrow> Inl ErrNilTrie
         | Some tr \<Rightarrow>
           (case snd (trie_Get extra env key tr) of
              Inl e \<Rightarrow> Inl (TrieErr e)
            | Inr value \<Rightarrow> Inr (case trimValue (slice value) (length key + length (td_identifier t)) of Inl _ \<Rightarrow> [] | Inr v \<Rightarrow> v))))"
  by (simp add: RetrieveValue_def Let_def split: option.splits prod.splits sum.splits)

lemma RetrieveValue_fst:
  "fst (RetrieveValue extra env key t) =
     (case td_tr t of
        None \<Rightarrow> t
      | Some tr \<Rightarrow> if map_of (td_dirtyData t) key = None then t\<lparr>td_tr := Some (fst (trie_Get extra env key tr))\<rparr> else t)"
  by (simp add: RetrieveValue_def Let_def split: option.splits prod.splits sum.splits)

lemma RetrieveValue_keeps:
  assumes "RetrieveValue extra env key t = (t', r)" and "\<And>tr. td_tr t = Some tr \<Longrightarrow> wf_trie env tr"
  shows "td_dirtyData t' = td_dirtyData t" "td_identifier t' = td_identifier t" "td_tr t' = None \<longleftrightarrow> td_tr t = None"
    "\<And>tr. td_tr t' = Some tr \<Longrightarrow> wf_trie env tr"
    "snd (RetrieveValue extra env key' t') = snd (RetrieveValue extra env key' t)"
proof -
  have t': "t' = fst (RetrieveValue extra env key t)" using assms(1) by simp
  show "td_dirtyData t' = td_dirtyData t" "td_identifier t' = td_identifier t" "td_tr t' = None \<longleftrightarrow> td_tr t = None"
    unfolding t' RetrieveValue_fst by (simp_all split: option.splits)
  show "wf_trie env tr" if "td_tr t' = Some tr" for tr
    using that assms(2) pmt.get_keeps [of env _ extra key] unfolding t' RetrieveValue_fst
    by (auto split: option.splits if_splits)
  show "snd (RetrieveValue extra env key' t') = snd (RetrieveValue extra env key' t)"
    using assms(2) unfolding t' RetrieveValue_fst
    by (auto simp: RetrieveValue_snd pmt.get_after_get split: option.splits sum.splits)
qed

lemma readKDA_eq:
  "readKDA e i n a =
     (case ba_dataTrieTracker a of
        None \<Rightarrow> Inl PanicNilPointer
      | Some t \<Rightarrow>
        (case snd (RetrieveValue (ae_extra e) (ae_trie e) (ToKDAKey (assetOrKLV i) n) t) of
           Inl err \<Rightarrow> if err = ErrNilTrie then Inr newUserKDA else Inl err
         | Inr v \<Rightarrow> if v = [] then Inr newUserKDA else ae_unmarshal e v))"
proof (cases "ba_dataTrieTracker a")
  case (Some t)
  obtain t' r where ret: "RetrieveValue (ae_extra e) (ae_trie e) (ToKDAKey (assetOrKLV i) n) t = (t', r)"
    by fastforce
  have "r = Inl ErrNilTrie" if "td_tr t = None" "td_dirtyData t = []"
    using arg_cong [OF ret, of snd] that by (simp add: RetrieveValue_snd)
  with Some ret show ?thesis
    by (auto simp: readKDA_def GetUserKDA_def split: sum.splits)
qed (simp add: readKDA_def GetUserKDA_def)

lemma storage_okI:
  "ba_dataTrieTracker a = Some t \<Longrightarrow> (\<And>tr. td_tr t = Some tr \<Longrightarrow> wf_trie (ae_trie e) tr) \<Longrightarrow> storage_ok e a"
  by (auto simp: storage_ok_def split: option.splits)

lemma storage_okE:
  assumes "storage_ok e a"
  obtains t where "ba_dataTrieTracker a = Some t" "\<forall>tr. td_tr t = Some tr \<longrightarrow> wf_trie (ae_trie e) tr"
proof (cases "ba_dataTrieTracker a")
  case (Some t)
  then have "\<forall>tr. td_tr t = Some tr \<longrightarrow> wf_trie (ae_trie e) tr"
    using assms by (auto simp: storage_ok_def)
  with Some show ?thesis by (rule that)
qed (use assms in \<open>simp add: storage_ok_def\<close>)

lemma GetUserKDA_keeps:
  assumes "storage_ok e a" and "GetUserKDA e i n cdd a = (a1, r)"
  shows "storage_ok e a1" "readKDA e i' n' a1 = readKDA e i' n' a" "ua_Balance a1 = ua_Balance a"
proof -
  obtain t where t: "ba_dataTrieTracker a = Some t" "\<forall>tr. td_tr t = Some tr \<longrightarrow> wf_trie (ae_trie e) tr"
    by (rule storage_okE [OF assms(1)])
  obtain t' r' where ret: "RetrieveValue (ae_extra e) (ae_trie e) (ToKDAKey (assetOrKLV i) n) t = (t', r')"
    by fastforce
  note keeps = RetrieveValue_keeps [OF ret t(2) [rule_format]]
  have a1: "a1 = a \<or> a1 = a\<lparr>ba_dataTrieTracker := Some t'\<rparr>"
    using assms(2) t(1) ret by (auto simp: GetUserKDA_def split: if_splits)
  show "storage_ok e a1"
    using a1 assms(1) by (auto intro: storage_okI [OF _ keeps(4)])
  show "readKDA e i' n' a1 = readKDA e i' n' a"
    using a1 by (auto simp: readKDA_eq t(1) keeps(5))
  show "ua_Balance a1 = ua_Balance a"
    using a1 by auto
qed

lemma SaveKeyValue_ok:
  assumes "SaveKeyValue key v t = (t', Inr ())"
  shows "td_dirtyData t' = AList.update key (v @ (if v = [] then [] else key @ td_identifier t)) (td_dirtyData t)"
    "td_tr t' = td_tr t" "td_identifier t' = td_identifier t"
  using assms by (auto simp: SaveKeyValue_def Let_def split: if_splits)

lemma SetUserKDA_reads:
  assumes "storage_ok e a" and "SetUserKDA e i n k a = (a1, Inr ())" and "codec_ok e"
  shows "storage_ok e a1" "balanceAt e i n a1 = uk_Balance k" "ua_Balance a1 = ua_Balance a"
    "ToKDAKey (assetOrKLV i') n' \<noteq> ToKDAKey (assetOrKLV i) n \<Longrightarrow> readKDA e i' n' a1 = readKDA e i' n' a"
proof -
  obtain t where t: "ba_dataTrieTracker a = Some t" "\<forall>tr. td_tr t = Some tr \<longrightarrow> wf_trie (ae_trie e) tr"
    by (rule storage_okE [OF assms(1)])
  define key where "key = ToKDAKey (assetOrKLV i) n"
  obtain d t' where d: "ae_marshal e k = Inr d" and save: "SaveKeyValue key d t = (t', Inr ())"
      and a1: "a1 = a\<lparr>ba_dataTrieTracker := Some t'\<rparr>"
    using assms(2) t(1) by (auto simp: SetUserKDA_def key_def split: sum.splits prod.splits)
  note t' = SaveKeyValue_ok [OF save]
  have key_ne: "key \<noteq> []" by (simp add: key_def ToKDAKey_unfold)
  show "storage_ok e a1" "ua_Balance a1 = ua_Balance a"
    using t(2) by (auto simp: a1 t' intro: storage_okI)
  show "readKDA e i' n' a1 = readKDA e i' n' a" if "ToKDAKey (assetOrKLV i') n' \<noteq> ToKDAKey (assetOrKLV i) n"
  proof -
    have "snd (RetrieveValue x env (ToKDAKey (assetOrKLV i') n') t') = snd (RetrieveValue x env (ToKDAKey (assetOrKLV i') n') t)" for x env
      unfolding RetrieveValue_snd t' update_conv using that by (simp add: key_def)
    then show ?thesis by (simp add: readKDA_eq a1 t(1))
  qed
  show "balanceAt e i n a1 = uk_Balance k"
  proof (cases "d = []")
    case True
    with assms(3) d have "uk_Balance k = 0" by (auto simp: codec_ok_def)
    moreover have "readKDA e i n a1 = Inl ErrNegativeValue"
      using True key_ne trimValue_empty [of key "td_identifier t"]
      by (simp add: readKDA_eq RetrieveValue_snd a1 t' update_conv flip: key_def)
    ultimately show ?thesis by (simp add: balanceAt_eq)
  next
    case False
    with assms(3) d obtain k' where "ae_unmarshal e d = Inr k'" "uk_Balance k' = uk_Balance k"
      unfolding codec_ok_def by metis
    with False show ?thesis
      by (simp add: balanceAt_eq readKDA_eq RetrieveValue_snd a1 t' update_conv trimValue_append flip: key_def)
  qed
qed

section \<open>Balances\<close>

lemma balanceAt_key: "ToKDAKey (assetOrKLV i') n' = ToKDAKey (assetOrKLV i) n \<Longrightarrow> balanceAt e i' n' a = balanceAt e i n a"
  by (cases "ba_dataTrieTracker a") (simp_all add: balanceAt_eq readKDA_eq)

text \<open>Everything the account has, as far as a reader can tell.\<close>

definition same_holdings :: "account_env \<Rightarrow> userAccount \<Rightarrow> userAccount \<Rightarrow> bool" where
  "same_holdings e a a' \<longleftrightarrow> ua_Balance a' = ua_Balance a \<and> (\<forall>i n. readKDA e i n a' = readKDA e i n a)"

text \<open>One record is replaced, and every record under another key stays.\<close>

definition only_changes :: "account_env \<Rightarrow> bytes option \<Rightarrow> bytes \<Rightarrow> int \<Rightarrow> userAccount \<Rightarrow> userAccount \<Rightarrow> bool" where
  "only_changes e i n v a a' \<longleftrightarrow> ua_Balance a' = ua_Balance a \<and> balanceAt e i n a' = v \<and>
     (\<forall>i' n'. ToKDAKey (assetOrKLV i') n' \<noteq> ToKDAKey (assetOrKLV i) n \<longrightarrow> readKDA e i' n' a' = readKDA e i' n' a)"

lemma SetUserKDA_error:
  "SetUserKDA e i n k a = (a1, Inl err) \<Longrightarrow> storage_ok e a \<Longrightarrow> storage_ok e a1 \<and> same_holdings e a a1"
  by (auto simp: SetUserKDA_def SaveKeyValue_def Let_def same_holdings_def readKDA_eq storage_ok_def
      split: sum.splits option.splits if_splits prod.splits)

text \<open>Loading a record, computing a new balance and storing it.\<close>

lemma updateBalance:
  assumes "storage_ok e a" and "codec_ok e"
    and "(case loadKDA e i n True [] a of
            (a1, Inl err) \<Rightarrow> (a1, [], Inl err)
          | (a1, Inr k) \<Rightarrow> storeBalance e er (f (uk_Balance k)) i n [] k a1) = (a', opts, r)"
  shows "storage_ok e a'" "r = Inr () \<Longrightarrow> 0 \<le> f (balanceAt e i n a) \<and> only_changes e i n (f (balanceAt e i n a)) a a'"
    "r = Inl err \<Longrightarrow> same_holdings e a a'"
proof -
  obtain a1 q where load: "GetUserKDA e i n True a = (a1, q)" by fastforce
  note keeps = GetUserKDA_keeps [OF assms(1) load]
  have q: "q = readKDA e i n a" by (simp add: readKDA_def load)
  have same: "same_holdings e a a1" by (simp add: same_holdings_def keeps)
  have "storage_ok e a' \<and> (r = Inr () \<longrightarrow> 0 \<le> f (balanceAt e i n a) \<and> only_changes e i n (f (balanceAt e i n a)) a a') \<and>
    (r = Inl err \<longrightarrow> same_holdings e a a')"
  proof (cases q)
    case (Inl er')
    then show ?thesis using assms(3) same keeps by (auto simp: loadKDA_def optKDA_def load)
  next
    case (Inr k)
    have bal: "balanceAt e i n a = uk_Balance k" using Inr q by (simp add: balanceAt_eq)
    have st: "storeBalance e er (f (balanceAt e i n a)) i n [] k a1 = (a', opts, r)"
      using assms(3) Inr by (simp add: loadKDA_def optKDA_def load bal)
    show ?thesis
    proof (cases "f (balanceAt e i n a) < 0")
      case True
      then show ?thesis using st same keeps by (auto simp: storeBalance_def)
    next
      case False
      obtain a2 r2 where set: "SetUserKDA e i n (k\<lparr>uk_Balance := f (balanceAt e i n a)\<rparr>) a1 = (a2, r2)" by fastforce
      with False st have a2: "a' = a2" "r = r2" by (auto simp: storeBalance_def Let_def)
      show ?thesis
      proof (cases r2)
        case (Inl er')
        then show ?thesis using SetUserKDA_error [of e i n _ a1 a2] set same keeps(1) a2 unfolding same_holdings_def by auto
      next
        case (Inr u)
        then have "SetUserKDA e i n (k\<lparr>uk_Balance := f (balanceAt e i n a)\<rparr>) a1 = (a2, Inr ())" using set by simp
        note reads = SetUserKDA_reads [OF keeps(1) this assms(2)]
        show ?thesis using Inr a2 False reads keeps by (auto simp: only_changes_def)
      qed
    qed
  qed
  then show "storage_ok e a'" "r = Inr () \<Longrightarrow> 0 \<le> f (balanceAt e i n a) \<and> only_changes e i n (f (balanceAt e i n a)) a a'"
    "r = Inl err \<Longrightarrow> same_holdings e a a'" by blast+
qed

datatype balance_op =
    OpAdd int "bytes option"
  | OpAddNonce int bytes bytes
  | OpSub int "bytes option"
  | OpSubNonce int bytes bytes

fun balanceOp :: "account_env \<Rightarrow> balance_op \<Rightarrow> userAccount \<Rightarrow> userAccount \<times> UserKDA option list \<times> (common_error + unit)" where
  "balanceOp e (OpAdd v i) a = AddToBalance e v i True [] a"
| "balanceOp e (OpAddNonce v i n) a = AddToBalanceWithNonce e v i n True [] a"
| "balanceOp e (OpSub v i) a = SubFromBalance e v i True [] a"
| "balanceOp e (OpSubNonce v i n) a = SubFromBalanceWithNonce e v i n True [] a"

definition native :: "bytes option \<Rightarrow> bool" where
  "native i \<longleftrightarrow> i = None \<or> i = Some KLVIdentifier"

text \<open>What an operation that succeeds does to the asset it names.\<close>

definition op_effect :: "account_env \<Rightarrow> bytes option \<Rightarrow> bytes \<Rightarrow> (int \<Rightarrow> int) \<Rightarrow> userAccount \<Rightarrow> userAccount \<Rightarrow> bool" where
  "op_effect e i n f a a' \<longleftrightarrow>
     (if native i \<and> n = [] then
        0 \<le> f (ua_Balance a) \<and> ua_Balance a' = f (ua_Balance a) \<and> (\<forall>i' n'. readKDA e i' n' a' = readKDA e i' n' a)
      else 0 \<le> f (balanceAt e i n a) \<and> only_changes e i n (f (balanceAt e i n a)) a a')"

lemma readKDA_balance [simp]: "readKDA e i n (a\<lparr>ua_Balance := x\<rparr>) = readKDA e i n a"
  by (simp add: readKDA_eq)

lemma storage_ok_balance [simp]: "storage_ok e (a\<lparr>ua_Balance := x\<rparr>) = storage_ok e a"
  by (simp add: storage_ok_def)

lemma same_holdings_refl [simp]: "same_holdings e a a"
  by (simp add: same_holdings_def)

lemma AddToBalance_effect:
  assumes "storage_ok e a" "codec_ok e" "AddToBalance e v i True [] a = (a', opts, r)"
  shows "storage_ok e a' \<and> (r = Inr () \<longrightarrow> 0 \<le> v \<and> op_effect e i [] (\<lambda>b. i64 (b + v)) a a') \<and>
    ((\<exists>err. r = Inl err) \<longrightarrow> same_holdings e a a')"
proof (cases "v < 0 \<or> native i")
  case True
  then show ?thesis
    using assms(1,3) by (auto simp: AddToBalance_def native_def op_effect_def Let_def split: if_splits)
next
  case False
  then have "(case loadKDA e i [] True [] a of
            (a1, Inl err) \<Rightarrow> (a1, [], Inl err)
          | (a1, Inr k) \<Rightarrow> storeBalance e ErrAddBalanceOverflow (i64 (uk_Balance k + v)) i [] [] k a1) = (a', opts, r)"
    using assms(3) by (auto simp: AddToBalance_def native_def)
  note upd = updateBalance [where f = "\<lambda>b. i64 (b + v)", OF assms(1,2) this]
  show ?thesis
    using False upd by (auto simp: op_effect_def)
qed

lemma SubFromBalance_effect:
  assumes "storage_ok e a" "codec_ok e" "SubFromBalance e v i True [] a = (a', opts, r)"
  shows "storage_ok e a' \<and> (r = Inr () \<longrightarrow> 0 \<le> v \<and> op_effect e i [] (\<lambda>b. i64 (b - v)) a a') \<and>
    ((\<exists>err. r = Inl err) \<longrightarrow> same_holdings e a a')"
proof (cases "v < 0 \<or> native i")
  case True
  then show ?thesis
    using assms(1,3) by (auto simp: SubFromBalance_def native_def op_effect_def Let_def split: if_splits)
next
  case False
  then have "(case loadKDA e i [] True [] a of
            (a1, Inl err) \<Rightarrow> (a1, [], Inl err)
          | (a1, Inr k) \<Rightarrow> storeBalance e ErrInsufficientFunds (i64 (uk_Balance k - v)) i [] [] k a1) = (a', opts, r)"
    using assms(3) by (auto simp: SubFromBalance_def native_def)
  note upd = updateBalance [where f = "\<lambda>b. i64 (b - v)", OF assms(1,2) this]
  show ?thesis
    using False upd by (auto simp: op_effect_def)
qed

lemma checkNonce_ne: "checkNonce n = None \<Longrightarrow> n \<noteq> []"
  by (auto simp: checkNonce_def ParseInt_def)

lemma AddToBalanceWithNonce_effect:
  assumes "storage_ok e a" "codec_ok e" "AddToBalanceWithNonce e v i n True [] a = (a', opts, r)"
  shows "storage_ok e a' \<and> (r = Inr () \<longrightarrow> 0 \<le> v \<and> (v = 0 \<and> a' = a \<or> op_effect e (Some i) n (\<lambda>b. i64 (b + v)) a a')) \<and>
    ((\<exists>err. r = Inl err) \<longrightarrow> same_holdings e a a')"
proof (cases "v \<le> 0 \<or> checkNonce n \<noteq> None")
  case True
  then show ?thesis
    using assms(1,3) by (auto simp: AddToBalanceWithNonce_def split: if_splits)
next
  case False
  then have "(case loadKDA e (Some i) n True [] a of
            (a1, Inl err) \<Rightarrow> (a1, [], Inl err)
          | (a1, Inr k) \<Rightarrow> storeBalance e ErrAddBalanceOverflow (i64 (uk_Balance k + v)) (Some i) n [] k a1) = (a', opts, r)"
    using assms(3) by (auto simp: AddToBalanceWithNonce_def)
  note upd = updateBalance [where f = "\<lambda>b. i64 (b + v)", OF assms(1,2) this]
  show ?thesis
    using False upd checkNonce_ne by (auto simp: op_effect_def)
qed

lemma SubFromBalanceWithNonce_effect:
  assumes "storage_ok e a" "codec_ok e" "SubFromBalanceWithNonce e v i n True [] a = (a', opts, r)"
  shows "storage_ok e a' \<and> (r = Inr () \<longrightarrow> 0 \<le> v \<and> op_effect e (Some i) n (\<lambda>b. i64 (b - v)) a a') \<and>
    ((\<exists>err. r = Inl err) \<longrightarrow> same_holdings e a a')"
proof (cases "v < 0 \<or> checkNonce n \<noteq> None")
  case True
  then show ?thesis
    using assms(1,3) by (auto simp: SubFromBalanceWithNonce_def split: if_splits)
next
  case False
  then have "(case loadKDA e (Some i) n True [] a of
            (a1, Inl err) \<Rightarrow> (a1, [], Inl err)
          | (a1, Inr k) \<Rightarrow> storeBalance e ErrAddBalanceOverflow (i64 (uk_Balance k - v)) (Some i) n [] k a1) = (a', opts, r)"
    using assms(3) by (auto simp: SubFromBalanceWithNonce_def)
  note upd = updateBalance [where f = "\<lambda>b. i64 (b - v)", OF assms(1,2) this]
  show ?thesis
    using False upd checkNonce_ne by (auto simp: op_effect_def)
qed

text \<open>No balance of the account is negative, and the native one is an int64.\<close>

definition solvent :: "account_env \<Rightarrow> userAccount \<Rightarrow> bool" where
  "solvent e a \<longleftrightarrow> is_i64 (ua_Balance a) \<and> 0 \<le> ua_Balance a \<and> (\<forall>i n. 0 \<le> balanceAt e i n a)"

lemma balanceAt_i64: "codec_ok e \<Longrightarrow> is_i64 (balanceAt e i n a)"
  by (auto simp: balanceAt_eq readKDA_eq newUserKDA_def codec_ok_def is_i64_def split: option.splits sum.splits)

lemma same_holdings_balanceAt: "same_holdings e a a' \<Longrightarrow> balanceAt e i n a' = balanceAt e i n a"
  by (simp add: same_holdings_def balanceAt_eq)

lemma same_holdings_solvent: "same_holdings e a a' \<Longrightarrow> solvent e a \<Longrightarrow> solvent e a'"
  by (auto simp: solvent_def same_holdings_balanceAt) (auto simp: same_holdings_def)

lemma op_effect_balanceAt:
  assumes "op_effect e i n f a a'"
  shows "balanceAt e i' n' a' = (if ToKDAKey (assetOrKLV i') n' = ToKDAKey (assetOrKLV i) n \<and> \<not> (native i \<and> n = [])
     then f (balanceAt e i n a) else balanceAt e i' n' a)"
  using assms balanceAt_key [of i' n' i n e a'] unfolding op_effect_def only_changes_def
  by (cases "ToKDAKey (assetOrKLV i') n' = ToKDAKey (assetOrKLV i) n") (auto simp: balanceAt_eq split: if_splits)

lemma op_effect_solvent:
  assumes "op_effect e i n (\<lambda>b. i64 (g b)) a a'" "solvent e a"
  shows "solvent e a'"
  using assms op_effect_balanceAt [OF assms(1)]
  by (auto simp: solvent_def op_effect_def only_changes_def split: if_splits)

lemma balanceOp_solvent:
  assumes "storage_ok e a" "codec_ok e" "solvent e a" "balanceOp e op a = (a', opts, r)"
  shows "storage_ok e a' \<and> solvent e a' \<and> ((\<exists>err. r = Inl err) \<longrightarrow> same_holdings e a a')"
proof -
  have r: "r = Inr () \<or> (\<exists>err. r = Inl err)" by (cases r) auto
  show ?thesis
  proof (cases op)
    case (OpAdd v i)
    with AddToBalance_effect [OF assms(1,2)] assms(3,4) r show ?thesis
      by (metis balanceOp.simps(1) op_effect_solvent same_holdings_solvent)
  next
    case (OpAddNonce v i n)
    with AddToBalanceWithNonce_effect [OF assms(1,2)] assms(3,4) r show ?thesis
      by (metis balanceOp.simps(2) op_effect_solvent same_holdings_solvent)
  next
    case (OpSub v i)
    with SubFromBalance_effect [OF assms(1,2)] assms(3,4) r show ?thesis
      by (metis balanceOp.simps(3) op_effect_solvent same_holdings_solvent)
  next
    case (OpSubNonce v i n)
    with SubFromBalanceWithNonce_effect [OF assms(1,2)] assms(3,4) r show ?thesis
      by (metis balanceOp.simps(4) op_effect_solvent same_holdings_solvent)
  qed
qed

text \<open>
  C10: no balance of an account ever becomes negative. Any sequence of additions and subtractions, of
  any amounts, on any assets and tokens, successful or not, keeps every balance of the account at zero
  or above, and an operation that fails changes no balance and no asset record at all.
\<close>

theorem balances_never_negative:
  assumes "codec_ok e" and "storage_ok e a" and "solvent e a"
  shows "solvent e (foldl (\<lambda>a op. fst (balanceOp e op a)) a ops) \<and>
    (\<forall>err. snd (snd (balanceOp e op a)) = Inl err \<longrightarrow> same_holdings e a (fst (balanceOp e op a)))"
proof -
  have "storage_ok e (foldl (\<lambda>a op. fst (balanceOp e op a)) a ops) \<and> solvent e (foldl (\<lambda>a op. fst (balanceOp e op a)) a ops)"
    using assms(2,3)
  proof (induction ops arbitrary: a)
    case (Cons op ops)
    obtain a' opts r where "balanceOp e op a = (a', opts, r)" by (metis prod_cases3)
    with Cons balanceOp_solvent [OF Cons.prems(1) assms(1) Cons.prems(2)] show ?case by simp
  qed simp
  moreover obtain a' opts r where "balanceOp e op a = (a', opts, r)" by (metis prod_cases3)
  ultimately show ?thesis
    using balanceOp_solvent [OF assms(2,1,3)] by auto
qed

lemma GetBalance_eq:
  "snd (GetBalance e (Some i) True a) = (if i = KLVIdentifier then ua_Balance a else balanceAt e (Some i) [] a)"
  by (simp add: GetBalance_def balanceAt_def)

lemma op_effect_GetBalance:
  assumes "op_effect e (Some i) [] f a a'"
  shows "snd (GetBalance e (Some j) True a') =
    (if j = i then f (snd (GetBalance e (Some i) True a)) else snd (GetBalance e (Some j) True a))"
proof -
  have "ToKDAKey j [] = ToKDAKey i [] \<longleftrightarrow> j = i"
    by (simp add: ToKDAKey_def)
  then show ?thesis
    using assms(1) op_effect_balanceAt [OF assms(1), of "Some j" "[]"]
    by (auto simp: GetBalance_eq native_def assetOrKLV_def op_effect_def only_changes_def split: if_splits)
qed

text \<open>
  C9: a transfer conserves the asset. When taking an amount from one account and giving it to another
  both succeed, the sender had the amount, its balance falls and the receiver's rises by exactly that
  much without wrapping around, and the balance of every other asset is unchanged in both accounts.
\<close>

theorem transfer_conserves:
  assumes "codec_ok e" and "storage_ok e a" and "storage_ok e b" and "solvent e a" and "solvent e b" and "is_i64 value"
    and "SubFromBalance e value (Some asset) True [] a = (a', opts1, Inr ())"
    and "AddToBalance e value (Some asset) True [] b = (b', opts2, Inr ())"
  defines "bal \<equiv> \<lambda>i c. snd (GetBalance e (Some i) True c)"
  shows "0 \<le> value \<and> value \<le> bal asset a \<and> bal asset a' = bal asset a - value \<and> bal asset b' = bal asset b + value \<and>
    bal asset b' \<le> MaxInt64 \<and> (\<forall>i. i \<noteq> asset \<longrightarrow> bal i a' = bal i a \<and> bal i b' = bal i b)"
proof -
  have sub: "0 \<le> value" "op_effect e (Some asset) [] (\<lambda>b. i64 (b - value)) a a'"
    using SubFromBalance_effect [OF assms(2,1,7)] by auto
  have add: "op_effect e (Some asset) [] (\<lambda>b. i64 (b + value)) b b'"
    using AddToBalance_effect [OF assms(3,1,8)] by auto
  have range: "is_i64 (bal asset c)" "0 \<le> bal asset c" if "solvent e c" for c
    using that assms(1) by (auto simp: bal_def GetBalance_eq solvent_def balanceAt_i64)
  have "0 \<le> i64 (bal asset a - value)" "0 \<le> i64 (bal asset b + value)"
    using sub(2) add by (auto simp: op_effect_def bal_def GetBalance_eq native_def split: if_splits)
  then have "i64 (bal asset a - value) = bal asset a - value" "0 \<le> bal asset a - value"
      "i64 (bal asset b + value) = bal asset b + value"
    using range assms(4-6) sub(1) by (simp_all add: i64_add_nonneg(2) i64_sub_nonneg)
  moreover have "i64 (bal asset b + value) \<le> MaxInt64"
    using is_i64_i64 [of "bal asset b + value"] by (simp add: is_i64_def MaxInt64_def)
  ultimately show ?thesis
    using sub(1) op_effect_GetBalance [OF sub(2)] op_effect_GetBalance [OF add] by (simp add: bal_def)
qed

text \<open>A codec that stores the balance in decimal, for the examples.\<close>

definition sample_codec :: account_env where
  "sample_codec =
     \<lparr>ae_extra = 0, ae_trie = sample_env,
      ae_marshal = (\<lambda>k. if uk_FrozenBalance k = 0 \<and> is_i64 (uk_Balance k) then Inr (FormatInt (uk_Balance k)) else Inl ErrMarshal),
      ae_unmarshal = (\<lambda>d. case ParseInt 64 d of
          (v, None) \<Rightarrow> if is_i64 v then Inr (newUserKDA\<lparr>uk_Balance := v\<rparr>) else Inl ErrUnmarshalData
        | _ \<Rightarrow> Inl ErrUnmarshalData)\<rparr>"

definition sample_asset :: bytes where
  "sample_asset = str ''ABC-1234''"

definition sample_sender :: userAccount where
  "sample_sender = fst (AddToBalance sample_codec 100 (Some sample_asset) True [] (NewUserAccountNoCheck [1]))"

lemma sample_format:
  "is_i64 v \<Longrightarrow> ParseInt 64 (FormatInt v) = (v, None)" "FormatInt v \<noteq> []"
  "length (FormatInt 100) = 3" "length (FormatInt 70) = 2" "length (FormatInt 30) = 2"
  by (rule ParseInt_FormatInt) (simp_all add: is_i64_def FormatInt_def fmt_nat.simps)

lemma sample_codec_ok: "codec_ok sample_codec"
  by (auto simp: codec_ok_def sample_codec_def newUserKDA_def sample_format split: if_splits prod.splits option.splits)

lemma fresh_account: "storage_ok e (NewUserAccountNoCheck x)" "solvent e (NewUserAccountNoCheck x)"
  by (simp_all add: storage_ok_def solvent_def NewUserAccountNoCheck_def NewTrackableDataTrie_def NewEmptyUserAccount_def
      balanceAt_eq readKDA_eq RetrieveValue_snd newUserKDA_def is_i64_def)

lemma sample_sender_ok: "storage_ok sample_codec sample_sender" "solvent sample_codec sample_sender"
  using balanceOp_solvent [OF fresh_account(1) sample_codec_ok fresh_account(2), of "OpAdd 100 (Some sample_asset)" "[1]"]
  unfolding sample_sender_def by (metis balanceOp.simps(1) prod.collapse)+

lemmas sample_run = sample_sender_def AddToBalance_def SubFromBalance_def loadKDA_def optKDA_def storeBalance_def GetUserKDA_def
  SetUserKDA_def NewUserAccountNoCheck_def NewTrackableDataTrie_def NewEmptyUserAccount_def sample_codec_def newUserKDA_def
  RetrieveValue_def SaveKeyValue_def trimValue_def sample_format is_i64_def GetBalance_def GetBalanceWithNonce_def MaxLeafSize_def
  update_conv

lemma sample_asset_ne: "sample_asset \<noteq> KLVIdentifier"
  by (simp add: sample_asset_def KLVIdentifier_def str_def)

lemma sample_runs:
  "snd (snd (SubFromBalance sample_codec 30 (Some sample_asset) True [] sample_sender)) = Inr ()"
  "snd (snd (SubFromBalance sample_codec 300 (Some sample_asset) True [] sample_sender)) = Inl ErrInsufficientFunds"
  "snd (snd (AddToBalance sample_codec 30 (Some sample_asset) True [] (NewUserAccountNoCheck [2]))) = Inr ()"
  "snd (GetBalance sample_codec (Some sample_asset) True sample_sender) = 100"
  "snd (GetBalance sample_codec (Some sample_asset) True (NewUserAccountNoCheck [2])) = 0"
  by (simp_all add: sample_run sample_asset_ne)

theorem transfer_conserves_witness:
  "\<exists>a' b' o1 o2. SubFromBalance sample_codec 30 (Some sample_asset) True [] sample_sender = (a', o1, Inr ()) \<and>
     AddToBalance sample_codec 30 (Some sample_asset) True [] (NewUserAccountNoCheck [2]) = (b', o2, Inr ()) \<and>
     snd (GetBalance sample_codec (Some sample_asset) True a') = 70 \<and>
     snd (GetBalance sample_codec (Some sample_asset) True b') = 30"
proof -
  obtain a' b' o1 o2 where run: "SubFromBalance sample_codec 30 (Some sample_asset) True [] sample_sender = (a', o1, Inr ())"
      "AddToBalance sample_codec 30 (Some sample_asset) True [] (NewUserAccountNoCheck [2]) = (b', o2, Inr ())"
    using sample_runs(1,3) by (metis prod.collapse)
  with transfer_conserves [OF sample_codec_ok sample_sender_ok(1) fresh_account(1) sample_sender_ok(2) fresh_account(2) _ run] sample_runs(4,5)
  show ?thesis by (simp add: is_i64_def)
qed

theorem balances_never_negative_witness:
  "solvent sample_codec (foldl (\<lambda>a op. fst (balanceOp sample_codec op a)) sample_sender [OpSub 300 (Some sample_asset)]) \<and>
   snd (snd (balanceOp sample_codec (OpSub 300 (Some sample_asset)) sample_sender)) = Inl ErrInsufficientFunds \<and>
   same_holdings sample_codec sample_sender (fst (balanceOp sample_codec (OpSub 300 (Some sample_asset)) sample_sender))"
proof -
  have "snd (snd (balanceOp sample_codec (OpSub 300 (Some sample_asset)) sample_sender)) = Inl ErrInsufficientFunds"
    by (simp add: sample_runs)
  with balances_never_negative [OF sample_codec_ok sample_sender_ok, of "[OpSub 300 (Some sample_asset)]" "OpSub 300 (Some sample_asset)"]
  show ?thesis by blast
qed

section \<open>Claiming at a yearly rate\<close>

definition gains_ok :: "gains \<Rightarrow> bool" where
  "gains_ok g \<longleftrightarrow> (\<forall>v\<in>ran g. 0 \<le> v \<and> is_i64 v)"

lemma gains_ok_upd: "gains_ok g \<Longrightarrow> 0 \<le> v \<Longrightarrow> is_i64 v \<Longrightarrow> gains_ok (g(key \<mapsto> v))"
  by (auto simp: gains_ok_def ran_def)

lemma gains_ok_at: "gains_ok g \<Longrightarrow> 0 \<le> gainAt g key \<and> is_i64 (gainAt g key)"
  by (auto simp: gains_ok_def gainAt_def ran_def is_i64_def split: option.splits)

lemma safeAdd_nonneg:
  assumes "SafeAddI64 a (ArgInt64 b) = Inr v" "is_i64 a" "is_i64 b"
  shows "v = a + b" "is_i64 v"
  using assms by (auto simp: SafeAddI64_def safeAddI64_def is_i64_def MaxInt64_def MinInt64_def split: if_splits)

lemma computeAPR_i64: "BigBucketsCompute fc \<Longrightarrow> computeAPR fc t u a r = Inr v \<Longrightarrow> is_i64 v"
  by (auto simp: computeAPR_def Let_def bigFloatInt64_def is_i64_def MaxInt64_def MinInt64_def split: if_splits)

lemma aprGains_add_ok:
  assumes "BigBucketsCompute fc" "FixAuditChangesV6 fc" "gains_ok (fst g)"
  shows "gains_ok (fst (aprGains_add fc key t u a r g))"
proof -
  obtain m err where g: "g = (m, err)" by fastforce
  show ?thesis
  proof (cases "err = None \<and> (\<exists>gain. computeAPR fc t u a r = Inr gain \<and> 0 \<le> gain)")
    case True
    then obtain gain where gain: "computeAPR fc t u a r = Inr gain" "0 \<le> gain" "err = None" by blast
    note i64 = computeAPR_i64 [OF assms(1) gain(1)] gains_ok_at [of m key]
    show ?thesis
      using assms gain g i64 safeAdd_nonneg [of "gainAt m key" gain]
      by (auto simp: aprGains_add_def is_i64_def intro!: gains_ok_upd split: sum.splits)
  next
    case False
    then show ?thesis
      using assms g by (auto simp: aprGains_add_def split: option.splits sum.splits)
  qed
qed

lemma aprLoop_ok:
  assumes "BigBucketsCompute fc" "FixAuditChangesV6 fc"
  shows "gains_ok (fst g) \<Longrightarrow> gains_ok (fst (snd (snd (aprLoop fc key bt a aprs lc r g))))"
  by (induction aprs arbitrary: lc r g) (simp_all add: aprGains_add_ok [OF assms])

lemma computeClaimAPR_ok:
  assumes "BigBucketsCompute fc" "FixAuditChangesV6 fc" "computeClaimAPR fc assetID bt k s = Inr g"
  shows "0 \<le> gainOf (Inr g) assetID \<and> is_i64 (gainOf (Inr g) assetID)"
proof (cases g)
  case None
  then show ?thesis by (simp add: gainOf_def is_i64_def)
next
  case (Some m)
  obtain a lc where run: "(case aprLoop fc assetID bt a (sd_APR s) lc 0 (Map.empty, None) of
      (l, c, g) \<Rightarrow> aprGains_result (if c > 0 then aprGains_add fc assetID l bt a c g else g)) = Inr (Some m)"
    using assms(3) Some unfolding computeClaimAPR_def by (simp split: option.splits if_splits)
  obtain l c h where loop: "aprLoop fc assetID bt a (sd_APR s) lc 0 (Map.empty, None) = (l, c, h)" by (metis prod_cases3)
  have "gains_ok (fst h)"
    using aprLoop_ok [OF assms(1,2), of "(Map.empty, None)" assetID bt a "sd_APR s" lc 0] by (simp add: loop gains_ok_def)
  moreover have "fst (if c > 0 then aprGains_add fc assetID l bt a c h else h) = m"
    using run unfolding loop by (auto simp: aprGains_result_def split: prod.splits option.splits if_splits)
  ultimately have "gains_ok m"
    using aprGains_add_ok [OF assms(1,2), of h assetID l bt a c] by (auto split: if_splits)
  with Some show ?thesis
    using gains_ok_at by (simp add: gainOf_def)
qed

text \<open>
  C18: claiming interest at a yearly rate never pushes an asset past its maximal supply. From the fork
  that checks the gains on, a claim that succeeds pays a gain that is not negative, adds exactly that
  gain to the circulating supply without wrapping around, and leaves a capped supply within its cap.
\<close>

theorem Claim_respects_supply:
  assumes "BigBucketsCompute fc" and "FixAuditChangesV6 fc" and "sd_InterestType staking = APRI"
    and "0 \<le> kd_CirculatingSupply kda" and "is_i64 (kd_CirculatingSupply kda)" and "is_i64 (kd_MaxSupply kda)"
    and "Claim castF64 fc StakingClaim assetID epoch blockTime staking kda userKDA a = Inr (a', staking', kda', gains)"
  shows "0 \<le> gainOf (Inr gains) assetID \<and>
    kd_CirculatingSupply kda' = kd_CirculatingSupply kda + gainOf (Inr gains) assetID \<and>
    (0 < kd_MaxSupply kda \<and> kd_CirculatingSupply kda \<le> kd_MaxSupply kda \<longrightarrow>
       kd_CirculatingSupply kda' \<le> kd_MaxSupply kda')"
proof -
  have v6: "isAPRStakingWithV6 staking fc" using assms(2,3) by (simp add: isAPRStakingWithV6_def)
  define gain where "gain = gainOf (Inr gains) assetID"
  have compute: "computeClaimAPR fc assetID blockTime userKDA staking = Inr gains"
      and kda': "kda' = addAPRGainToSupply kda gain"
      and kept: "APRGainDropReason fc staking kda assetID (Inr gains) = None"
    using assms(7) v6 unfolding gain_def
    by (auto simp: Claim_def claimAPRStaking_def Let_def split: option.splits sum.splits prod.splits)
  have gain: "0 \<le> gain" "is_i64 gain"
    using computeClaimAPR_ok [OF assms(1,2) compute] by (simp_all add: gain_def)
  have circ: "kd_CirculatingSupply kda' = i64 (kd_CirculatingSupply kda + gain)" "kd_MaxSupply kda' = kd_MaxSupply kda"
    by (simp_all add: kda' addAPRGainToSupply_def Let_def)
  show ?thesis
  proof (cases "gain = 0")
    case True
    then show ?thesis using circ assms(5) by (simp flip: gain_def)
  next
    case False
    then have room: "\<not> (0 < kd_MaxSupply kda \<and> i64 (kd_MaxSupply kda - kd_CirculatingSupply kda) < gain)"
        and sum: "\<exists>v. SafeAddI64 (kd_CirculatingSupply kda) (ArgInt64 gain) = Inr v"
      using kept gain(1) assms(4) v6
      by (auto simp: APRGainDropReason_def Let_def simp flip: gain_def split: if_splits sum.splits)
    have "is_i64 (kd_CirculatingSupply kda + gain)"
      using sum safeAdd_nonneg [OF _ assms(5) gain(2)] by metis
    moreover have "i64 (kd_MaxSupply kda - kd_CirculatingSupply kda) = kd_MaxSupply kda - kd_CirculatingSupply kda" if "0 < kd_MaxSupply kda"
      using that assms(4-6) by (intro i64_sub_nonneg) simp_all
    ultimately show ?thesis
      using circ gain(1) room by (auto simp flip: gain_def)
  qed
qed

definition apr_kda :: UserKDA where
  "apr_kda = newUserKDA\<lparr>uk_LastClaim := Some \<lparr>lc_Timestamp = 1, lc_Epoch = 1\<rparr>,
     uk_Buckets := Some [(sample_asset, \<lparr>ub_StakedAt = 1, ub_StakedEpoch = 1, ub_UnstakedEpoch = DefaultUnstakedEpoch, ub_Value = 100,
       ub_Delegation = None, ub_History = []\<rparr>)]\<rparr>"

definition apr_staking :: StakingData where
  "apr_staking = \<lparr>sd_InterestType = APRI, sd_APR = [\<lparr>ap_Timestamp = 0, ap_Epoch = 0, ap_Value = 10000\<rparr>], sd_FPR = [], sd_CurrentFPRAmount = 0,
     sd_TotalStaked = 100, sd_MinEpochsToClaim = 0, sd_MinEpochsToUnstake = 0, sd_MinEpochsToWithdraw = 0\<rparr>"

definition apr_supply :: KDAData where
  "apr_supply = \<lparr>kd_CirculatingSupply = 900, kd_MaxSupply = 1000, kd_MintedValue = 900\<rparr>"

lemma apr_gain: "computeClaimAPR all_forks sample_asset 31556927 apr_kda apr_staking = Inr (Some [sample_asset \<mapsto> 100])"
  by (simp add: computeClaimAPR_def apr_kda_def apr_staking_def newUserKDA_def buckets_def aprGains_add_def computeAPR_def all_forks_def
      aprGains_result_def OneYearTimestamp_def HundredPercent_def i64_def bigFloatInt64_def truncR_def gainAt_def SafeAddI64_def
      safeAddI64_def MaxInt64_def MinInt64_def Let_def)

theorem Claim_respects_supply_witness:
  "\<exists>kda' g. Claim (\<lambda>_. 0) all_forks StakingClaim sample_asset 2 31556927 apr_staking apr_supply apr_kda sample_sender =
      Inr (sample_sender, apr_staking, kda', g) \<and> gainOf (Inr g) sample_asset = 100 \<and>
      kd_CirculatingSupply kda' = 1000 \<and> kd_MaxSupply kda' = 1000"
proof -
  have v6: "isAPRStakingWithV6 apr_staking all_forks" "sd_InterestType apr_staking = APRI"
    by (simp_all add: isAPRStakingWithV6_def all_forks_def apr_staking_def)
  have g: "gainOf (Inr (Some [sample_asset \<mapsto> 100])) sample_asset = 100"
    by (simp add: gainOf_def gainAt_def)
  have "APRGainDropReason all_forks apr_staking apr_supply sample_asset (Inr (Some [sample_asset \<mapsto> 100])) = None"
    by (simp add: APRGainDropReason_def v6 g Let_def apr_supply_def i64_def SafeAddI64_def safeAddI64_def MaxInt64_def MinInt64_def)
  then have run: "Claim (\<lambda>_. 0) all_forks StakingClaim sample_asset 2 31556927 apr_staking apr_supply apr_kda sample_sender =
      Inr (sample_sender, apr_staking, addAPRGainToSupply apr_supply 100, Some [sample_asset \<mapsto> 100])"
    by (simp add: Claim_def v6 claimAPRStaking_def apr_gain g Let_def)
  have "kd_CirculatingSupply (addAPRGainToSupply apr_supply 100) = kd_CirculatingSupply apr_supply + 100"
    using Claim_respects_supply [OF _ _ v6(2) _ _ _ run] unfolding g
    by (simp add: all_forks_def apr_supply_def is_i64_def)
  then show ?thesis
    unfolding run by (simp add: g apr_supply_def addAPRGainToSupply_def Let_def)
qed

end
