(* ===== verification/TxList.thy ===== *)
theory TxList
  imports GoPrelude
begin

text \<open>
  The transactions of one sender, waiting in the pool (\<open>storage/txcache/txListForSender.go\<close> and
  \<open>wrappedTransaction.go\<close>): a linked list sorted by nonce and, within a nonce, by falling fee.

  The linked list is \<open>container/list\<close>: an element is a transaction with an identity, so that a pointer to
  an element stays meaningful while the list changes. As in the library, an element that was removed
  has neither a successor nor a predecessor. Each method holds the mutex of the list and is one step.
  The clock is read once per call. The callback that reports a changed score is returned as the
  parameters it is called with; the map of senders performs it.
\<close>

section \<open>Data\<close>

record TransactionHandler =
  tx_Sender :: bytes
  tx_Nonce :: int
  tx_TotalFees :: int
  tx_GasLimit :: int

record WrappedTransaction =
  wt_Tx :: TransactionHandler
  wt_TxHash :: bytes
  wt_Size :: int
  wt_TxFeeScoreNormalized :: int
  wt_ExpireOn :: int

record senderConstraints =
  sc_maxNumTxs :: int
  sc_maxNumBytes :: int

record senderScoreParams =
  sp_count :: int
  sp_size :: int
  sp_fees :: int

type_synonym element = "nat \<times> WrappedTransaction"

record txListForSender =
  ls_copyDetectedGap :: bool
  ls_lastComputedScore :: int
  ls_accountNonceKnown :: bool
  ls_sweepable :: bool
  ls_copyPreviousNonce :: int
  ls_sender :: bytes
  ls_items :: "element list"
  ls_copyBatchIndex :: "element option"
  ls_constraints :: senderConstraints
  ls_scoreChunk :: "nat option"
  ls_accountNonce :: int
  ls_totalBytes :: int
  ls_totalFees :: int
  ls_numFailedSelections :: int
  ls_fresh :: nat

record batchSelectionJournal =
  bj_copied :: nat
  bj_isFirstBatch :: bool
  bj_hasInitialGap :: bool
  bj_hasMiddleGap :: bool
  bj_isGracePeriod :: bool

definition sameAs :: "WrappedTransaction \<Rightarrow> WrappedTransaction \<Rightarrow> bool" where
  "sameAs tx another \<longleftrightarrow> wt_TxHash tx = wt_TxHash another"

definition estimateTxGas :: "WrappedTransaction \<Rightarrow> int" where
  "estimateTxGas tx = tx_TotalFees (wt_Tx tx)"

definition senderGracePeriodLowerBound :: int where "senderGracePeriodLowerBound = 2"
definition senderGracePeriodUpperBound :: int where "senderGracePeriodUpperBound = 2"

section \<open>Linked lists\<close>

definition elemFront :: "element list \<Rightarrow> element option" where
  "elemFront es = (case es of [] \<Rightarrow> None | e # _ \<Rightarrow> Some e)"

definition elemBack :: "element list \<Rightarrow> element option" where
  "elemBack es = (if es = [] then None else Some (last es))"

fun elemNext :: "nat \<Rightarrow> element list \<Rightarrow> element option" where
  "elemNext i (e # e' # es) = (if fst e = i then Some e' else elemNext i (e' # es))"
| "elemNext i _ = None"

fun elemPrev :: "nat \<Rightarrow> element list \<Rightarrow> element option" where
  "elemPrev i (e # e' # es) = (if fst e' = i then Some e else elemPrev i (e' # es))"
| "elemPrev i _ = None"

definition removeElem :: "nat \<Rightarrow> element list \<Rightarrow> element list" where
  "removeElem i es = filter (\<lambda>e. fst e \<noteq> i) es"

fun insertAfter :: "element \<Rightarrow> nat \<Rightarrow> element list \<Rightarrow> element list" where
  "insertAfter x i [] = []"
| "insertAfter x i (e # es) = (if fst e = i then e # x # es else e # insertAfter x i es)"

section \<open>Adding and removing\<close>

definition newTxListForSender :: "bytes \<Rightarrow> senderConstraints \<Rightarrow> txListForSender" where
  "newTxListForSender sender constraints =
     \<lparr>ls_copyDetectedGap = False, ls_lastComputedScore = 0, ls_accountNonceKnown = False, ls_sweepable = False,
      ls_copyPreviousNonce = 0, ls_sender = sender, ls_items = [], ls_copyBatchIndex = None,
      ls_constraints = constraints, ls_scoreChunk = None, ls_accountNonce = 0, ls_totalBytes = 0, ls_totalFees = 0,
      ls_numFailedSelections = 0, ls_fresh = 0\<rparr>"

definition countTx :: "txListForSender \<Rightarrow> int" where
  "countTx l = int (length (ls_items l))"

definition getUint64 :: "int \<Rightarrow> int" where
  "getUint64 v = (if v < 0 then 0 else v)"

definition getScoreParams :: "txListForSender \<Rightarrow> senderScoreParams" where
  "getScoreParams l = \<lparr>sp_count = countTx l, sp_size = getUint64 (ls_totalBytes l), sp_fees = getUint64 (ls_totalFees l)\<rparr>"

definition isCapacityExceeded :: "txListForSender \<Rightarrow> bool" where
  "isCapacityExceeded l \<longleftrightarrow>
     ls_totalBytes l > sc_maxNumBytes (ls_constraints l) \<or> countTx l > sc_maxNumTxs (ls_constraints l)"

definition onAddedTransaction :: "WrappedTransaction \<Rightarrow> txListForSender \<Rightarrow> txListForSender" where
  "onAddedTransaction tx l =
     l\<lparr>ls_totalBytes := i64 (ls_totalBytes l + wt_Size tx), ls_totalFees := i64 (ls_totalFees l + estimateTxGas tx)\<rparr>"

definition onRemovedListElement :: "element \<Rightarrow> txListForSender \<Rightarrow> txListForSender" where
  "onRemovedListElement e l =
     l\<lparr>ls_totalBytes := i64 (ls_totalBytes l - wt_Size (snd e)), ls_totalFees := i64 (ls_totalFees l - estimateTxGas (snd e))\<rparr>"

text \<open>Taking an element out of the list and of its totals, as every removal does.\<close>

definition dropElem :: "element \<Rightarrow> txListForSender \<Rightarrow> txListForSender" where
  "dropElem e l = onRemovedListElement e (l\<lparr>ls_items := removeElem (fst e) (ls_items l)\<rparr>)"

text \<open>The search runs from the back; the error is \<open>ErrItemAlreadyInCache\<close>.\<close>

fun findPlaceLoop :: "WrappedTransaction \<Rightarrow> element list \<Rightarrow> unit + element option" where
  "findPlaceLoop tx [] = Inr None"
| "findPlaceLoop tx (e # es) =
     (if sameAs tx (snd e) then Inl ()
      else if tx_Nonce (wt_Tx (snd e)) = tx_Nonce (wt_Tx tx) \<and> tx_TotalFees (wt_Tx (snd e)) > tx_TotalFees (wt_Tx tx)
      then Inr (Some e)
      else if tx_Nonce (wt_Tx (snd e)) < tx_Nonce (wt_Tx tx) then Inr (Some e)
      else findPlaceLoop tx es)"

definition findInsertionPlace :: "WrappedTransaction \<Rightarrow> txListForSender \<Rightarrow> unit + element option" where
  "findInsertionPlace tx l = findPlaceLoop tx (rev (ls_items l))"

text \<open>The loop that drops the expired transactions takes the successor before it removes an element.\<close>

fun expireLoop :: "int \<Rightarrow> element list \<Rightarrow> txListForSender \<Rightarrow> bytes list \<Rightarrow> txListForSender \<times> bytes list" where
  "expireLoop now [] l evicted = (l, evicted)"
| "expireLoop now (e # es) l evicted =
     (if wt_ExpireOn (snd e) < now then expireLoop now es (dropElem e l) (evicted @ [wt_TxHash (snd e)])
      else expireLoop now es l evicted)"

text \<open>
  The loop that shrinks the list removes an element and then asks it for its predecessor. The fuel is
  the number of elements, since each round removes one.
\<close>

fun shrinkLoop :: "nat \<Rightarrow> element option \<Rightarrow> txListForSender \<Rightarrow> bytes list \<Rightarrow> txListForSender \<times> bytes list" where
  "shrinkLoop (Suc n) (Some e) l evicted =
     (if \<not> isCapacityExceeded l then (l, evicted)
      else let l' = dropElem e l in shrinkLoop n (elemPrev (fst e) (ls_items l')) l' (evicted @ [wt_TxHash (snd e)]))"
| "shrinkLoop _ _ l evicted = (l, evicted)"

definition applySizeConstraints :: "int \<Rightarrow> txListForSender \<Rightarrow> txListForSender \<times> bytes list" where
  "applySizeConstraints now l =
     (if \<not> isCapacityExceeded l then (l, [])
      else
        (case expireLoop now (ls_items l) l [] of
           (l1, evicted) \<Rightarrow> shrinkLoop (length (ls_items l)) (elemBack (ls_items l1)) l1 evicted))"

definition AddTx ::
  "int \<Rightarrow> WrappedTransaction \<Rightarrow> txListForSender \<Rightarrow> txListForSender \<times> bool \<times> bytes list \<times> senderScoreParams option"
where
  "AddTx now tx l =
     (case findInsertionPlace tx l of
        Inl _ \<Rightarrow> (l, False, [], None)
      | Inr place \<Rightarrow>
        let new = (ls_fresh l, tx);
            items = (case place of None \<Rightarrow> new # ls_items l | Some e \<Rightarrow> insertAfter new (fst e) (ls_items l));
            l1 = onAddedTransaction tx (l\<lparr>ls_items := items, ls_fresh := Suc (ls_fresh l)\<rparr>) in
        (case applySizeConstraints now l1 of
           (l2, evicted) \<Rightarrow> (l2, True, evicted, Some (getScoreParams l2))))"

fun findElemLoop :: "WrappedTransaction \<Rightarrow> element list \<Rightarrow> element option" where
  "findElemLoop tx [] = None"
| "findElemLoop tx (e # es) =
     (if wt_TxHash (snd e) = wt_TxHash tx then Some e
      else if tx_Nonce (wt_Tx (snd e)) > tx_Nonce (wt_Tx tx) then None
      else findElemLoop tx es)"

definition findListElementWithTx :: "WrappedTransaction \<Rightarrow> txListForSender \<Rightarrow> element option" where
  "findListElementWithTx tx l = findElemLoop tx (ls_items l)"

definition RemoveTx :: "WrappedTransaction \<Rightarrow> txListForSender \<Rightarrow> txListForSender \<times> bool \<times> senderScoreParams option" where
  "RemoveTx tx l =
     (case findListElementWithTx tx l of
        None \<Rightarrow> (l, False, None)
      | Some marker \<Rightarrow> let l' = dropElem marker l in (l', True, Some (getScoreParams l')))"

definition IsEmpty :: "txListForSender \<Rightarrow> bool" where
  "IsEmpty l \<longleftrightarrow> countTx l = 0"

definition getTxHashes :: "txListForSender \<Rightarrow> bytes list" where
  "getTxHashes l = map (\<lambda>e. wt_TxHash (snd e)) (ls_items l)"

section \<open>Selecting\<close>

definition notifyAccountNonce :: "int \<Rightarrow> txListForSender \<Rightarrow> txListForSender" where
  "notifyAccountNonce nonce l = l\<lparr>ls_accountNonce := nonce, ls_accountNonceKnown := True\<rparr>"

definition getLowestNonceTx :: "txListForSender \<Rightarrow> WrappedTransaction option" where
  "getLowestNonceTx l = map_option snd (elemFront (ls_items l))"

definition hasInitialGap :: "txListForSender \<Rightarrow> bool" where
  "hasInitialGap l =
     (if \<not> ls_accountNonceKnown l then False
      else case getLowestNonceTx l of
        None \<Rightarrow> False
      | Some firstTx \<Rightarrow> tx_Nonce (wt_Tx firstTx) > ls_accountNonce l)"

definition isInGracePeriod :: "txListForSender \<Rightarrow> bool" where
  "isInGracePeriod l \<longleftrightarrow>
     ls_numFailedSelections l \<ge> senderGracePeriodLowerBound \<and> ls_numFailedSelections l \<le> senderGracePeriodUpperBound"

definition isGracePeriodExceeded :: "txListForSender \<Rightarrow> bool" where
  "isGracePeriodExceeded l \<longleftrightarrow> ls_numFailedSelections l > senderGracePeriodUpperBound"

definition verifyInitialGapOnSelectionStart :: "txListForSender \<Rightarrow> txListForSender \<times> bool" where
  "verifyInitialGapOnSelectionStart l =
     (if hasInitialGap l then
        let l1 = l\<lparr>ls_numFailedSelections := i64 (ls_numFailedSelections l + 1)\<rparr> in
        (if isGracePeriodExceeded l1 then l1\<lparr>ls_sweepable := True\<rparr> else l1, True)
      else (l\<lparr>ls_numFailedSelections := 0\<rparr>, False))"

text \<open>
  The copying loop; its first argument is the space left in the destination. It returns the copied
  transactions, the element to go on with, the last nonce and whether a gap was met.
\<close>

fun selectLoop ::
  "nat \<Rightarrow> element list \<Rightarrow> int \<Rightarrow> int \<Rightarrow> nat \<Rightarrow> int \<Rightarrow> element option \<Rightarrow> int \<Rightarrow>
   WrappedTransaction list \<times> element option \<times> int \<times> bool"
where
  "selectLoop (Suc space) items batchSize bandwidth copied copiedBandwidth (Some e) previousNonce =
     (if int copied = batchSize \<or> copiedBandwidth \<ge> bandwidth then ([], Some e, previousNonce, False)
      else if previousNonce > 0 \<and> tx_Nonce (wt_Tx (snd e)) > u64 (previousNonce + 1) then ([], Some e, previousNonce, True)
      else
        (case selectLoop space items batchSize bandwidth (Suc copied) (u64 (copiedBandwidth + tx_GasLimit (wt_Tx (snd e))))
               (elemNext (fst e) items) (tx_Nonce (wt_Tx (snd e))) of
           (txs, rest) \<Rightarrow> (snd e # txs, rest)))"
| "selectLoop _ items batchSize bandwidth copied copiedBandwidth element previousNonce = ([], element, previousNonce, False)"

definition selectBatchTo ::
  "bool \<Rightarrow> nat \<Rightarrow> int \<Rightarrow> int \<Rightarrow> txListForSender \<Rightarrow> txListForSender \<times> WrappedTransaction list \<times> batchSelectionJournal"
where
  "selectBatchTo isFirstBatch availableSpace batchSize bandwidth l =
     (let (l1, gap) = (if isFirstBatch then verifyInitialGapOnSelectionStart l else (l, False));
          l2 = (if isFirstBatch
                then l1\<lparr>ls_copyBatchIndex := elemFront (ls_items l1), ls_copyPreviousNonce := 0, ls_copyDetectedGap := gap\<rparr>
                else l1);
          detectedGap = ls_copyDetectedGap l2;
          grace = (detectedGap \<and> isFirstBatch \<and> isInGracePeriod l2);
          batchSize' = (if detectedGap then (if grace then 1 else 0) else batchSize) in
      case selectLoop availableSpace (ls_items l2) batchSize' bandwidth 0 0 (ls_copyBatchIndex l2) (ls_copyPreviousNonce l2) of
        (txs, element, previousNonce, middleGap) \<Rightarrow>
          (l2\<lparr>ls_copyDetectedGap := ls_copyDetectedGap l2 \<or> middleGap, ls_copyBatchIndex := element,
              ls_copyPreviousNonce := previousNonce\<rparr>,
           txs,
           \<lparr>bj_copied = length txs, bj_isFirstBatch = isFirstBatch, bj_hasInitialGap = gap, bj_hasMiddleGap = middleGap,
            bj_isGracePeriod = grace\<rparr>))"

end
