(* ===== verification/TxListProps.thy ===== *)
theory TxListProps
  imports TxList "HOL-Library.Multiset"
begin

text \<open>
  Properties of the list of a sender: it stays sorted and free of duplicates, its totals are those of its
  transactions, removal finds every transaction in spite of its early exit, and a selection has no
  nonce gaps.
\<close>

definition le_tx :: "WrappedTransaction \<Rightarrow> WrappedTransaction \<Rightarrow> bool" where
  "le_tx x y \<longleftrightarrow> tx_Nonce (wt_Tx x) < tx_Nonce (wt_Tx y) \<or>
     tx_Nonce (wt_Tx x) = tx_Nonce (wt_Tx y) \<and> tx_TotalFees (wt_Tx x) \<ge> tx_TotalFees (wt_Tx y)"

definition txs :: "txListForSender \<Rightarrow> WrappedTransaction list" where
  "txs l = map snd (ls_items l)"

definition list_inv :: "txListForSender \<Rightarrow> bool" where
  "list_inv l \<longleftrightarrow> sorted_wrt le_tx (txs l) \<and> distinct (map wt_TxHash (txs l)) \<and>
     distinct (map fst (ls_items l)) \<and> (\<forall>e\<in>set (ls_items l). fst e < ls_fresh l) \<and>
     ls_totalBytes l = i64 (\<Sum>t\<leftarrow>txs l. wt_Size t) \<and> ls_totalFees l = i64 (\<Sum>t\<leftarrow>txs l. estimateTxGas t)"

text \<open>A hash identifies a transaction.\<close>

definition hash_names :: "WrappedTransaction set \<Rightarrow> bool" where
  "hash_names T \<longleftrightarrow> (\<forall>x\<in>T. \<forall>y\<in>T. wt_TxHash x = wt_TxHash y \<longrightarrow> wt_Tx x = wt_Tx y)"

lemma hash_namesD: "hash_names T \<Longrightarrow> x \<in> T \<Longrightarrow> y \<in> T \<Longrightarrow> wt_TxHash x = wt_TxHash y \<Longrightarrow> wt_Tx x = wt_Tx y"
  unfolding hash_names_def by (drule (1) bspec, drule (1) bspec, erule (1) mp)

lemma hash_names_mono: "hash_names T \<Longrightarrow> T' \<subseteq> T \<Longrightarrow> hash_names T'"
  unfolding hash_names_def [of T'] by (intro ballI impI) (erule hash_namesD, auto)

lemma le_tx_trans: "le_tx x y \<Longrightarrow> le_tx y z \<Longrightarrow> le_tx x z"
  by (auto simp: le_tx_def)

section \<open>Finding the place\<close>

lemma findPlaceLoop_split:
  assumes "findPlaceLoop tx (rev es) = Inr place"
  shows "\<exists>pre post. es = pre @ post \<and> place = elemBack pre \<and>
    (\<forall>e\<in>set post. \<not> sameAs tx (snd e) \<and> le_tx tx (snd e)) \<and>
    (pre \<noteq> [] \<longrightarrow> \<not> sameAs tx (snd (last pre)) \<and> le_tx (snd (last pre)) tx \<and> \<not> le_tx tx (snd (last pre)))"
  using assms
proof (induction es rule: rev_induct)
  case Nil
  then show ?case by (simp add: elemBack_def)
next
  case (snoc e es)
  show ?case
  proof (cases "findPlaceLoop tx (rev es) = Inr place \<and> \<not> sameAs tx (snd e) \<and> le_tx tx (snd e)")
    case True
    with snoc.IH obtain pre post where "es = pre @ post" "place = elemBack pre"
        "\<forall>e\<in>set post. \<not> sameAs tx (snd e) \<and> le_tx tx (snd e)"
        "pre \<noteq> [] \<longrightarrow> \<not> sameAs tx (snd (last pre)) \<and> le_tx (snd (last pre)) tx \<and> \<not> le_tx tx (snd (last pre))"
      by blast
    with True show ?thesis by (intro exI [of _ pre] exI [of _ "post @ [e]"]) auto
  next
    case False
    with snoc.prems have "place = Some e \<and> \<not> sameAs tx (snd e) \<and> le_tx (snd e) tx \<and> \<not> le_tx tx (snd e)"
      by (auto simp: le_tx_def split: if_splits)
    then show ?thesis by (intro exI [of _ "es @ [e]"] exI [of _ "[]"]) (simp add: elemBack_def)
  qed
qed

lemma findPlaceLoop_dup: "findPlaceLoop tx (rev es) = Inl u \<Longrightarrow> \<exists>e\<in>set es. sameAs tx (snd e)"
  by (induction es rule: rev_induct) (auto split: if_splits)

lemma insertAfter_split:
  "distinct (map fst (pre @ post)) \<Longrightarrow> pre \<noteq> [] \<Longrightarrow> insertAfter x (fst (last pre)) (pre @ post) = pre @ x # post"
proof (induction pre)
  case (Cons e pre)
  show ?case
  proof (cases "pre = []")
    case False
    then have "last pre \<in> set pre" by simp
    then have "fst e \<noteq> fst (last pre)" using Cons.prems by force
    with False Cons show ?thesis by auto
  qed simp
qed simp

text \<open>A list in which the transaction is inserted at its place.\<close>

definition inserted :: "WrappedTransaction \<Rightarrow> txListForSender \<Rightarrow> txListForSender \<Rightarrow> bool" where
  "inserted tx l l1 \<longleftrightarrow> (\<exists>pre post. ls_items l = pre @ post \<and> ls_items l1 = pre @ (ls_fresh l, tx) # post)"

lemma sum_list_insert: "(\<Sum>t\<leftarrow>map snd (pre @ x # post). f t) = f (snd x) + (\<Sum>t\<leftarrow>map snd (pre @ post). f t)" for f :: "_ \<Rightarrow> int"
  by simp

lemma i64_plus_mod [simp]: "i64 (i64 a + b) = i64 (a + b)" "i64 (b + i64 a) = i64 (b + a)" "i64 (i64 a - b) = i64 (a - b)"
  by (simp_all add: i64_def mod_simps algebra_simps)

lemma hash_absent:
  assumes "list_inv l" "hash_names (insert tx (set (txs l)))" "findInsertionPlace tx l = Inr place"
  shows "wt_TxHash tx \<notin> wt_TxHash ` set (txs l)"
proof
  assume "wt_TxHash tx \<in> wt_TxHash ` set (txs l)"
  then obtain e where e: "e \<in> set (ls_items l)" "sameAs tx (snd e)" by (auto simp: txs_def sameAs_def)
  obtain pre post where split: "ls_items l = pre @ post"
      "\<forall>e\<in>set post. \<not> sameAs tx (snd e)" "pre \<noteq> [] \<longrightarrow> \<not> le_tx tx (snd (last pre))"
    using findPlaceLoop_split assms(3) unfolding findInsertionPlace_def by metis
  with e have pre: "e \<in> set pre" by auto
  then obtain xs x where x: "pre = xs @ [x]" by (cases pre rule: rev_cases) auto
  have "snd e \<in> set (txs l)" using e(1) by (simp add: txs_def)
  then have "wt_Tx tx = wt_Tx (snd e)"
    using assms(2) e(2) unfolding hash_names_def sameAs_def by blast
  moreover have "e = x \<or> le_tx (snd e) (snd x)"
    using assms(1) split(1) pre by (auto simp: list_inv_def txs_def x sorted_wrt_append)
  ultimately have "le_tx tx (snd x)" by (auto simp: le_tx_def)
  with split(3) x show False by simp
qed

section \<open>Keeping the invariant\<close>

lemma insert_inv:
  assumes "list_inv l" "hash_names (insert tx (set (txs l)))" "findInsertionPlace tx l = Inr place"
  defines "new \<equiv> (ls_fresh l, tx)"
  defines "items \<equiv> (case place of None \<Rightarrow> new # ls_items l | Some e \<Rightarrow> insertAfter new (fst e) (ls_items l))"
  defines "l1 \<equiv> onAddedTransaction tx (l\<lparr>ls_items := items, ls_fresh := Suc (ls_fresh l)\<rparr>)"
  shows "list_inv l1" "inserted tx l l1"
proof -
  obtain pre post where split: "ls_items l = pre @ post" "place = elemBack pre"
      "\<forall>e\<in>set post. le_tx tx (snd e)" "pre \<noteq> [] \<longrightarrow> le_tx (snd (last pre)) tx"
    using findPlaceLoop_split assms(3) unfolding findInsertionPlace_def by metis
  have inv: "sorted_wrt le_tx (map snd pre @ map snd post)" "distinct (map wt_TxHash (txs l))"
      "distinct (map fst (pre @ post))" "\<forall>e\<in>set (pre @ post). fst e < ls_fresh l"
    using assms(1) unfolding list_inv_def txs_def split(1) by (simp_all only: map_append) blast
  have items: "items = pre @ new # post"
    using insertAfter_split [OF inv(3), of new] by (cases "pre = []") (simp_all add: items_def split(1,2) elemBack_def)
  have "le_tx (snd e) tx" if mem: "e \<in> set pre" for e
  proof -
    obtain xs x where x: "pre = xs @ [x]" using mem by (cases pre rule: rev_cases) auto
    then have "e = x \<or> le_tx (snd e) (snd x)" using inv(1) mem by (auto simp: sorted_wrt_append)
    then show ?thesis using split(4) x le_tx_trans by auto
  qed
  then have "sorted_wrt le_tx (map snd items)"
    using inv(1) split(3) by (auto simp: items new_def sorted_wrt_append)
  moreover have "distinct (map wt_TxHash (map snd items))"
    using inv(2) hash_absent [OF assms(1-3)] by (auto simp: items new_def txs_def split(1))
  moreover have "ls_fresh l \<notin> fst ` set (pre @ post)" using inv(4) by fastforce
  then have "distinct (map fst items)" using inv(3) by (simp add: items new_def image_Un)
  moreover have "\<forall>e\<in>set items. fst e < Suc (ls_fresh l)" 
  proof
    fix e assume "e \<in> set items"
    then have "e = new \<or> e \<in> set (pre @ post)" by (auto simp: items)
    then show "fst e < Suc (ls_fresh l)" using inv(4) less_SucI by (auto simp: new_def simp del: set_append)
  qed
  moreover have "ls_totalBytes l = i64 (\<Sum>t\<leftarrow>txs l. wt_Size t)" "ls_totalFees l = i64 (\<Sum>t\<leftarrow>txs l. estimateTxGas t)"
    using assms(1) by (simp_all add: list_inv_def)
  ultimately show "list_inv l1"
    by (simp add: list_inv_def l1_def onAddedTransaction_def txs_def items new_def split(1) algebra_simps)
  show "inserted tx l l1"
    unfolding inserted_def by (intro exI [of _ pre] exI [of _ post]) (simp add: l1_def onAddedTransaction_def items new_def split(1))
qed

lemma removeElem_split:
  assumes "distinct (map fst es)" "e \<in> set es"
  obtains pre post where "es = pre @ e # post" "removeElem (fst e) es = pre @ post"
proof -
  obtain pre post where split: "es = pre @ e # post" using split_list [OF assms(2)] by blast
  then have "fst e \<notin> fst ` set pre" "fst e \<notin> fst ` set post" using assms(1) by simp_all
  then have "filter (\<lambda>x. fst x \<noteq> fst e) pre = pre" "filter (\<lambda>x. fst x \<noteq> fst e) post = post"
    unfolding filter_id_conv by (metis imageI)+
  then have "removeElem (fst e) es = pre @ post" by (simp add: removeElem_def split)
  with split that show ?thesis by blast
qed

lemma dropElem_inv:
  assumes "list_inv l" "e \<in> set (ls_items l)"
  shows "list_inv (dropElem e l)" "ls_items (dropElem e l) = removeElem (fst e) (ls_items l)"
    "ls_constraints (dropElem e l) = ls_constraints l"
proof -
  obtain pre post where split: "ls_items l = pre @ e # post" "removeElem (fst e) (ls_items l) = pre @ post"
    using removeElem_split [OF _ assms(2)] assms(1) unfolding list_inv_def by metis
  show "list_inv (dropElem e l)"
    using assms(1) by (simp add: list_inv_def dropElem_def onRemovedListElement_def txs_def split(1) split(2) [unfolded split(1)]
        sorted_wrt_append algebra_simps)
  show "ls_items (dropElem e l) = removeElem (fst e) (ls_items l)" "ls_constraints (dropElem e l) = ls_constraints l"
    by (simp_all add: dropElem_def onRemovedListElement_def)
qed

definition expired :: "int \<Rightarrow> element \<Rightarrow> bool" where
  "expired now e \<longleftrightarrow> wt_ExpireOn (snd e) < now"

lemma expireLoop_inv:
  assumes "list_inv l" "set es \<subseteq> set (ls_items l)" "distinct (map fst es)"
  shows "list_inv (fst (expireLoop now es l ev)) \<and>
    ls_items (fst (expireLoop now es l ev)) = filter (\<lambda>e. \<not> (e \<in> set es \<and> expired now e)) (ls_items l) \<and>
    snd (expireLoop now es l ev) = ev @ map (\<lambda>e. wt_TxHash (snd e)) (filter (expired now) es) \<and>
    ls_constraints (fst (expireLoop now es l ev)) = ls_constraints l"
  using assms
proof (induction es arbitrary: l ev)
  case (Cons e es)
  show ?case
  proof (cases "expired now e")
    case True
    have e: "e \<in> set (ls_items l)" using Cons.prems(2) by simp
    note drop = dropElem_inv [OF Cons.prems(1) e]
    have "distinct (map fst (ls_items l))" using Cons.prems(1) by (simp add: list_inv_def)
    then have same: "x = e" if "x \<in> set (ls_items l)" "fst x = fst e" for x
      using e that by (metis distinct_map inj_on_def)
    then have items: "ls_items (dropElem e l) = filter (\<lambda>x. x \<noteq> e) (ls_items l)"
      unfolding drop(2) removeElem_def by (intro filter_cong) auto
    have "set es \<subseteq> set (ls_items (dropElem e l))"
      using Cons.prems(2,3) by (force simp: items)
    from Cons.IH [OF drop(1) this] Cons.prems(3) True drop(3)
    show ?thesis by (auto simp: expired_def items intro: filter_cong)
  next
    case False
    then have *: "(x = e \<or> x \<in> set es) \<and> expired now x \<longleftrightarrow> x \<in> set es \<and> expired now x" for x by auto
    from Cons False show ?thesis by (simp add: expired_def *[unfolded expired_def])
  qed
qed simp

lemma elemPrev_absent: "i \<notin> fst ` set es \<Longrightarrow> elemPrev i es = None"
  by (induction i es rule: elemPrev.induct) auto

lemma shrinkLoop_once:
  "shrinkLoop (Suc n) (elemBack (ls_items l)) l ev =
     (if ls_items l = [] \<or> \<not> isCapacityExceeded l then (l, ev)
      else (dropElem (last (ls_items l)) l, ev @ [wt_TxHash (snd (last (ls_items l)))]))"
proof -
  have "elemPrev i (removeElem i es) = None" for i es
    by (rule elemPrev_absent) (auto simp: removeElem_def)
  then have "elemPrev (fst e) (ls_items (dropElem e l)) = None" for e
    by (simp add: dropElem_def onRemovedListElement_def)
  moreover have "shrinkLoop k None m r = (m, r)" for k m r by (cases k) simp_all
  ultimately show ?thesis by (simp add: elemBack_def Let_def)
qed

section \<open>Adding and removing\<close>

definition hashes :: "txListForSender \<Rightarrow> bytes list" where
  "hashes l = map wt_TxHash (txs l)"

text \<open>What is left of a list when it is cut to its limits.\<close>

definition cut :: "int \<Rightarrow> txListForSender \<Rightarrow> element list" where
  "cut now l =
     (let live = filter (\<lambda>e. \<not> expired now e) (ls_items l);
          l1 = fst (expireLoop now (ls_items l) l []) in
      if isCapacityExceeded l then (if isCapacityExceeded l1 then butlast live else live) else ls_items l)"

lemma removeElem_last:
  assumes "distinct (map fst es)" "es \<noteq> []"
  shows "removeElem (fst (last es)) es = butlast es"
proof -
  obtain xs x where es: "es = xs @ [x]" using assms(2) by (cases es rule: rev_cases) auto
  then have "fst x \<notin> fst ` set xs" using assms(1) by simp
  then have "filter (\<lambda>e. fst e \<noteq> fst x) xs = xs" unfolding filter_id_conv by (metis imageI)
  then show ?thesis by (simp add: es removeElem_def)
qed

lemma mset_hash_live:
  "mset (map f (filter (\<lambda>x. \<not> P x) xs)) + mset (map f (filter P xs)) = mset (map f xs)"
  by (induction xs) simp_all

lemma applySizeConstraints_inv:
  assumes "list_inv l"
  shows "list_inv (fst (applySizeConstraints now l)) \<and> ls_items (fst (applySizeConstraints now l)) = cut now l \<and>
    mset (hashes (fst (applySizeConstraints now l))) + mset (snd (applySizeConstraints now l)) = mset (hashes l)"
proof (cases "isCapacityExceeded l")
  case True
  obtain l1 ev where run: "expireLoop now (ls_items l) l [] = (l1, ev)" by fastforce
  have dist: "distinct (map fst (ls_items l))" using assms by (simp add: list_inv_def)
  have l1: "list_inv l1" "ls_items l1 = filter (\<lambda>e. \<not> expired now e) (ls_items l)"
      "ev = map (\<lambda>e. wt_TxHash (snd e)) (filter (expired now) (ls_items l))"
    using expireLoop_inv [OF assms _ dist, of now "[]"] run by (auto cong: filter_cong)
  have m: "mset (hashes l1) + mset ev = mset (hashes l)"
    using mset_hash_live [of "\<lambda>e. wt_TxHash (snd e)" "expired now" "ls_items l"] by (simp add: hashes_def txs_def l1 o_def)
  obtain n where n: "length (ls_items l) = Suc n \<or> ls_items l1 = []"
    using l1(2) by (cases "ls_items l") auto
  have shrink: "applySizeConstraints now l = (if ls_items l1 = [] \<or> \<not> isCapacityExceeded l1 then (l1, ev)
      else (dropElem (last (ls_items l1)) l1, ev @ [wt_TxHash (snd (last (ls_items l1)))]))"
    using True n shrinkLoop_once [of n l1 ev] unfolding applySizeConstraints_def run
    by (auto simp: elemBack_def)
  show ?thesis
  proof (cases "ls_items l1 = [] \<or> \<not> isCapacityExceeded l1")
    case True
    then show ?thesis using shrink l1(1,2) m \<open>isCapacityExceeded l\<close> by (auto simp: cut_def run)
  next
    case False
    define e where "e = last (ls_items l1)"
    have e: "e \<in> set (ls_items l1)" "ls_items l1 = butlast (ls_items l1) @ [e]" using False by (simp_all add: e_def)
    have items: "ls_items (dropElem e l1) = butlast (ls_items l1)"
      using dropElem_inv(2) [OF l1(1) e(1)] removeElem_last [of "ls_items l1"] l1(1) False by (simp add: e_def list_inv_def)
    have "mset (hashes l1) = mset (hashes (dropElem e l1)) + {#wt_TxHash (snd e)#}"
      using e(2) unfolding hashes_def txs_def items by (metis map_append mset_append list.simps(8,9) mset.simps)
    moreover have "applySizeConstraints now l = (dropElem e l1, ev @ [wt_TxHash (snd e)])"
      using shrink False by (simp add: e_def)
    moreover have "cut now l = butlast (ls_items l1)"
      using False \<open>isCapacityExceeded l\<close> by (simp add: cut_def run l1(2))
    ultimately show ?thesis
      using m items dropElem_inv(1) [OF l1(1) e(1)] by (simp add: ac_simps)
  qed
qed (simp add: applySizeConstraints_def cut_def assms)

lemma cut_subset: "set (cut now l) \<subseteq> set (ls_items l)"
  by (auto simp: cut_def Let_def dest: in_set_butlastD)

lemma AddTx_step:
  assumes "list_inv l" "hash_names (insert tx (set (txs l)))" "AddTx now tx l = (l', added, evicted, score)"
  shows "list_inv l'" "added \<longleftrightarrow> wt_TxHash tx \<notin> set (hashes l)" "\<not> added \<Longrightarrow> l' = l \<and> evicted = []"
    "added \<Longrightarrow> mset (hashes l') + mset evicted = add_mset (wt_TxHash tx) (mset (hashes l))"
    "set (txs l') \<subseteq> insert tx (set (txs l))"
    "added \<Longrightarrow> \<exists>l1. inserted tx l l1 \<and> list_inv l1 \<and> ls_constraints l1 = ls_constraints l \<and> ls_items l' = cut now l1"
proof -
  have "list_inv l' \<and> (added \<longleftrightarrow> wt_TxHash tx \<notin> set (hashes l)) \<and> (\<not> added \<longrightarrow> l' = l \<and> evicted = []) \<and>
    (added \<longrightarrow> mset (hashes l') + mset evicted = add_mset (wt_TxHash tx) (mset (hashes l)) \<and>
      (\<exists>l1. inserted tx l l1 \<and> list_inv l1 \<and> ls_constraints l1 = ls_constraints l \<and> ls_items l' = cut now l1)) \<and>
    set (txs l') \<subseteq> insert tx (set (txs l))"
  proof (cases "findInsertionPlace tx l")
    case (Inl u)
    then have "\<exists>e\<in>set (ls_items l). sameAs tx (snd e)"
      using findPlaceLoop_dup by (simp add: findInsertionPlace_def)
    then have "wt_TxHash tx \<in> set (hashes l)" by (auto simp: hashes_def txs_def sameAs_def)
    with Inl assms(1,3) show ?thesis by (auto simp: AddTx_def)
  next
    case (Inr place)
    note ins = insert_inv [OF assms(1,2) Inr]
    define l1 where "l1 = onAddedTransaction tx (l\<lparr>ls_items := (case place of None \<Rightarrow> (ls_fresh l, tx) # ls_items l
        | Some e \<Rightarrow> insertAfter (ls_fresh l, tx) (fst e) (ls_items l)), ls_fresh := Suc (ls_fresh l)\<rparr>)"
    have l1: "list_inv l1" "inserted tx l l1" "ls_constraints l1 = ls_constraints l"
      using ins by (simp_all add: l1_def onAddedTransaction_def)
    note cons = applySizeConstraints_inv [OF l1(1), of now]
    have run: "l' = fst (applySizeConstraints now l1)" "added" "evicted = snd (applySizeConstraints now l1)"
      using assms(3) Inr by (auto simp: AddTx_def Let_def l1_def split: prod.splits)
    have m: "mset (hashes l1) = add_mset (wt_TxHash tx) (mset (hashes l))" "set (txs l1) = insert tx (set (txs l))"
      using l1(2) by (auto simp: inserted_def hashes_def txs_def)
    moreover have "set (txs l') \<subseteq> set (txs l1)"
      using cut_subset [of now l1] cons by (auto simp: run(1) txs_def)
    moreover have "wt_TxHash tx \<notin> set (hashes l)"
      using hash_absent [OF assms(1,2) Inr] by (simp add: hashes_def)
    moreover have "mset (hashes l') + mset evicted = mset (hashes l1)" "list_inv l'" "ls_items l' = cut now l1"
      using cons by (simp_all add: run)
    ultimately show ?thesis
      using run(2) l1 by metis
  qed
  then show "list_inv l'" "added \<longleftrightarrow> wt_TxHash tx \<notin> set (hashes l)" "\<not> added \<Longrightarrow> l' = l \<and> evicted = []"
    "added \<Longrightarrow> mset (hashes l') + mset evicted = add_mset (wt_TxHash tx) (mset (hashes l))"
    "set (txs l') \<subseteq> insert tx (set (txs l))"
    "added \<Longrightarrow> \<exists>l1. inserted tx l l1 \<and> list_inv l1 \<and> ls_constraints l1 = ls_constraints l \<and> ls_items l' = cut now l1"
    by blast+
qed

lemma findElemLoop_complete:
  assumes "sorted_wrt le_tx (map snd es)" "hash_names (insert tx (snd ` set es))"
  shows "(\<forall>e. findElemLoop tx es = Some e \<longrightarrow> e \<in> set es \<and> wt_TxHash (snd e) = wt_TxHash tx) \<and>
    (findElemLoop tx es = None \<longrightarrow> wt_TxHash tx \<notin> wt_TxHash ` snd ` set es)"
  using assms
proof (induction es)
  case (Cons e es)
  have names: "hash_names (insert tx (snd ` set es))"
    by (rule hash_names_mono [OF Cons.prems(2)]) auto
  have IH: "(\<forall>e. findElemLoop tx es = Some e \<longrightarrow> e \<in> set es \<and> wt_TxHash (snd e) = wt_TxHash tx) \<and>
      (findElemLoop tx es = None \<longrightarrow> wt_TxHash tx \<notin> wt_TxHash ` snd ` set es)"
    using Cons.IH Cons.prems(1) names by simp
  show ?case
  proof (cases "wt_TxHash (snd e) \<noteq> wt_TxHash tx \<and> tx_Nonce (wt_Tx (snd e)) > tx_Nonce (wt_Tx tx)")
    case True
    have "wt_TxHash tx \<noteq> wt_TxHash (snd x)" if "x \<in> set es" for x
    proof
      assume "wt_TxHash tx = wt_TxHash (snd x)"
      moreover have "snd x \<in> insert tx (snd ` set es)" using that by simp
      ultimately have "wt_Tx tx = wt_Tx (snd x)"
        using hash_namesD [OF names] by blast
      moreover have "le_tx (snd e) (snd x)" using Cons.prems(1) that by simp
      ultimately show False using True by (auto simp: le_tx_def)
    qed
    with True show ?thesis by auto
  next
    case False
    with IH show ?thesis by auto
  qed
qed simp

lemma RemoveTx_step:
  assumes "list_inv l" "hash_names (insert tx (set (txs l)))" "RemoveTx tx l = (l', found, score)"
  shows "list_inv l'" "found \<longleftrightarrow> wt_TxHash tx \<in> set (hashes l)" "txs l' = filter (\<lambda>t. wt_TxHash t \<noteq> wt_TxHash tx) (txs l)"
proof -
  have "list_inv l' \<and> (found \<longleftrightarrow> wt_TxHash tx \<in> set (hashes l)) \<and> txs l' = filter (\<lambda>t. wt_TxHash t \<noteq> wt_TxHash tx) (txs l)"
  proof (cases "findElemLoop tx (ls_items l)")
    case None
    then have "wt_TxHash tx \<notin> wt_TxHash ` snd ` set (ls_items l)"
      using findElemLoop_complete [of "ls_items l" tx] assms(1,2) by (simp add: list_inv_def txs_def)
    moreover from this have "filter (\<lambda>t. wt_TxHash t \<noteq> wt_TxHash tx) (txs l) = txs l"
      by (auto simp: filter_id_conv txs_def image_iff)
    ultimately show ?thesis
      using assms(1,3) None by (auto simp: RemoveTx_def findListElementWithTx_def hashes_def txs_def)
  next
    case (Some e)
    have e: "e \<in> set (ls_items l)" "wt_TxHash (snd e) = wt_TxHash tx"
      using findElemLoop_complete [of "ls_items l" tx] assms(1,2) Some by (simp_all add: list_inv_def txs_def)
    have l': "l' = dropElem e l" "found"
      using assms(3) Some by (auto simp: RemoveTx_def findListElementWithTx_def Let_def)
    obtain pre post where split: "ls_items l = pre @ e # post" "removeElem (fst e) (ls_items l) = pre @ post"
      using removeElem_split [OF _ e(1)] assms(1) unfolding list_inv_def by metis
    have "wt_TxHash tx \<notin> wt_TxHash ` set (map snd pre)" "wt_TxHash tx \<notin> wt_TxHash ` set (map snd post)"
      using assms(1) e(2) by (auto simp: list_inv_def txs_def split(1))
    then have "filter (\<lambda>t. wt_TxHash t \<noteq> wt_TxHash tx) (map snd pre) = map snd pre"
        "filter (\<lambda>t. wt_TxHash t \<noteq> wt_TxHash tx) (map snd post) = map snd post"
      unfolding filter_id_conv by (metis imageI)+
    then show ?thesis
      using dropElem_inv [OF assms(1) e(1)] e l' by (auto simp: txs_def split(1) split(2) [unfolded split(1)] hashes_def)
  qed
  then show "list_inv l'" "found \<longleftrightarrow> wt_TxHash tx \<in> set (hashes l)" "txs l' = filter (\<lambda>t. wt_TxHash t \<noteq> wt_TxHash tx) (txs l)"
    by blast+
qed

text \<open>
  C22: adding keeps the list of a sender sorted by nonce, by falling fee within a nonce, without
  duplicates and with exact totals. The transaction is added exactly when its hash is not in the list
  yet, at the one place the order leaves for it, and every transaction that is not in the list
  afterwards is reported as evicted.
\<close>

theorem AddTx_correct:
  assumes "list_inv l" and "hash_names (insert tx (set (txs l)))" and "AddTx now tx l = (l', added, evicted, score)"
  shows "list_inv l' \<and> (added \<longleftrightarrow> wt_TxHash tx \<notin> set (hashes l)) \<and>
    (if added then mset (hashes l') + mset evicted = add_mset (wt_TxHash tx) (mset (hashes l)) \<and> set (txs l') \<subseteq> insert tx (set (txs l))
     else l' = l \<and> evicted = [])"
  using AddTx_step [OF assms] by (cases added) auto

text \<open>
  C23: the search of a removal stops at the first higher nonce, and still finds every transaction. A
  removal succeeds exactly when the hash is in the list, and takes out that transaction alone.
\<close>

theorem RemoveTx_correct:
  assumes "list_inv l" and "hash_names (insert tx (set (txs l)))" and "RemoveTx tx l = (l', found, score)"
  shows "list_inv l' \<and> (found \<longleftrightarrow> wt_TxHash tx \<in> set (hashes l)) \<and>
    txs l' = filter (\<lambda>t. wt_TxHash t \<noteq> wt_TxHash tx) (txs l)"
  using RemoveTx_step [OF assms] by blast

text \<open>
  C25: cutting a list that is over its limits drops the expired transactions and then at most one more,
  the last. One round of the shrinking loop takes the element out of the list before it asks the element
  for its predecessor, which a removed element does not have; so the list may stay over its limits.
\<close>

theorem applySizeConstraints_drops_one:
  assumes "list_inv l" and "isCapacityExceeded l"
  shows "let l' = fst (applySizeConstraints now l); live = filter (\<lambda>e. \<not> expired now e) (ls_items l) in
    list_inv l' \<and> (ls_items l' = live \<or> ls_items l' = butlast live)"
  using applySizeConstraints_inv [OF assms(1), of now] assms(2) by (simp add: Let_def cut_def)

definition sample_tx :: "int \<Rightarrow> int \<Rightarrow> int \<Rightarrow> byte \<Rightarrow> WrappedTransaction" where
  "sample_tx nonce fee sz h =
     \<lparr>wt_Tx = \<lparr>tx_Sender = [1], tx_Nonce = nonce, tx_TotalFees = fee, tx_GasLimit = 1\<rparr>, wt_TxHash = [h], wt_Size = sz,
      wt_TxFeeScoreNormalized = 0, wt_ExpireOn = 100\<rparr>"

definition sample_list :: txListForSender where
  "sample_list = (newTxListForSender [1] \<lparr>sc_maxNumTxs = 10, sc_maxNumBytes = 30\<rparr>)
     \<lparr>ls_items := [(0, sample_tx 4 9 10 4), (1, sample_tx 5 9 10 5), (2, sample_tx 6 9 10 6)], ls_totalBytes := 30, ls_totalFees := 27,
      ls_fresh := 3\<rparr>"

lemma sample_list_inv: "list_inv sample_list"
  by (simp add: list_inv_def txs_def sample_list_def newTxListForSender_def sample_tx_def le_tx_def estimateTxGas_def i64_def)

lemma sample_names: "hash_names (insert (sample_tx 5 7 1 7) (set (txs sample_list)))" "hash_names (insert (sample_tx 5 9 10 5) (set (txs sample_list)))"
  by (simp_all add: hash_names_def txs_def sample_list_def newTxListForSender_def sample_tx_def)

lemmas tx_sample_defs = sample_list_def newTxListForSender_def sample_tx_def AddTx_def findInsertionPlace_def sameAs_def insertAfter.simps
  onAddedTransaction_def estimateTxGas_def applySizeConstraints_def isCapacityExceeded_def countTx_def getScoreParams_def
  dropElem_def onRemovedListElement_def removeElem_def elemBack_def i64_def

theorem AddTx_correct_witness:
  "\<exists>l' ev s. AddTx 50 (sample_tx 5 7 1 7) sample_list = (l', True, ev, s) \<and> list_inv l' \<and>
     mset (hashes l') + mset ev = add_mset [7] (mset [[4], [5], [6]])"
proof -
  obtain l' added ev s where run: "AddTx 50 (sample_tx 5 7 1 7) sample_list = (l', added, ev, s)" by (metis prod_cases4)
  have "wt_TxHash (sample_tx 5 7 1 7) = [7]" "hashes sample_list = [[4], [5], [6]]"
    by (simp_all add: hashes_def txs_def sample_list_def newTxListForSender_def sample_tx_def)
  with AddTx_correct [OF sample_list_inv sample_names(1) run] run show ?thesis
    by (cases added) auto
qed

theorem RemoveTx_correct_witness:
  "\<exists>l' s. RemoveTx (sample_tx 5 9 10 5) sample_list = (l', True, s) \<and> map wt_TxHash (txs l') = [[4], [6]]"
proof -
  obtain l' found s where run: "RemoveTx (sample_tx 5 9 10 5) sample_list = (l', found, s)" by (metis prod_cases3)
  have "wt_TxHash (sample_tx 5 9 10 5) = [5]" "hashes sample_list = [[4], [5], [6]]"
      "txs sample_list = [sample_tx 4 9 10 4, sample_tx 5 9 10 5, sample_tx 6 9 10 6]"
    by (simp_all add: hashes_def txs_def sample_list_def newTxListForSender_def sample_tx_def)
  with RemoveTx_correct [OF sample_list_inv sample_names(2) run] run show ?thesis
    by (auto simp: sample_tx_def)
qed

definition big_list :: txListForSender where
  "big_list = sample_list\<lparr>ls_items := [(3, sample_tx 3 9 25 3), (0, sample_tx 4 9 10 4), (1, sample_tx 5 9 10 5), (2, sample_tx 6 9 10 6)],
     ls_totalBytes := 55, ls_totalFees := 36, ls_fresh := 4\<rparr>"

theorem applySizeConstraints_drops_one_witness:
  "length (ls_items (fst (applySizeConstraints 50 big_list))) = 3 \<and> isCapacityExceeded (fst (applySizeConstraints 50 big_list))"
proof -
  have "list_inv big_list" "isCapacityExceeded big_list"
    by (simp_all add: list_inv_def txs_def big_list_def le_tx_def tx_sample_defs)
  from applySizeConstraints_drops_one [OF this, of 50]
  have "length (ls_items (fst (applySizeConstraints 50 big_list))) \<ge> 3"
    by (auto simp: Let_def expired_def big_list_def sample_tx_def)
  moreover have "length (ls_items (fst (applySizeConstraints 50 big_list))) = 3" "isCapacityExceeded (fst (applySizeConstraints 50 big_list))"
    by (simp_all add: big_list_def tx_sample_defs numeral_eq_Suc Let_def)
  ultimately show ?thesis by blast
qed

section \<open>Selecting\<close>

text \<open>No nonce is skipped, counting from a previous one; after the nonce zero the code does not look.\<close>

primrec gapfree :: "int \<Rightarrow> WrappedTransaction list \<Rightarrow> bool" where
  "gapfree p [] = True"
| "gapfree p (t # ts) = ((p = 0 \<or> tx_Nonce (wt_Tx t) \<le> p + 1) \<and> gapfree (tx_Nonce (wt_Tx t)) ts)"

definition lastNonce :: "int \<Rightarrow> WrappedTransaction list \<Rightarrow> int" where
  "lastNonce p ts = (if ts = [] then p else tx_Nonce (wt_Tx (last ts)))"

lemma gapfree_append: "gapfree p (xs @ ys) \<longleftrightarrow> gapfree p xs \<and> gapfree (lastNonce p xs) ys"
  by (induction xs arbitrary: p) (simp_all add: lastNonce_def)

lemma lastNonce_append: "lastNonce p (xs @ ys) = lastNonce (lastNonce p xs) ys"
  by (simp add: lastNonce_def)

definition ptr :: "element list \<Rightarrow> nat \<Rightarrow> element option" where
  "ptr items k = (if k < length items then Some (items ! k) else None)"

lemma elemNext_ptr:
  assumes "distinct (map fst items)" "k < length items"
  shows "elemNext (fst (items ! k)) items = ptr items (Suc k)"
  using assms
proof (induction items arbitrary: k)
  case (Cons e es)
  show ?case
  proof (cases k)
    case 0
    then show ?thesis by (cases es) (simp_all add: ptr_def)
  next
    case (Suc j)
    then have j: "j < length es" using Cons.prems(2) by simp
    then have "fst e \<noteq> fst (es ! j)" using Cons.prems(1) by (auto simp: image_iff)
    with Cons j Suc show ?thesis by (cases es) (auto simp: ptr_def)
  qed
qed simp

lemma u64_Suc_le: "0 < p \<Longrightarrow> u64 (p + 1) \<le> p + 1"
  by (simp add: u64_def zmod_le_nonneg_dividend)

lemma selectLoop_prefix:
  assumes "distinct (map fst items)"
    and "selectLoop space items batchSize bandwidth copied cb (ptr items k) prev = (ts, el, prev', gap)"
    and "\<forall>e\<in>set items. 0 \<le> tx_Nonce (wt_Tx (snd e))" "0 \<le> prev"
  shows "ts = map snd (take (length ts) (drop k items)) \<and> el = ptr items (k + length ts) \<and> prev' = lastNonce prev ts \<and>
    gapfree prev ts \<and> length ts \<le> space \<and> (int copied \<le> batchSize \<longrightarrow> int (length ts) \<le> batchSize - int copied)"
  using assms(2,4)
proof (induction space arbitrary: copied cb k prev ts)
  case 0
  then show ?case by (simp add: lastNonce_def)
next
  case (Suc space)
  show ?case
  proof (cases "k < length items")
    case False
    then show ?thesis using Suc.prems by (simp add: ptr_def lastNonce_def)
  next
    case k: True
    define e where "e = items ! k"
    have pe: "ptr items k = Some e" using k by (simp add: ptr_def e_def)
    show ?thesis
    proof (cases "int copied = batchSize \<or> cb \<ge> bandwidth \<or> (prev > 0 \<and> tx_Nonce (wt_Tx (snd e)) > u64 (prev + 1))")
      case True
      then show ?thesis using Suc.prems(1) unfolding pe by (auto simp: lastNonce_def pe split: if_splits)
    next
      case False
      obtain ts2 where ts: "ts = snd e # ts2"
          and rest: "selectLoop space items batchSize bandwidth (Suc copied) (u64 (cb + tx_GasLimit (wt_Tx (snd e))))
            (ptr items (Suc k)) (tx_Nonce (wt_Tx (snd e))) = (ts2, el, prev', gap)"
        using Suc.prems(1) False elemNext_ptr [OF assms(1) k] unfolding pe
        by (auto simp: e_def split: prod.splits if_splits)
      have "0 \<le> tx_Nonce (wt_Tx (snd e))" using assms(3) k by (simp add: e_def)
      note IH = Suc.IH [OF rest this]
      have "prev = 0 \<or> tx_Nonce (wt_Tx (snd e)) \<le> prev + 1"
        using False Suc.prems(2) u64_Suc_le [of prev] by force
      moreover have "drop k items = e # drop (Suc k) items"
        using k by (simp add: e_def Cons_nth_drop_Suc)
      ultimately show ?thesis using IH False by (auto simp: ts lastNonce_def)
    qed
  qed
qed

text \<open>The batches one selection takes from a sender: the space, batch size and bandwidth of each call.\<close>

fun selectBatches :: "bool \<Rightarrow> (nat \<times> int \<times> int) list \<Rightarrow> txListForSender \<Rightarrow> txListForSender \<times> WrappedTransaction list" where
  "selectBatches isFirst [] l = (l, [])"
| "selectBatches isFirst ((space, batchSize, bandwidth) # calls) l =
     (case selectBatchTo isFirst space batchSize bandwidth l of
        (l1, ts, _) \<Rightarrow> (case selectBatches False calls l1 of (l2, ts') \<Rightarrow> (l2, ts @ ts')))"

definition select_at :: "txListForSender \<Rightarrow> nat \<Rightarrow> bool" where
  "select_at l k \<longleftrightarrow> k \<le> length (ls_items l) \<and> ls_copyBatchIndex l = ptr (ls_items l) k \<and>
     ls_copyPreviousNonce l = lastNonce 0 (take k (txs l))"

lemma lastNonce_nonneg: "0 \<le> p \<Longrightarrow> \<forall>t\<in>set ts. 0 \<le> tx_Nonce (wt_Tx t) \<Longrightarrow> 0 \<le> lastNonce p ts"
  by (simp add: lastNonce_def)

lemma loop_batch:
  assumes "distinct (map fst (ls_items l))" "\<forall>t\<in>set (txs l). 0 \<le> tx_Nonce (wt_Tx t)" "k \<le> length (ls_items l)"
    and "selectLoop space (ls_items l) b bandwidth 0 0 (ptr (ls_items l) k) (lastNonce 0 (take k (txs l))) = (ts, el, prev, gap)"
    and "ls_items l1 = ls_items l" "ls_copyBatchIndex l1 = el" "ls_copyPreviousNonce l1 = prev"
  shows "select_at l1 (k + length ts) \<and> ts = take (length ts) (drop k (txs l)) \<and>
    gapfree (lastNonce 0 (take k (txs l))) ts \<and> (0 \<le> b \<longrightarrow> int (length ts) \<le> b)"
proof -
  have nn: "\<forall>e\<in>set (ls_items l). 0 \<le> tx_Nonce (wt_Tx (snd e))" "0 \<le> lastNonce 0 (take k (txs l))"
    using assms(2) by (auto simp: txs_def intro!: lastNonce_nonneg dest!: in_set_takeD)
  note loop = selectLoop_prefix [OF assms(1,4) nn]
  have ts: "ts = take (length ts) (drop k (txs l))"
    using loop by (simp add: txs_def take_map drop_map)
  have len: "k + length ts \<le> length (ls_items l)"
    using arg_cong [OF ts, of length] assms(3) by (simp add: txs_def)
  have "take (k + length ts) (txs l) = take k (txs l) @ ts"
    using ts by (simp add: take_add)
  then have "select_at l1 (k + length ts)"
    using loop len assms(5-7) by (simp add: select_at_def txs_def lastNonce_append)
  with loop ts show ?thesis by simp
qed

lemma nonfirst_batch:
  assumes "distinct (map fst (ls_items l))" "\<forall>t\<in>set (txs l). 0 \<le> tx_Nonce (wt_Tx t)" "select_at l k"
    and "selectBatchTo False space batchSize bandwidth l = (l1, ts, j)"
  shows "ls_items l1 = ls_items l \<and> select_at l1 (k + length ts) \<and> ts = take (length ts) (drop k (txs l)) \<and>
    gapfree (lastNonce 0 (take k (txs l))) ts \<and> (ls_copyDetectedGap l \<longrightarrow> ts = [] \<and> ls_copyDetectedGap l1)"
proof -
  define b where "b = (if ls_copyDetectedGap l then 0 else batchSize)"
  obtain el prev gap where run: "selectLoop space (ls_items l) b bandwidth 0 0 (ptr (ls_items l) k) (lastNonce 0 (take k (txs l))) =
      (ts, el, prev, gap)"
      and l1: "l1 = l\<lparr>ls_copyDetectedGap := ls_copyDetectedGap l \<or> gap, ls_copyBatchIndex := el, ls_copyPreviousNonce := prev\<rparr>"
    using assms(3,4) by (auto simp: selectBatchTo_def Let_def select_at_def b_def split: if_splits prod.splits)
  have "k \<le> length (ls_items l)" using assms(3) by (simp add: select_at_def)
  from loop_batch [OF assms(1,2) this run, of l1] show ?thesis
    by (auto simp: l1 b_def)
qed

lemma first_batch:
  assumes "distinct (map fst (ls_items l))" "\<forall>t\<in>set (txs l). 0 \<le> tx_Nonce (wt_Tx t)"
    and "selectBatchTo True space batchSize bandwidth l = (l1, ts, j)"
  shows "ls_items l1 = ls_items l \<and> select_at l1 (length ts) \<and> ts = take (length ts) (txs l) \<and> gapfree 0 ts \<and>
    (hasInitialGap l \<longrightarrow> length ts \<le> 1 \<and> ls_copyDetectedGap l1)"
proof -
  obtain l0 g where v: "verifyInitialGapOnSelectionStart l = (l0, g)" by fastforce
  have l0: "ls_items l0 = ls_items l" "g = hasInitialGap l"
    using v by (auto simp: verifyInitialGapOnSelectionStart_def Let_def split: if_splits)
  have front: "elemFront (ls_items l) = ptr (ls_items l) 0"
    by (cases "ls_items l") (simp_all add: elemFront_def ptr_def)
  obtain b el prev gap where run: "selectLoop space (ls_items l) b bandwidth 0 0 (ptr (ls_items l) 0) (lastNonce 0 (take 0 (txs l))) =
      (ts, el, prev, gap)" and b: "g \<longrightarrow> b = 0 \<or> b = 1"
      and l1: "ls_items l1 = ls_items l" "ls_copyBatchIndex l1 = el" "ls_copyPreviousNonce l1 = prev" "ls_copyDetectedGap l1 = (g \<or> gap)"
    using assms(3) l0(1) front
    by (auto simp: selectBatchTo_def Let_def v lastNonce_def split: if_splits prod.splits)
  from loop_batch [OF assms(1,2) _ run l1(1-3)] b l1 l0(2) show ?thesis
    by (auto simp: lastNonce_def)
qed

lemma selectBatches_rest:
  assumes "distinct (map fst (ls_items l))" "\<forall>t\<in>set (txs l). 0 \<le> tx_Nonce (wt_Tx t)" "select_at l k"
    and "selectBatches False calls l = (l2, ts)"
  shows "ts = take (length ts) (drop k (txs l)) \<and> gapfree (lastNonce 0 (take k (txs l))) ts \<and> (ls_copyDetectedGap l \<longrightarrow> ts = [])"
  using assms
proof (induction calls arbitrary: l k ts)
  case Nil
  then show ?case by simp
next
  case (Cons call calls)
  obtain space batchSize bandwidth where call: "call = (space, batchSize, bandwidth)" by (metis prod_cases3)
  obtain l1 ts1 j where batch: "selectBatchTo False space batchSize bandwidth l = (l1, ts1, j)" by (metis prod_cases3)
  obtain ts2 where rest: "selectBatches False calls l1 = (l2, ts2)" "ts = ts1 @ ts2"
    using Cons.prems(4) by (auto simp: call batch split: prod.splits)
  note b = nonfirst_batch [OF Cons.prems(1-3) batch]
  then have items: "ls_items l1 = ls_items l" "txs l1 = txs l" by (simp_all add: txs_def)
  have r: "ts2 = take (length ts2) (drop (k + length ts1) (txs l))" "gapfree (lastNonce 0 (take (k + length ts1) (txs l))) ts2"
      "ls_copyDetectedGap l1 \<longrightarrow> ts2 = []"
    using Cons.IH [of l1 "k + length ts1" ts2] Cons.prems(1,2) b rest(1) unfolding items by blast+
  have "take (k + length ts1) (txs l) = take k (txs l) @ ts1"
    using b by (simp add: take_add)
  then have "gapfree (lastNonce 0 (take k (txs l))) ts"
    using b r(2) by (simp add: rest(2) gapfree_append lastNonce_append)
  moreover have "ts = take (length ts) (drop k (txs l))"
    unfolding rest(2) length_append using b r(1) by (simp add: take_add add.commute)
  ultimately show ?case
    using b r(3) rest(2) by blast
qed

text \<open>
  C24: a selection takes a gap-free run from the front of the sender's list. Over all the batches of one
  selection, whatever their sizes, the transactions come from the front of the list in order, each once, and
  no nonce is skipped between two of them unless the first of the two has nonce zero; a sender whose
  first nonce is ahead of the account gives at most one transaction.
\<close>

theorem selection_gapfree:
  assumes "list_inv l" and "\<forall>t\<in>set (txs l). is_u64 (tx_Nonce (wt_Tx t))" and "selectBatches True calls l = (l', ts)"
  shows "ts = take (length ts) (txs l) \<and> gapfree 0 ts \<and> (hasInitialGap l \<longrightarrow> length ts \<le> 1)"
proof (cases calls)
  case Nil
  then show ?thesis using assms(3) by simp
next
  case (Cons call calls')
  have inv: "distinct (map fst (ls_items l))" "\<forall>t\<in>set (txs l). 0 \<le> tx_Nonce (wt_Tx t)"
    using assms(1,2) by (simp_all add: list_inv_def is_u64_def)
  obtain space batchSize bandwidth where call: "call = (space, batchSize, bandwidth)" by (metis prod_cases3)
  obtain l1 ts1 j where batch: "selectBatchTo True space batchSize bandwidth l = (l1, ts1, j)" by (metis prod_cases3)
  obtain ts2 where rest: "selectBatches False calls' l1 = (l', ts2)" "ts = ts1 @ ts2"
    using assms(3) by (auto simp: Cons call batch split: prod.splits)
  note b = first_batch [OF inv batch]
  then have items: "ls_items l1 = ls_items l" "txs l1 = txs l" by (simp_all add: txs_def)
  have "select_at l1 (length ts1)" using b by blast
  note r = selectBatches_rest [of l1, unfolded items, OF inv this rest(1)]
  have "gapfree 0 ts"
    using b r by (simp add: rest(2) gapfree_append)
  moreover have "ts = take (length ts) (txs l)"
    unfolding rest(2) length_append using b r by (simp add: take_add)
  moreover have "length ts \<le> 1" if "hasInitialGap l"
  proof -
    have "length ts1 \<le> 1" "ts2 = []" using that b r by blast+
    then show ?thesis by (simp add: rest(2))
  qed
  ultimately show ?thesis by blast
qed

definition gap_list :: txListForSender where
  "gap_list = (newTxListForSender [1] \<lparr>sc_maxNumTxs = 10, sc_maxNumBytes = 30\<rparr>)
     \<lparr>ls_items := [(0, sample_tx 0 9 10 4), (1, sample_tx 7 9 10 5), (2, sample_tx 9 9 10 6)], ls_totalBytes := 30, ls_totalFees := 27,
      ls_fresh := 3\<rparr>"

theorem selection_gapfree_witness:
  "snd (selectBatches True [(5, 1, 100), (4, 5, 100)] gap_list) = [sample_tx 0 9 10 4, sample_tx 7 9 10 5]"
proof -
  have inv: "list_inv gap_list" "\<forall>t\<in>set (txs gap_list). is_u64 (tx_Nonce (wt_Tx t))"
    by (simp_all add: list_inv_def txs_def gap_list_def newTxListForSender_def sample_tx_def le_tx_def estimateTxGas_def i64_def is_u64_def)
  obtain l' ts where run: "selectBatches True [(5, 1, 100), (4, 5, 100)] gap_list = (l', ts)" by fastforce
  have "length ts = 2"
    using arg_cong [OF run, of "\<lambda>r. length (snd r)"]
    by (simp add: selectBatchTo_def gap_list_def newTxListForSender_def sample_tx_def verifyInitialGapOnSelectionStart_def hasInitialGap_def
        elemFront_def numeral_eq_Suc u64_def Let_def)
  then have "ts = take 2 (txs gap_list)"
    using selection_gapfree [OF inv run] by simp
  then show ?thesis
    unfolding run by (simp add: txs_def gap_list_def newTxListForSender_def)
qed

end
