(* ===== verification/ConcurrentMap.thy ===== *)
theory ConcurrentMap
  imports GoPrelude "HOL-Library.AList"
begin

text \<open>
  The chunked map of \<open>storage/txcache/maps/concurrentMap.go\<close>. A key lives in the chunk that the FNV hash of
  the key selects; a chunk is a Go map, an association list in the order one iteration visits it. Each
  method runs under the lock of its chunk and is one step of the model. Stored values are never nil.

  What clients rely on is the locale \<open>go_map\<close>: the map behaves as a partial function. The chunked map
  is an interpretation of it.
\<close>

section \<open>The contract of a map\<close>

locale go_map =
  fixes ok :: "'m \<Rightarrow> bool"
    and getM :: "bytes \<Rightarrow> 'm \<Rightarrow> 'v option"
    and setM :: "bytes \<Rightarrow> 'v \<Rightarrow> 'm \<Rightarrow> 'm"
    and removeM :: "bytes \<Rightarrow> 'm \<Rightarrow> 'm \<times> 'v option"
    and keysM :: "'m \<Rightarrow> bytes list"
  assumes set_ok: "ok m \<Longrightarrow> ok (setM k v m)"
    and get_set: "ok m \<Longrightarrow> getM k' (setM k v m) = (if k' = k then Some v else getM k' m)"
    and remove_ok: "ok m \<Longrightarrow> ok (fst (removeM k m))"
    and get_remove: "ok m \<Longrightarrow> getM k' (fst (removeM k m)) = (if k' = k then None else getM k' m)"
    and removed: "ok m \<Longrightarrow> snd (removeM k m) = getM k m"
    and keys_distinct: "ok m \<Longrightarrow> distinct (keysM m)"
    and keys_get: "ok m \<Longrightarrow> k \<in> set (keysM m) \<longleftrightarrow> getM k m \<noteq> None"
begin

definition abs_map :: "'m \<Rightarrow> bytes \<rightharpoonup> 'v" where
  "abs_map m k = getM k m"

lemma abs_set: "ok m \<Longrightarrow> abs_map (setM k v m) = (abs_map m)(k \<mapsto> v)"
  by (simp add: abs_map_def get_set fun_eq_iff)

lemma abs_remove: "ok m \<Longrightarrow> abs_map (fst (removeM k m)) = (abs_map m)(k := None)"
  by (simp add: abs_map_def get_remove fun_eq_iff)

lemma dom_keys: "ok m \<Longrightarrow> dom (abs_map m) = set (keysM m)"
  by (auto simp: abs_map_def keys_get dom_def)

lemma finite_abs: "ok m \<Longrightarrow> finite (dom (abs_map m))"
  by (simp add: dom_keys)

text \<open>A quantity summed over the entries, and how the two writes change it.\<close>

definition total :: "('v \<Rightarrow> int) \<Rightarrow> 'm \<Rightarrow> int" where
  "total f m = (\<Sum>k\<in>dom (abs_map m). f (the (abs_map m k)))"

lemma total_set:
  assumes "ok m" "getM k m = None"
  shows "total f (setM k v m) = total f m + f v"
proof -
  have k: "k \<notin> dom (abs_map m)" using assms(2) by (simp add: abs_map_def dom_def)
  then show ?thesis
    using finite_abs [OF assms(1)] by (auto simp: total_def abs_set [OF assms(1)] intro!: sum.cong)
qed

lemma total_remove:
  assumes "ok m"
  shows "total f (fst (removeM k m)) = total f m - (case getM k m of None \<Rightarrow> 0 | Some v \<Rightarrow> f v)"
proof (cases "getM k m")
  case None
  then have "(abs_map m)(k := None) = abs_map m" by (simp add: abs_map_def fun_eq_iff)
  with None show ?thesis by (simp add: total_def abs_remove [OF assms])
next
  case (Some v)
  then have "k \<in> dom (abs_map m)" by (auto simp: abs_map_def)
  then have "total f m = f v + (\<Sum>k\<in>dom (abs_map m) - {k}. f (the (abs_map m k)))"
    using finite_abs [OF assms] Some by (simp add: total_def sum.remove abs_map_def)
  moreover have "total f (fst (removeM k m)) = (\<Sum>k\<in>dom (abs_map m) - {k}. f (the (abs_map m k)))"
    by (auto simp: total_def abs_remove [OF assms] intro!: sum.cong)
  ultimately show ?thesis using Some by simp
qed

lemma total_one: "ok m \<Longrightarrow> total (\<lambda>_. 1) m = int (length (keysM m))"
  by (simp add: total_def dom_keys keys_distinct distinct_card)

end

section \<open>The chunked map\<close>

definition fnv32 :: "bytes \<Rightarrow> 32 word" where
  "fnv32 key = foldl (\<lambda>hash c. xor (hash * 16777619) (ucast c)) 2166136261 key"

record 'v ConcurrentMap =
  cm_nChunks :: "32 word"
  cm_chunks :: "(bytes \<times> 'v) list list"

definition initializeChunks :: "32 word \<Rightarrow> 'v ConcurrentMap" where
  "initializeChunks nChunks = \<lparr>cm_nChunks = nChunks, cm_chunks = replicate (unat nChunks) []\<rparr>"

definition NewConcurrentMap :: "32 word \<Rightarrow> 'v ConcurrentMap" where
  "NewConcurrentMap nChunks = initializeChunks (if nChunks = 0 then 1 else nChunks)"

definition getChunk :: "bytes \<Rightarrow> 'v ConcurrentMap \<Rightarrow> nat" where
  "getChunk key m = unat (fnv32 key mod cm_nChunks m)"

definition cm_Set :: "bytes \<Rightarrow> 'v \<Rightarrow> 'v ConcurrentMap \<Rightarrow> 'v ConcurrentMap" where
  "cm_Set key v m =
     (let i = getChunk key m in m\<lparr>cm_chunks := (cm_chunks m)[i := AList.update key v (cm_chunks m ! i)]\<rparr>)"

definition cm_SetIfAbsent :: "bytes \<Rightarrow> 'v \<Rightarrow> 'v ConcurrentMap \<Rightarrow> 'v ConcurrentMap \<times> bool" where
  "cm_SetIfAbsent key v m =
     (case map_of (cm_chunks m ! getChunk key m) key of
        None \<Rightarrow> (cm_Set key v m, True)
      | Some _ \<Rightarrow> (m, False))"

definition cm_Get :: "bytes \<Rightarrow> 'v ConcurrentMap \<Rightarrow> 'v option" where
  "cm_Get key m = map_of (cm_chunks m ! getChunk key m) key"

definition cm_Has :: "bytes \<Rightarrow> 'v ConcurrentMap \<Rightarrow> bool" where
  "cm_Has key m = (map_of (cm_chunks m ! getChunk key m) key \<noteq> None)"

definition cm_Remove :: "bytes \<Rightarrow> 'v ConcurrentMap \<Rightarrow> 'v ConcurrentMap \<times> 'v option" where
  "cm_Remove key m =
     (let i = getChunk key m in
      (m\<lparr>cm_chunks := (cm_chunks m)[i := AList.delete key (cm_chunks m ! i)]\<rparr>, map_of (cm_chunks m ! i) key))"

definition cm_Clear :: "'v ConcurrentMap \<Rightarrow> 'v ConcurrentMap" where
  "cm_Clear m = initializeChunks (cm_nChunks m)"

definition cm_Count :: "'v ConcurrentMap \<Rightarrow> nat" where
  "cm_Count m = sum_list (map length (cm_chunks m))"

definition cm_Keys :: "'v ConcurrentMap \<Rightarrow> bytes list" where
  "cm_Keys m = concat (map (map fst) (cm_chunks m))"

definition cm_IterCb :: "(bytes \<Rightarrow> 'v \<Rightarrow> 's \<Rightarrow> 's) \<Rightarrow> 'v ConcurrentMap \<Rightarrow> 's \<Rightarrow> 's" where
  "cm_IterCb fn m s = foldl (\<lambda>s chunk. foldl (\<lambda>s (key, v). fn key v s) s chunk) s (cm_chunks m)"

section \<open>The chunked map satisfies the contract\<close>

definition wf_cmap :: "'v ConcurrentMap \<Rightarrow> bool" where
  "wf_cmap m \<longleftrightarrow> cm_nChunks m \<noteq> 0 \<and> length (cm_chunks m) = unat (cm_nChunks m) \<and>
     (\<forall>i < length (cm_chunks m). distinct (map fst (cm_chunks m ! i)) \<and>
        (\<forall>key \<in> fst ` set (cm_chunks m ! i). getChunk key m = i))"

lemma getChunk_less: "wf_cmap m \<Longrightarrow> getChunk key m < length (cm_chunks m)"
  by (simp add: wf_cmap_def getChunk_def word_mod_less_divisor unat_mono word_neq_0_conv flip: word_less_nat_alt)

lemma getChunk_update [simp]: "getChunk key (m\<lparr>cm_chunks := cs\<rparr>) = getChunk key m"
  by (simp add: getChunk_def)

lemma wf_cmap_chunk:
  assumes "wf_cmap m" "distinct (map fst c)" "\<forall>k\<in>fst ` set c. getChunk k m = i"
  shows "wf_cmap (m\<lparr>cm_chunks := (cm_chunks m)[i := c]\<rparr>)"
proof -
  have "distinct (map fst ((cm_chunks m)[i := c] ! j)) \<and> (\<forall>key\<in>fst ` set ((cm_chunks m)[i := c] ! j). getChunk key m = j)"
    if "j < length (cm_chunks m)" for j
    using assms that by (cases "j = i") (auto simp: wf_cmap_def)
  then show ?thesis using assms(1) by (simp add: wf_cmap_def)
qed

lemma wf_cmap_at:
  assumes "wf_cmap m"
  shows "distinct (map fst (cm_chunks m ! getChunk key m))"
    "k \<in> fst ` set (cm_chunks m ! getChunk key m) \<Longrightarrow> getChunk k m = getChunk key m"
  using assms getChunk_less [OF assms, of key] by (auto simp: wf_cmap_def)

lemma wf_Set:
  assumes "wf_cmap m"
  shows "wf_cmap (cm_Set key v m)"
  unfolding cm_Set_def Let_def
proof (rule wf_cmap_chunk [OF assms])
  show "distinct (map fst (AList.update key v (cm_chunks m ! getChunk key m)))"
    by (rule distinct_update [OF wf_cmap_at(1) [OF assms]])
  show "\<forall>k\<in>fst ` set (AList.update key v (cm_chunks m ! getChunk key m)). getChunk k m = getChunk key m"
    unfolding dom_update using wf_cmap_at(2) [OF assms] by blast
qed

lemma wf_Remove:
  assumes "wf_cmap m"
  shows "wf_cmap (fst (cm_Remove key m))"
  unfolding cm_Remove_def Let_def fst_conv
proof (rule wf_cmap_chunk [OF assms])
  show "distinct (map fst (AList.delete key (cm_chunks m ! getChunk key m)))"
    by (rule distinct_delete [OF wf_cmap_at(1) [OF assms]])
  have "fst ` set (AList.delete key (cm_chunks m ! getChunk key m)) \<subseteq> fst ` set (cm_chunks m ! getChunk key m)"
    unfolding set_map [symmetric] delete_keys by auto
  then show "\<forall>k\<in>fst ` set (AList.delete key (cm_chunks m ! getChunk key m)). getChunk k m = getChunk key m"
    using wf_cmap_at(2) [OF assms] by blast
qed

lemma distinct_concat_chunks:
  assumes "\<And>i. i < length cs \<Longrightarrow> distinct (cs ! i)"
    and "\<And>i j x. i < length cs \<Longrightarrow> j < length cs \<Longrightarrow> x \<in> set (cs ! i) \<Longrightarrow> x \<in> set (cs ! j) \<Longrightarrow> i = j"
  shows "distinct (concat cs)"
  using assms
proof (induction cs)
  case (Cons c cs)
  have "distinct (concat cs)"
  proof (rule Cons.IH)
    show "distinct (cs ! i)" if "i < length cs" for i
      using Cons.prems(1) [of "Suc i"] that by simp
    show "i = j" if "i < length cs" "j < length cs" "x \<in> set (cs ! i)" "x \<in> set (cs ! j)" for i j x
      using Cons.prems(2) [of "Suc i" "Suc j" x] that by simp
  qed
  moreover have "x \<notin> set c" if mem: "x \<in> set (concat cs)" for x
  proof
    obtain c' where "c' \<in> set cs" "x \<in> set c'" using mem by auto
    then obtain j where "j < length cs" "x \<in> set (cs ! j)" by (metis in_set_conv_nth)
    then show "x \<in> set c \<Longrightarrow> False" using Cons.prems(2) [of 0 "Suc j" x] by simp
  qed
  ultimately show ?case using Cons.prems(1) [of 0] by auto
qed simp

lemma keys_distinct_cmap: "wf_cmap m \<Longrightarrow> distinct (cm_Keys m)"
  unfolding cm_Keys_def by (rule distinct_concat_chunks) (auto simp: wf_cmap_def, metis fst_conv)

lemma keys_get_cmap: "wf_cmap m \<Longrightarrow> k \<in> set (cm_Keys m) \<longleftrightarrow> cm_Get k m \<noteq> None"
proof -
  assume wf: "wf_cmap m"
  have "k \<in> set (cm_Keys m) \<longleftrightarrow> (\<exists>c \<in> set (cm_chunks m). k \<in> fst ` set c)"
    unfolding cm_Keys_def by auto
  also have "\<dots> \<longleftrightarrow> (\<exists>i < length (cm_chunks m). k \<in> fst ` set (cm_chunks m ! i))"
    by (metis in_set_conv_nth)
  also have "\<dots> \<longleftrightarrow> k \<in> fst ` set (cm_chunks m ! getChunk k m)"
  proof
    assume "\<exists>i < length (cm_chunks m). k \<in> fst ` set (cm_chunks m ! i)"
    then obtain i where i: "i < length (cm_chunks m)" "k \<in> fst ` set (cm_chunks m ! i)" by (elim exE conjE)
    with wf have "getChunk k m = i" by (simp only: wf_cmap_def)
    with i(2) show "k \<in> fst ` set (cm_chunks m ! getChunk k m)" by simp
  qed (use getChunk_less [OF wf, of k] in \<open>intro exI conjI\<close>)
  finally show ?thesis by (simp add: cm_Get_def map_of_eq_None_iff)
qed

interpretation cmap: go_map wf_cmap cm_Get cm_Set cm_Remove cm_Keys
proof unfold_locales
  fix m :: "'a ConcurrentMap" and k k' v
  assume wf: "wf_cmap m"
  show "wf_cmap (cm_Set k v m)" "wf_cmap (fst (cm_Remove k m))" "distinct (cm_Keys m)"
    "k \<in> set (cm_Keys m) \<longleftrightarrow> cm_Get k m \<noteq> None"
    using wf by (simp_all add: wf_Set wf_Remove keys_distinct_cmap keys_get_cmap)
  show "cm_Get k' (cm_Set k v m) = (if k' = k then Some v else cm_Get k' m)"
    using getChunk_less [OF wf] by (auto simp: cm_Get_def cm_Set_def Let_def nth_list_update update_conv)
  show "cm_Get k' (fst (cm_Remove k m)) = (if k' = k then None else cm_Get k' m)"
    using getChunk_less [OF wf] by (auto simp: cm_Get_def cm_Remove_def Let_def nth_list_update delete_conv)
  show "snd (cm_Remove k m) = cm_Get k m"
    by (simp add: cm_Remove_def Let_def cm_Get_def)
qed

lemma wf_New: "wf_cmap (NewConcurrentMap n)"
  by (simp add: wf_cmap_def NewConcurrentMap_def initializeChunks_def)

lemma get_New: "cm_Get k (NewConcurrentMap n :: 'v ConcurrentMap) = None"
  using getChunk_less [OF wf_New, of k n, where 'a = 'v] by (cases "n = 0") (simp_all add: cm_Get_def NewConcurrentMap_def initializeChunks_def)

lemma Clear_New: "wf_cmap m \<Longrightarrow> cm_Clear m = NewConcurrentMap (cm_nChunks m)"
  by (simp add: cm_Clear_def NewConcurrentMap_def wf_cmap_def)

lemma Count_Keys: "cm_Count m = length (cm_Keys m)"
  by (simp add: cm_Count_def cm_Keys_def length_concat o_def)

datatype 'v map_op = MapSet bytes 'v | MapSetIfAbsent bytes 'v | MapRemove bytes | MapClear

fun cmap_run :: "'v map_op \<Rightarrow> 'v ConcurrentMap \<Rightarrow> 'v ConcurrentMap" where
  "cmap_run (MapSet k v) m = cm_Set k v m"
| "cmap_run (MapSetIfAbsent k v) m = fst (cm_SetIfAbsent k v m)"
| "cmap_run (MapRemove k) m = fst (cm_Remove k m)"
| "cmap_run MapClear m = cm_Clear m"

fun map_run :: "'v map_op \<Rightarrow> (bytes \<rightharpoonup> 'v) \<Rightarrow> (bytes \<rightharpoonup> 'v)" where
  "map_run (MapSet k v) m = m(k \<mapsto> v)"
| "map_run (MapSetIfAbsent k v) m = (if m k = None then m(k \<mapsto> v) else m)"
| "map_run (MapRemove k) m = m(k := None)"
| "map_run MapClear m = Map.empty"

lemma cmap_step: "wf_cmap m \<Longrightarrow> wf_cmap (cmap_run op m) \<and> cmap.abs_map (cmap_run op m) = map_run op (cmap.abs_map m)"
  by (cases op)
     (auto simp: cmap.set_ok cmap.remove_ok cmap.abs_set cmap.abs_remove cm_SetIfAbsent_def Clear_New wf_New get_New
       cmap.abs_map_def fun_eq_iff cm_Get_def [symmetric] cmap.get_set cmap.get_remove split: option.splits)

text \<open>
  C21: the chunked map is a map. After any sequence of writes, conditional writes, removals and clears on a
  new map, whatever its number of chunks, lookups answer as the finite map with the same writes, the
  keys are listed without repetition, and the count is the number of keys.
\<close>

theorem ConcurrentMap_refines_map:
  fixes ops :: "'v map_op list" and n :: "32 word"
  defines "m \<equiv> foldl (\<lambda>m op. cmap_run op m) (NewConcurrentMap n) ops"
    and "f \<equiv> foldl (\<lambda>f op. map_run op f) Map.empty ops"
  shows "cm_Get k m = f k \<and> cm_Has k m = (f k \<noteq> None) \<and> distinct (cm_Keys m) \<and> set (cm_Keys m) = dom f \<and>
    cm_Count m = card (dom f)"
proof -
  have *: "wf_cmap m0 \<Longrightarrow> wf_cmap (foldl (\<lambda>m op. cmap_run op m) m0 ops) \<and>
      cmap.abs_map (foldl (\<lambda>m op. cmap_run op m) m0 ops) = foldl (\<lambda>f op. map_run op f) (cmap.abs_map m0) ops"
    for m0 :: "'v ConcurrentMap"
    by (induction ops arbitrary: m0) (simp_all add: cmap_step)
  have "cmap.abs_map (NewConcurrentMap n :: 'v ConcurrentMap) = Map.empty"
    by (simp add: fun_eq_iff cmap.abs_map_def get_New)
  then have m: "wf_cmap m" "cmap.abs_map m = f"
    using * [OF wf_New, of n] by (simp_all add: m_def f_def)
  have "distinct (cm_Keys m)" "set (cm_Keys m) = dom f"
    using m cmap.dom_keys [OF m(1)] keys_distinct_cmap by auto
  moreover from this have "cm_Count m = card (dom f)"
    by (simp add: Count_Keys flip: distinct_card)
  moreover have "cm_Get k m = f k" "cm_Has k m \<longleftrightarrow> f k \<noteq> None"
    unfolding m(2) [symmetric] by (simp_all add: cmap.abs_map_def cm_Has_def cm_Get_def)
  ultimately show ?thesis by simp
qed

end
