(* ===== verification/TxCache.thy ===== *)
theory TxCache
  imports TxList ConcurrentMap
begin

text \<open>
  The transaction pool of \<open>storage/txcache\<close>: an index by hash (\<open>txByHashMap.go\<close>), an index by sender
  (\<open>txListBySenderMap.go\<close> over \<open>maps/bucketSortedMap.go\<close>), and the cache that keeps both
  (\<open>txCache.go\<close>, \<open>eviction.go\<close>). The lists of the senders are shared objects; the model keeps them in the
  chunks of the sorted map and stores a changed list back under its sender. The score chunks hold the
  keys of the senders. The score function, which computes with logarithms of floats, is the parameter
  \<open>score\<close>; the cache holds it behind an interface. The monitoring counters are left out.
\<close>

section \<open>The index by hash\<close>

record txByHashMap =
  bh_backingMap :: "WrappedTransaction ConcurrentMap"
  bh_counter :: int
  bh_numBytes :: int

definition newTxByHashMap :: "32 word \<Rightarrow> txByHashMap" where
  "newTxByHashMap nChunksHint = \<lparr>bh_backingMap = NewConcurrentMap nChunksHint, bh_counter = 0, bh_numBytes = 0\<rparr>"

definition byHash_addTx :: "WrappedTransaction \<Rightarrow> txByHashMap \<Rightarrow> txByHashMap \<times> bool" where
  "byHash_addTx tx m =
     (case cm_SetIfAbsent (wt_TxHash tx) tx (bh_backingMap m) of
        (bm, added) \<Rightarrow>
          if added then (m\<lparr>bh_backingMap := bm, bh_counter := i64 (bh_counter m + 1), bh_numBytes := i64 (bh_numBytes m + wt_Size tx)\<rparr>, True)
          else (m\<lparr>bh_backingMap := bm\<rparr>, False))"

definition byHash_removeTx :: "bytes \<Rightarrow> txByHashMap \<Rightarrow> txByHashMap \<times> WrappedTransaction option" where
  "byHash_removeTx txHash m =
     (case cm_Remove txHash (bh_backingMap m) of
        (bm, None) \<Rightarrow> (m\<lparr>bh_backingMap := bm\<rparr>, None)
      | (bm, Some tx) \<Rightarrow>
          (m\<lparr>bh_backingMap := bm, bh_counter := i64 (bh_counter m - 1), bh_numBytes := i64 (bh_numBytes m - wt_Size tx)\<rparr>, Some tx))"

definition byHash_getTx :: "bytes \<Rightarrow> txByHashMap \<Rightarrow> WrappedTransaction option" where
  "byHash_getTx txHash m = cm_Get txHash (bh_backingMap m)"

fun byHash_RemoveTxsBulk :: "bytes list \<Rightarrow> txByHashMap \<Rightarrow> txByHashMap \<times> nat" where
  "byHash_RemoveTxsBulk [] m = (m, 0)"
| "byHash_RemoveTxsBulk (txHash # txHashes) m =
     (case byHash_removeTx txHash m of
        (m1, removed) \<Rightarrow>
          (case byHash_RemoveTxsBulk txHashes m1 of
             (m2, n) \<Rightarrow> (m2, if removed = None then n else Suc n)))"

definition byHash_clear :: "txByHashMap \<Rightarrow> txByHashMap" where
  "byHash_clear m = m\<lparr>bh_backingMap := cm_Clear (bh_backingMap m), bh_counter := 0\<rparr>"

definition byHash_keys :: "txByHashMap \<Rightarrow> bytes list" where
  "byHash_keys m = cm_Keys (bh_backingMap m)"

section \<open>The sorted map of senders\<close>

record BucketSortedMap =
  bs_maxScore :: nat
  bs_chunks :: "txListForSender ConcurrentMap"
  bs_scoreChunks :: "bytes list list"

definition NewBucketSortedMap :: "32 word \<Rightarrow> nat \<Rightarrow> BucketSortedMap" where
  "NewBucketSortedMap nChunks nScoreChunks =
     (let n = (if nScoreChunks = 0 then 1 else nScoreChunks) in
      \<lparr>bs_maxScore = n - 1, bs_chunks = NewConcurrentMap nChunks, bs_scoreChunks = replicate n []\<rparr>)"

definition bs_Set :: "txListForSender \<Rightarrow> BucketSortedMap \<Rightarrow> BucketSortedMap" where
  "bs_Set item m = m\<lparr>bs_chunks := cm_Set (ls_sender item) item (bs_chunks m)\<rparr>"

definition bs_Get :: "bytes \<Rightarrow> BucketSortedMap \<Rightarrow> txListForSender option" where
  "bs_Get key m = cm_Get key (bs_chunks m)"

definition removeFromScoreChunk :: "txListForSender \<Rightarrow> BucketSortedMap \<Rightarrow> BucketSortedMap" where
  "removeFromScoreChunk item m =
     (case ls_scoreChunk item of
        None \<Rightarrow> m
      | Some i \<Rightarrow> m\<lparr>bs_scoreChunks := (bs_scoreChunks m)[i := removeAll (ls_sender item) (bs_scoreChunks m ! i)]\<rparr>)"

text \<open>Go's map assignment keeps a key that is present in its place.\<close>

definition setKey :: "bytes \<Rightarrow> bytes list \<Rightarrow> bytes list" where
  "setKey key chunk = (if key \<in> set chunk then chunk else chunk @ [key])"

definition NotifyScoreChange :: "txListForSender \<Rightarrow> nat \<Rightarrow> BucketSortedMap \<Rightarrow> BucketSortedMap \<times> txListForSender" where
  "NotifyScoreChange item newScore m =
     (let i = min newScore (bs_maxScore m) in
      if ls_scoreChunk item = Some i then (m, item)
      else
        let m1 = removeFromScoreChunk item m in
        (m1\<lparr>bs_scoreChunks := (bs_scoreChunks m1)[i := setKey (ls_sender item) (bs_scoreChunks m1 ! i)]\<rparr>,
         item\<lparr>ls_scoreChunk := Some i\<rparr>))"

definition bs_Remove :: "bytes \<Rightarrow> BucketSortedMap \<Rightarrow> BucketSortedMap \<times> txListForSender option" where
  "bs_Remove key m =
     (case cm_Remove key (bs_chunks m) of
        (cs, None) \<Rightarrow> (m\<lparr>bs_chunks := cs\<rparr>, None)
      | (cs, Some item) \<Rightarrow> (removeFromScoreChunk item (m\<lparr>bs_chunks := cs\<rparr>), Some item))"

definition bs_Clear :: "BucketSortedMap \<Rightarrow> BucketSortedMap" where
  "bs_Clear m = m\<lparr>bs_chunks := cm_Clear (bs_chunks m), bs_scoreChunks := replicate (length (bs_scoreChunks m)) []\<rparr>"

text \<open>Ascending snapshots visit the keys of a chunk in byte order.\<close>

fun bytes_le :: "bytes \<Rightarrow> bytes \<Rightarrow> bool" where
  "bytes_le [] _ = True"
| "bytes_le (_ # _) [] = False"
| "bytes_le (x # xs) (y # ys) = (x < y \<or> x = y \<and> bytes_le xs ys)"

primrec insort_bytes :: "bytes \<Rightarrow> bytes list \<Rightarrow> bytes list" where
  "insort_bytes k [] = [k]"
| "insort_bytes k (x # xs) = (if bytes_le k x then k # x # xs else x # insort_bytes k xs)"

definition sort_bytes :: "bytes list \<Rightarrow> bytes list" where
  "sort_bytes ks = foldr insort_bytes ks []"

definition GetSnapshotAscending :: "BucketSortedMap \<Rightarrow> txListForSender list" where
  "GetSnapshotAscending m = List.map_filter (\<lambda>key. bs_Get key m) (concat (map sort_bytes (bs_scoreChunks m)))"

text \<open>Within a chunk the descending snapshot iterates a Go map, in any order: \<open>rank\<close> orders the keys of this iteration.\<close>

definition GetSnapshotDescending :: "(bytes \<Rightarrow> nat) \<Rightarrow> BucketSortedMap \<Rightarrow> txListForSender list" where
  "GetSnapshotDescending rank m = List.map_filter (\<lambda>key. bs_Get key m) (concat (map (sort_key rank) (rev (bs_scoreChunks m))))"

section \<open>The index by sender\<close>

definition numberOfScoreChunks :: nat where "numberOfScoreChunks = 100"

record txListBySenderMap =
  sm_backingMap :: BucketSortedMap
  sm_senderConstraints :: senderConstraints
  sm_counter :: int

definition newTxListBySenderMap :: "32 word \<Rightarrow> senderConstraints \<Rightarrow> txListBySenderMap" where
  "newTxListBySenderMap nChunksHint constraints =
     \<lparr>sm_backingMap = NewBucketSortedMap nChunksHint numberOfScoreChunks, sm_senderConstraints = constraints, sm_counter = 0\<rparr>"

definition getListForSender :: "bytes \<Rightarrow> txListBySenderMap \<Rightarrow> txListForSender option" where
  "getListForSender sender m = bs_Get sender (sm_backingMap m)"

definition addSender :: "bytes \<Rightarrow> txListBySenderMap \<Rightarrow> txListBySenderMap \<times> txListForSender" where
  "addSender sender m =
     (let l = newTxListForSender sender (sm_senderConstraints m) in
      (m\<lparr>sm_backingMap := bs_Set l (sm_backingMap m), sm_counter := i64 (sm_counter m + 1)\<rparr>, l))"

definition getOrAddListForSender :: "bytes \<Rightarrow> txListBySenderMap \<Rightarrow> txListBySenderMap \<times> txListForSender" where
  "getOrAddListForSender sender m =
     (case getListForSender sender m of Some l \<Rightarrow> (m, l) | None \<Rightarrow> addSender sender m)"

text \<open>The callback a list runs when its score may have changed, storing the list back.\<close>

definition notifyScoreChange :: "(senderScoreParams \<Rightarrow> nat) \<Rightarrow> txListForSender \<Rightarrow> senderScoreParams \<Rightarrow> txListBySenderMap \<Rightarrow> txListBySenderMap" where
  "notifyScoreChange score l params m =
     (let sc = score params in
      case NotifyScoreChange (l\<lparr>ls_lastComputedScore := int sc\<rparr>) sc (sm_backingMap m) of
        (bm, l') \<Rightarrow> m\<lparr>sm_backingMap := bs_Set l' bm\<rparr>)"

definition storeList :: "(senderScoreParams \<Rightarrow> nat) \<Rightarrow> txListForSender \<Rightarrow> senderScoreParams option \<Rightarrow> txListBySenderMap \<Rightarrow> txListBySenderMap" where
  "storeList score l notify m =
     (case notify of
        None \<Rightarrow> m\<lparr>sm_backingMap := bs_Set l (sm_backingMap m)\<rparr>
      | Some params \<Rightarrow> notifyScoreChange score l params m)"

definition bySender_addTx ::
  "(senderScoreParams \<Rightarrow> nat) \<Rightarrow> int \<Rightarrow> WrappedTransaction \<Rightarrow> txListBySenderMap \<Rightarrow> txListBySenderMap \<times> bool \<times> bytes list"
where
  "bySender_addTx score now tx m =
     (case getOrAddListForSender (tx_Sender (wt_Tx tx)) m of
        (m1, l) \<Rightarrow>
          (case AddTx now tx l of
             (l', added, evicted, notify) \<Rightarrow> (storeList score l' notify m1, added, evicted)))"

definition removeSender :: "bytes \<Rightarrow> txListBySenderMap \<Rightarrow> txListBySenderMap \<times> bool" where
  "removeSender sender m =
     (case bs_Remove sender (sm_backingMap m) of
        (bm, None) \<Rightarrow> (m\<lparr>sm_backingMap := bm\<rparr>, False)
      | (bm, Some _) \<Rightarrow> (m\<lparr>sm_backingMap := bm, sm_counter := i64 (sm_counter m - 1)\<rparr>, True))"

definition bySender_removeTx ::
  "(senderScoreParams \<Rightarrow> nat) \<Rightarrow> WrappedTransaction \<Rightarrow> txListBySenderMap \<Rightarrow> txListBySenderMap \<times> bool"
where
  "bySender_removeTx score tx m =
     (let sender = tx_Sender (wt_Tx tx) in
      case getListForSender sender m of
        None \<Rightarrow> (m, False)
      | Some l \<Rightarrow>
        (case RemoveTx tx l of
           (l', isFound, notify) \<Rightarrow>
             let m1 = storeList score l' notify m in
             (if IsEmpty l' then fst (removeSender sender m1) else m1, isFound)))"

text \<open>The loop takes the successor of an element before it removes the element.\<close>

fun lowerLoop :: "int \<Rightarrow> element list \<Rightarrow> txListForSender \<Rightarrow> bytes list \<Rightarrow> txListForSender \<times> bytes list" where
  "lowerLoop nonce [] l removed = (l, removed)"
| "lowerLoop nonce (e # es) l removed =
     (if tx_Nonce (wt_Tx (snd e)) > nonce then (l, removed)
      else lowerLoop nonce es (dropElem e l) (removed @ [wt_TxHash (snd e)]))"

definition removeTxLowerNonce ::
  "(senderScoreParams \<Rightarrow> nat) \<Rightarrow> bytes \<Rightarrow> int \<Rightarrow> txListBySenderMap \<Rightarrow> txListBySenderMap \<times> bytes list"
where
  "removeTxLowerNonce score sender nonce m =
     (case getListForSender sender m of
        None \<Rightarrow> (m, [])
      | Some l \<Rightarrow>
        (case lowerLoop nonce (ls_items l) l [] of
           (l', removed) \<Rightarrow>
             let m1 = notifyScoreChange score l' (getScoreParams l') m in
             (if IsEmpty l' then fst (removeSender sender m1) else m1, removed)))"

fun RemoveSendersBulk :: "bytes list \<Rightarrow> txListBySenderMap \<Rightarrow> txListBySenderMap \<times> nat" where
  "RemoveSendersBulk [] m = (m, 0)"
| "RemoveSendersBulk (senderKey # senders) m =
     (case removeSender senderKey m of
        (m1, removed) \<Rightarrow> (case RemoveSendersBulk senders m1 of (m2, n) \<Rightarrow> (m2, if removed then Suc n else n)))"

definition bySender_notifyAccountNonce :: "bytes \<Rightarrow> int \<Rightarrow> txListBySenderMap \<Rightarrow> txListBySenderMap" where
  "bySender_notifyAccountNonce accountKey nonce m =
     (case getListForSender accountKey m of
        None \<Rightarrow> m
      | Some l \<Rightarrow> storeList (\<lambda>_. 0) (notifyAccountNonce nonce l) None m)"

text \<open>The first nonce that is missing after the front of the list, or the last nonce when none is.\<close>

fun pendingLoop :: "element list \<Rightarrow> int \<Rightarrow> int" where
  "pendingLoop [] pendingNonce = pendingNonce"
| "pendingLoop (e # es) pendingNonce =
     (let n = tx_Nonce (wt_Tx (snd e)) in
      if pendingNonce = 0 \<or> n = u64 (pendingNonce + 1) then pendingLoop es n else u64 (pendingNonce + 1))"

definition PendingFor :: "bytes \<Rightarrow> txListBySenderMap \<Rightarrow> int \<times> int" where
  "PendingFor accountKey m =
     (case getListForSender accountKey m of
        None \<Rightarrow> (0, 0)
      | Some l \<Rightarrow> (pendingLoop (ls_items l) 0, countTx l))"

definition bySender_clear :: "txListBySenderMap \<Rightarrow> txListBySenderMap" where
  "bySender_clear m = m\<lparr>sm_backingMap := bs_Clear (sm_backingMap m), sm_counter := 0\<rparr>"

section \<open>The cache\<close>

record Config =
  cf_Name :: bytes
  cf_NumChunks :: "32 word"
  cf_EvictionEnabled :: bool
  cf_NumBytesThreshold :: int
  cf_NumBytesPerSenderThreshold :: int
  cf_CountThreshold :: int
  cf_CountPerSenderThreshold :: int
  cf_NumSendersToPreemptivelyEvict :: nat
  cf_CleanupInterval :: int

text \<open>Every error wraps \<open>ErrInvalidConfig\<close> with the name of the field at fault.\<close>

definition config_verify :: "Config \<Rightarrow> string + unit" where
  "config_verify c =
     (if length (cf_Name c) = 0 then Inl ''Name''
      else if cf_NumChunks c < 1 \<or> cf_NumChunks c > 128 then Inl ''NumChunks''
      else if cf_NumBytesPerSenderThreshold c < 1 \<or> cf_NumBytesPerSenderThreshold c > 33554432
      then Inl ''NumBytesPerSenderThreshold''
      else if cf_CountPerSenderThreshold c < 1 then Inl ''CountPerSenderThreshold''
      else if cf_EvictionEnabled c then
        if cf_NumBytesThreshold c < 4 \<or> cf_NumBytesThreshold c > 1073741824 then Inl ''NumBytesThreshold''
        else if cf_CountThreshold c < 4 then Inl ''CountThreshold''
        else if cf_NumSendersToPreemptivelyEvict c < 1 then Inl ''NumSendersToPreemptivelyEvict''
        else Inr ()
      else Inr ())"

definition getSenderConstraints :: "Config \<Rightarrow> senderConstraints" where
  "getSenderConstraints c = \<lparr>sc_maxNumTxs = cf_CountPerSenderThreshold c, sc_maxNumBytes = cf_NumBytesPerSenderThreshold c\<rparr>"

record TxCache =
  tc_txListBySender :: txListBySenderMap
  tc_txByHash :: txByHashMap
  tc_config :: Config
  tc_sweepingListOfSenders :: "bytes list"

definition cleanupInterval :: int where "cleanupInterval = 30000000000"

definition NewTxCache :: "Config \<Rightarrow> string + TxCache" where
  "NewTxCache config0 =
     (let config = (if cf_CleanupInterval config0 = 0 then config0\<lparr>cf_CleanupInterval := cleanupInterval\<rparr> else config0) in
      case config_verify config of
        Inl e \<Rightarrow> Inl e
      | Inr _ \<Rightarrow>
        Inr \<lparr>tc_txListBySender = newTxListBySenderMap (cf_NumChunks config) (getSenderConstraints config),
             tc_txByHash = newTxByHashMap (cf_NumChunks config), tc_config = config, tc_sweepingListOfSenders = []\<rparr>)"

definition NumBytes :: "TxCache \<Rightarrow> int" where
  "NumBytes cache = getUint64 (bh_numBytes (tc_txByHash cache))"

definition CountTx :: "TxCache \<Rightarrow> int" where
  "CountTx cache = getUint64 (bh_counter (tc_txByHash cache))"

definition CountSenders :: "TxCache \<Rightarrow> int" where
  "CountSenders cache = getUint64 (sm_counter (tc_txListBySender cache))"

definition areThereTooManyBytes :: "TxCache \<Rightarrow> bool" where
  "areThereTooManyBytes cache \<longleftrightarrow> NumBytes cache > cf_NumBytesThreshold (tc_config cache)"

definition areThereTooManySenders :: "TxCache \<Rightarrow> bool" where
  "areThereTooManySenders cache \<longleftrightarrow> CountSenders cache > cf_CountThreshold (tc_config cache)"

definition areThereTooManyTxs :: "TxCache \<Rightarrow> bool" where
  "areThereTooManyTxs cache \<longleftrightarrow> CountTx cache > cf_CountThreshold (tc_config cache)"

definition cache_isCapacityExceeded :: "TxCache \<Rightarrow> bool" where
  "cache_isCapacityExceeded cache \<longleftrightarrow>
     areThereTooManyBytes cache \<or> areThereTooManySenders cache \<or> areThereTooManyTxs cache"

definition doEvictItems :: "bytes list \<Rightarrow> bytes list \<Rightarrow> TxCache \<Rightarrow> TxCache \<times> nat \<times> nat" where
  "doEvictItems txsToEvict sendersToEvict cache =
     (case byHash_RemoveTxsBulk txsToEvict (tc_txByHash cache) of
        (bh, countTxs) \<Rightarrow>
          (case RemoveSendersBulk sendersToEvict (tc_txListBySender cache) of
             (sm, countSenders) \<Rightarrow> (cache\<lparr>tc_txByHash := bh, tc_txListBySender := sm\<rparr>, countTxs, countSenders)))"

definition evictSendersAndTheirTxs :: "txListForSender list \<Rightarrow> TxCache \<Rightarrow> TxCache \<times> nat \<times> nat" where
  "evictSendersAndTheirTxs listsToEvict cache =
     doEvictItems (concat (map getTxHashes listsToEvict)) (map ls_sender listsToEvict) cache"

text \<open>
  The eviction loop over the snapshot of the senders, in batches. Every round moves on by a batch, so
  the length of the snapshot bounds the rounds; the loop also stops at the end of the snapshot.
\<close>

fun evictLoop :: "nat \<Rightarrow> nat \<Rightarrow> txListForSender list \<Rightarrow> TxCache \<Rightarrow> TxCache" where
  "evictLoop 0 batchSize snapshot cache = cache"
| "evictLoop (Suc n) batchSize snapshot cache =
     (if \<not> cache_isCapacityExceeded cache then cache
      else
        (case evictSendersAndTheirTxs (take batchSize snapshot) cache of
           (cache1, numTxs, numSenders) \<Rightarrow>
             if numTxs = 0 \<or> numSenders < batchSize \<or> length snapshot \<le> batchSize then cache1
             else evictLoop n batchSize (drop batchSize snapshot) cache1))"

definition doEviction :: "TxCache \<Rightarrow> TxCache" where
  "doEviction cache =
     (if \<not> cache_isCapacityExceeded cache then cache
      else
        let snapshot = GetSnapshotAscending (sm_backingMap (tc_txListBySender cache)) in
        evictLoop (Suc (length snapshot)) (cf_NumSendersToPreemptivelyEvict (tc_config cache)) snapshot cache)"

text \<open>The argument is absent when the wrapped transaction or the transaction in it is nil.\<close>

definition cache_AddTx ::
  "(senderScoreParams \<Rightarrow> nat) \<Rightarrow> int \<Rightarrow> WrappedTransaction option \<Rightarrow> TxCache \<Rightarrow> TxCache \<times> bool \<times> bool"
where
  "cache_AddTx score now txOpt cache =
     (case txOpt of
        None \<Rightarrow> (cache, False, False)
      | Some tx \<Rightarrow>
        let cache0 = (if cf_EvictionEnabled (tc_config cache) then doEviction cache else cache) in
        (case byHash_addTx tx (tc_txByHash cache0) of
           (bh, addedInByHash) \<Rightarrow>
             (case bySender_addTx score now tx (tc_txListBySender cache0) of
                (sm, addedInBySender, evicted) \<Rightarrow>
                  let bh' = (if length evicted > 0 then fst (byHash_RemoveTxsBulk evicted bh) else bh) in
                  (cache0\<lparr>tc_txByHash := bh', tc_txListBySender := sm\<rparr>, True, addedInByHash \<or> addedInBySender))))"

definition GetByTxHash :: "bytes \<Rightarrow> TxCache \<Rightarrow> WrappedTransaction option" where
  "GetByTxHash txHash cache = byHash_getTx txHash (tc_txByHash cache)"

definition RemoveTxByHash :: "(senderScoreParams \<Rightarrow> nat) \<Rightarrow> bytes \<Rightarrow> TxCache \<Rightarrow> TxCache \<times> WrappedTransaction option" where
  "RemoveTxByHash score txHash cache =
     (case byHash_removeTx txHash (tc_txByHash cache) of
        (bh, None) \<Rightarrow> (cache\<lparr>tc_txByHash := bh\<rparr>, None)
      | (bh, Some tx) \<Rightarrow>
          (cache\<lparr>tc_txByHash := bh, tc_txListBySender := fst (bySender_removeTx score tx (tc_txListBySender cache))\<rparr>, Some tx))"

definition RemoveTxBySenderNonce :: "(senderScoreParams \<Rightarrow> nat) \<Rightarrow> bytes \<Rightarrow> int \<Rightarrow> TxCache \<Rightarrow> TxCache \<times> nat" where
  "RemoveTxBySenderNonce score sender nonce cache =
     (case removeTxLowerNonce score sender nonce (tc_txListBySender cache) of
        (sm, removed) \<Rightarrow>
          (cache\<lparr>tc_txListBySender := sm,
             tc_txByHash := (if length removed > 0 then fst (byHash_RemoveTxsBulk removed (tc_txByHash cache)) else tc_txByHash cache)\<rparr>,
           length removed))"

definition cache_Clear :: "TxCache \<Rightarrow> TxCache" where
  "cache_Clear cache =
     cache\<lparr>tc_txListBySender := bySender_clear (tc_txListBySender cache), tc_txByHash := byHash_clear (tc_txByHash cache)\<rparr>"

definition cache_Get :: "bytes \<Rightarrow> TxCache \<Rightarrow> TransactionHandler option" where
  "cache_Get key cache = (case GetByTxHash key cache of Some tx \<Rightarrow> Some (wt_Tx tx) | None \<Rightarrow> None)"

definition cache_Has :: "bytes \<Rightarrow> TxCache \<Rightarrow> bool" where
  "cache_Has key cache = (GetByTxHash key cache \<noteq> None)"

definition cache_Keys :: "TxCache \<Rightarrow> bytes list" where
  "cache_Keys cache = byHash_keys (tc_txByHash cache)"

definition cache_NotifyAccountNonce :: "bytes \<Rightarrow> int \<Rightarrow> TxCache \<Rightarrow> TxCache" where
  "cache_NotifyAccountNonce accountKey nonce cache =
     cache\<lparr>tc_txListBySender := bySender_notifyAccountNonce accountKey nonce (tc_txListBySender cache)\<rparr>"

text \<open>
  A page of the transactions of a sender. The loop skips to the first index and then fills the result,
  whose unfilled places are nil. A negative length makes the allocation panic, which is \<open>None\<close>.
\<close>

fun pageLoop :: "element list \<Rightarrow> int \<Rightarrow> int \<Rightarrow> int \<Rightarrow> TransactionHandler option list \<Rightarrow> TransactionHandler option list" where
  "pageLoop [] count idx idxEnd result = result"
| "pageLoop (e # es) count idx idxEnd result =
     (if count \<ge> idxEnd then result
      else if count < idx then pageLoop es (count + 1) idx idxEnd result
      else pageLoop es (count + 1) idx idxEnd (result[nat (count - idx) := Some (wt_Tx (snd e))]))"

definition GetBySenderPaginated :: "bytes \<Rightarrow> int \<Rightarrow> int \<Rightarrow> TxCache \<Rightarrow> (TransactionHandler option list \<times> int) option" where
  "GetBySenderPaginated sender page pageSize cache =
     (case getListForSender sender (tc_txListBySender cache) of
        None \<Rightarrow> Some ([], 0)
      | Some listForSender \<Rightarrow>
        let l = int (length (ls_items listForSender)); idx = i64 (page * pageSize) in
        if idx \<ge> l then Some ([], l)
        else
          let end1 = i64 (idx + pageSize);
              idxEnd = (if end1 > l then l else end1) in
          if i64 (idxEnd - idx) < 0 then None
          else Some (pageLoop (ls_items listForSender) 0 idx idxEnd (replicate (nat (i64 (idxEnd - idx))) None), l))"

section \<open>Selecting transactions for a block\<close>

text \<open>
  The senders of the snapshot are visited by their keys, since the lists change while they are read. A
  list that is marked sweepable is remembered, once, in the first pass. The requested number is not
  negative. The number of passes is not bounded in the code: the fuel makes the model a function, and
  the result is absent when it runs out.
\<close>

definition collectSweepable :: "txListForSender \<Rightarrow> TxCache \<Rightarrow> TxCache" where
  "collectSweepable l cache =
     (if \<not> ls_sweepable l then cache
      else cache\<lparr>tc_sweepingListOfSenders := tc_sweepingListOfSenders cache @ [ls_sender l]\<rparr>)"

fun selectPass ::
  "bool \<Rightarrow> nat \<Rightarrow> int \<Rightarrow> int \<Rightarrow> bytes list \<Rightarrow> TxCache \<Rightarrow> WrappedTransaction list \<Rightarrow> TxCache \<times> WrappedTransaction list"
where
  "selectPass isFirstBatch numRequested batchSizePerSender bandwidthPerSender [] cache result = (cache, result)"
| "selectPass isFirstBatch numRequested batchSizePerSender bandwidthPerSender (key # keys) cache result =
     (case getListForSender key (tc_txListBySender cache) of
        None \<Rightarrow> selectPass isFirstBatch numRequested batchSizePerSender bandwidthPerSender keys cache result
      | Some txList \<Rightarrow>
        let batchSize = i64 (batchSizePerSender * u32 (ls_lastComputedScore txList + 1)) in
        (case selectBatchTo isFirstBatch (numRequested - length result) batchSize bandwidthPerSender txList of
           (txList', copied, _) \<Rightarrow>
             let cache1 = cache\<lparr>tc_txListBySender := storeList (\<lambda>_. 0) txList' None (tc_txListBySender cache)\<rparr>;
                 cache2 = (if isFirstBatch then collectSweepable txList' cache1 else cache1);
                 result' = result @ copied in
             if length result' = numRequested then (cache2, result')
             else selectPass isFirstBatch numRequested batchSizePerSender bandwidthPerSender keys cache2 result'))"

fun selectPasses ::
  "nat \<Rightarrow> nat \<Rightarrow> nat \<Rightarrow> int \<Rightarrow> int \<Rightarrow> bytes list \<Rightarrow> TxCache \<Rightarrow> WrappedTransaction list \<Rightarrow>
   (TxCache \<times> WrappedTransaction list) option"
where
  "selectPasses 0 pass numRequested batchSizePerSender bandwidthPerSender keys cache result = None"
| "selectPasses (Suc fuel) pass numRequested batchSizePerSender bandwidthPerSender keys cache result =
     (case selectPass (pass = 0) numRequested batchSizePerSender bandwidthPerSender keys cache result of
        (cache', result') \<Rightarrow>
          if length result' = length result then Some (cache', result')
          else if length result' = numRequested then Some (cache', result')
          else selectPasses fuel (Suc pass) numRequested batchSizePerSender bandwidthPerSender keys cache' result')"

definition doSelectTransactions :: "(bytes \<Rightarrow> nat) \<Rightarrow> nat \<Rightarrow> nat \<Rightarrow> int \<Rightarrow> int \<Rightarrow> TxCache \<Rightarrow> (TxCache \<times> WrappedTransaction list) option" where
  "doSelectTransactions rank fuel numRequested batchSizePerSender bandwidthPerSender cache =
     selectPasses fuel 0 numRequested batchSizePerSender bandwidthPerSender
       (map ls_sender (GetSnapshotDescending rank (sm_backingMap (tc_txListBySender cache)))) cache []"

text \<open>
  The goroutine started after a selection evicts the senders that were collected; the model runs it right
  after the selection.
\<close>

definition sweepSweepable :: "TxCache \<Rightarrow> TxCache" where
  "sweepSweepable cache =
     (if length (tc_sweepingListOfSenders cache) = 0 then cache
      else
        let lists = List.map_filter (\<lambda>key. getListForSender key (tc_txListBySender cache)) (tc_sweepingListOfSenders cache) in
        (fst (evictSendersAndTheirTxs lists cache))\<lparr>tc_sweepingListOfSenders := []\<rparr>)"

definition SelectTransactions :: "(bytes \<Rightarrow> nat) \<Rightarrow> nat \<Rightarrow> nat \<Rightarrow> int \<Rightarrow> int \<Rightarrow> TxCache \<Rightarrow> (TxCache \<times> WrappedTransaction list) option" where
  "SelectTransactions rank fuel numRequested batchSizePerSender bandwidthPerSender cache =
     (case doSelectTransactions rank fuel numRequested batchSizePerSender bandwidthPerSender cache of
        None \<Rightarrow> None
      | Some (cache', result) \<Rightarrow> Some (sweepSweepable cache', result))"

section \<open>The consistency check\<close>

record internalConsistencyJournal =
  ij_numInMapByHash :: int
  ij_numInMapBySender :: int
  ij_numMissingInMapByHash :: int

definition isFine :: "internalConsistencyJournal \<Rightarrow> bool" where
  "isFine journal \<longleftrightarrow> ij_numInMapByHash journal = ij_numInMapBySender journal \<and> ij_numMissingInMapByHash journal = 0"

definition checkInternalConsistency :: "TxCache \<Rightarrow> internalConsistencyJournal" where
  "checkInternalConsistency cache =
     (let senders = GetSnapshotAscending (sm_backingMap (tc_txListBySender cache));
          numInMapBySender = foldl (\<lambda>n l. u64 (n + countTx l)) 0 senders;
          missing = filter (\<lambda>h. byHash_getTx h (tc_txByHash cache) = None) (concat (map getTxHashes senders)) in
      \<lparr>ij_numInMapByHash = int (length (byHash_keys (tc_txByHash cache))),
       ij_numInMapBySender = (if numInMapBySender > MaxInt64 then MaxInt64 else numInMapBySender),
       ij_numMissingInMapByHash = int (length missing)\<rparr>)"

section \<open>The periodic cleanup\<close>

definition processExpiredForSender :: "int \<Rightarrow> txListForSender \<Rightarrow> txListForSender \<times> bytes list \<times> bool" where
  "processExpiredForSender currentTime l =
     (case expireLoop currentTime (ls_items l) l [] of
        (l', expiredTxHashes) \<Rightarrow> (l', expiredTxHashes, ls_items l' = [] \<and> length expiredTxHashes > 0))"

fun processExpiredTransactions ::
  "int \<Rightarrow> txListForSender list \<Rightarrow> TxCache \<Rightarrow> TxCache \<times> bytes list \<times> bytes list"
where
  "processExpiredTransactions currentTime [] cache = (cache, [], [])"
| "processExpiredTransactions currentTime (l # senders) cache =
     (case processExpiredForSender currentTime l of
        (l', hashes, shouldRemoveSender) \<Rightarrow>
          (case processExpiredTransactions currentTime senders
                  (cache\<lparr>tc_txListBySender := storeList (\<lambda>_. 0) l' None (tc_txListBySender cache)\<rparr>) of
             (cache', hashes', sendersToRemove) \<Rightarrow>
               (cache', hashes @ hashes', if shouldRemoveSender then ls_sender l # sendersToRemove else sendersToRemove)))"

definition revalidateEmptySenders :: "bytes list \<Rightarrow> TxCache \<Rightarrow> bytes list" where
  "revalidateEmptySenders sendersToRemove cache =
     filter (\<lambda>sender. case getListForSender sender (tc_txListBySender cache) of
         None \<Rightarrow> False
       | Some l \<Rightarrow> ls_items l = []) sendersToRemove"

definition performBulkRemoval :: "bytes list \<Rightarrow> bytes list \<Rightarrow> TxCache \<Rightarrow> TxCache" where
  "performBulkRemoval txsToRemove sendersToRemove cache =
     (if length txsToRemove = 0 then cache
      else
        let cache1 = cache\<lparr>tc_txByHash := fst (byHash_RemoveTxsBulk txsToRemove (tc_txByHash cache))\<rparr> in
        cache1\<lparr>tc_txListBySender :=
          fst (RemoveSendersBulk (revalidateEmptySenders sendersToRemove cache1) (tc_txListBySender cache1))\<rparr>)"

definition cleanExpiredTransactions :: "int \<Rightarrow> TxCache \<Rightarrow> TxCache" where
  "cleanExpiredTransactions currentTime cache =
     (case processExpiredTransactions currentTime (GetSnapshotAscending (sm_backingMap (tc_txListBySender cache))) cache of
        (cache', txsToRemove, sendersToRemove) \<Rightarrow> performBulkRemoval txsToRemove sendersToRemove cache')"

end
