(* ===== verification/TxCacheProps.thy ===== *)
theory TxCacheProps
  imports TxListProps TxCache
begin

text \<open>
  Properties of the transaction pool: its two indexes always hold the same transactions and its
  counters count them, through additions, evictions and removals.
\<close>

section \<open>The two indexes, abstractly\<close>

type_synonym hash_index = "bytes \<rightharpoonup> WrappedTransaction"
type_synonym sender_index = "bytes \<rightharpoonup> WrappedTransaction list"

abbreviation sender_of :: "WrappedTransaction \<Rightarrow> bytes" where
  "sender_of t \<equiv> tx_Sender (wt_Tx t)"

definition listed :: "sender_index \<Rightarrow> WrappedTransaction \<Rightarrow> bool" where
  "listed S t \<longleftrightarrow> (\<exists>ts. S (sender_of t) = Some ts \<and> t \<in> set ts)"

definition index_inv :: "WrappedTransaction set \<Rightarrow> hash_index \<Rightarrow> sender_index \<Rightarrow> bool" where
  "index_inv U B S \<longleftrightarrow>
     (\<forall>s ts. S s = Some ts \<longrightarrow> distinct (map wt_TxHash ts) \<and> (\<forall>t\<in>set ts. sender_of t = s \<and> t \<in> U)) \<and>
     (\<forall>h t. B h = Some t \<longleftrightarrow> wt_TxHash t = h \<and> listed S t)"

definition drop_hashes :: "bytes list \<Rightarrow> hash_index \<Rightarrow> hash_index" where
  "drop_hashes hs B h = (if h \<in> set hs then None else B h)"

definition listOf :: "sender_index \<Rightarrow> bytes \<Rightarrow> WrappedTransaction list" where
  "listOf S s = (case S s of None \<Rightarrow> [] | Some ts \<Rightarrow> ts)"

lemma index_list:
  assumes "index_inv U B S" "S s = Some ts"
  shows "distinct (map wt_TxHash ts)" "\<And>t. t \<in> set ts \<Longrightarrow> sender_of t = s" "\<And>t. t \<in> set ts \<Longrightarrow> t \<in> U"
  using assms by (simp_all add: index_inv_def)

lemma index_hash: "index_inv U B S \<Longrightarrow> B h = Some t \<longleftrightarrow> wt_TxHash t = h \<and> listed S t"
  by (simp add: index_inv_def)

lemma listed_iff: "listed S t \<longleftrightarrow> t \<in> set (listOf S (sender_of t))"
  by (cases "S (sender_of t)") (simp_all add: listed_def listOf_def)

lemma same_hash_sender:
  assumes "hash_names U" "x \<in> U" "y \<in> U" "wt_TxHash x = wt_TxHash y"
  shows "sender_of x = sender_of y"
  using hash_namesD [OF assms] by simp

lemma listOf_ok: "index_inv U B S \<Longrightarrow> t \<in> set (listOf S s) \<Longrightarrow> t \<in> U \<and> sender_of t = s"
  by (cases "S s") (auto simp: listOf_def dest: index_list)

text \<open>The list of one sender is replaced, and the other index follows.\<close>

lemma index_replace:
  assumes inv: "index_inv U B S"
    and ts': "\<forall>t\<in>set ts'. t \<in> U \<and> sender_of t = s" "distinct (map wt_TxHash ts')"
    and B': "\<And>h t. B' h = Some t \<longleftrightarrow> (B h = Some t \<and> sender_of t \<noteq> s) \<or> (t \<in> set ts' \<and> wt_TxHash t = h)"
    and S': "S' = S(s := Some ts') \<or> ts' = [] \<and> S' = S(s := None)"
  shows "index_inv U B' S'"
  unfolding index_inv_def
proof (intro conjI allI impI)
  fix s' us
  assume "S' s' = Some us"
  then have us: "S s' = Some us \<and> s' \<noteq> s \<or> s' = s \<and> us = ts'" using S' by (auto split: if_splits)
  show "distinct (map wt_TxHash us)" using us ts'(2) index_list(1) [OF inv] by blast
  show "\<forall>t\<in>set us. sender_of t = s' \<and> t \<in> U"
    using us ts'(1) index_list(2,3) [OF inv] by blast
next
  fix h t
  have "listed S' t \<longleftrightarrow> (if sender_of t = s then t \<in> set ts' else listed S t)"
    using S' by (auto simp: listed_def)
  then show "B' h = Some t \<longleftrightarrow> wt_TxHash t = h \<and> listed S' t"
    using B' index_hash [OF inv, of h t] ts'(1) by auto
qed

lemma index_sender:
  assumes inv: "index_inv U B S" and "hash_names U" and "t \<in> U" "B (wt_TxHash t) = Some t'"
  shows "t' \<in> set (listOf S (sender_of t))"
proof -
  have t': "wt_TxHash t' = wt_TxHash t" "listed S t'" using index_hash [OF inv] assms(4) by blast+
  then have "t' \<in> U" using index_list(3) [OF inv] by (auto simp: listed_def)
  then have "sender_of t' = sender_of t" using same_hash_sender [OF assms(2)] assms(3) t'(1) by blast
  with t'(2) show ?thesis by (auto simp: listed_def listOf_def)
qed

text \<open>Transactions of one sender are cut away from both indexes.\<close>

lemma index_update:
  assumes inv: "index_inv U B S" and names: "hash_names U"
    and ts: "\<forall>t\<in>set ts. t \<in> U \<and> sender_of t = s" "distinct (map wt_TxHash ts)"
    and B1: "\<And>h t. B1 h = Some t \<longleftrightarrow> (B h = Some t \<and> sender_of t \<noteq> s) \<or> (t \<in> set ts \<and> wt_TxHash t = h)"
    and ts': "set ts' \<subseteq> set ts" "mset (map wt_TxHash ts') + mset ev = mset (map wt_TxHash ts)"
    and S': "S' = S(s := Some ts') \<or> ts' = [] \<and> S' = S(s := None)"
  shows "index_inv U (drop_hashes ev B1) S'"
proof (rule index_replace [OF inv _ _ _ S'])
  have "distinct (map wt_TxHash ts' @ ev)"
    using ts(2) ts'(2) by (metis mset_append mset_eq_imp_distinct_iff)
  then show "distinct (map wt_TxHash ts')" by simp
  have ev: "set ev \<inter> wt_TxHash ` set ts' = {}" using \<open>distinct (map wt_TxHash ts' @ ev)\<close> by auto
  have all: "wt_TxHash ` set ts = wt_TxHash ` set ts' \<union> set ev"
    using arg_cong [OF ts'(2), of set_mset] by auto
  show "\<forall>t\<in>set ts'. t \<in> U \<and> sender_of t = s" using ts(1) ts'(1) by blast
  fix h t
  have inj: "inj_on wt_TxHash (set ts)" using ts(2) by (simp add: distinct_map)
  have other: "h \<notin> set ev" if old: "B h = Some t" "sender_of t \<noteq> s"
  proof
    assume "h \<in> set ev"
    then have "h \<in> wt_TxHash ` set ts" unfolding all by simp
    then obtain x where x: "x \<in> set ts" "wt_TxHash x = h" by auto
    have "x \<in> U" "sender_of x = s" using ts(1) x(1) by simp_all
    with old(1) x(2) have "t \<in> set (listOf S s)" using index_sender [OF inv names, of x t] by simp
    then have "sender_of t = s" using listOf_ok [OF inv] by blast
    with old(2) show False by simp
  qed
  have "t \<in> set ts \<and> wt_TxHash t \<notin> set ev \<longleftrightarrow> t \<in> set ts'"
  proof
    assume t: "t \<in> set ts \<and> wt_TxHash t \<notin> set ev"
    then have "wt_TxHash t \<in> wt_TxHash ` set ts' \<union> set ev" using all by blast
    with t obtain x where x: "x \<in> set ts'" "wt_TxHash x = wt_TxHash t" by auto
    then have "x = t" using inj_onD [OF inj, of x t] t ts'(1) by blast
    with x show "t \<in> set ts'" by simp
  qed (use ts'(1) ev in blast)
  then show "drop_hashes ev B1 h = Some t \<longleftrightarrow> (B h = Some t \<and> sender_of t \<noteq> s) \<or> (t \<in> set ts' \<and> wt_TxHash t = h)"
    using B1 other ev by (auto simp: drop_hashes_def)
qed

lemma index_cut:
  assumes inv: "index_inv U B S" and names: "hash_names U"
    and ts': "set ts' \<subseteq> set (listOf S s)" "mset (map wt_TxHash ts') + mset ev = mset (map wt_TxHash (listOf S s))"
    and S': "S' = S(s := Some ts') \<or> ts' = [] \<and> S' = S(s := None)"
  shows "index_inv U (drop_hashes ev B) S'"
proof (rule index_update [OF inv names _ _ _ ts' S'])
  show "\<forall>t\<in>set (listOf S s). t \<in> U \<and> sender_of t = s" using listOf_ok [OF inv] by blast
  show "distinct (map wt_TxHash (listOf S s))"
    using index_list(1) [OF inv] by (cases "S s") (auto simp: listOf_def)
  show "B h = Some t \<longleftrightarrow> (B h = Some t \<and> sender_of t \<noteq> s) \<or> (t \<in> set (listOf S s) \<and> wt_TxHash t = h)" for h t
    using index_hash [OF inv, of h t] listOf_ok [OF inv, of t s] unfolding listed_iff by metis
qed

lemma index_add:
  assumes inv: "index_inv U B S" and names: "hash_names U"
    and tx: "tx \<in> U" "sender_of tx = s" "B (wt_TxHash tx) = None"
    and ts': "set ts' \<subseteq> insert tx (set (listOf S s))"
      "mset (map wt_TxHash ts') + mset ev = add_mset (wt_TxHash tx) (mset (map wt_TxHash (listOf S s)))"
  shows "index_inv U (drop_hashes ev (B(wt_TxHash tx \<mapsto> tx))) (S(s := Some ts'))"
proof (rule index_update [OF inv names, of "tx # listOf S s" s _ ts'])
  show "\<forall>t\<in>set (tx # listOf S s). t \<in> U \<and> sender_of t = s" using listOf_ok [OF inv] tx by auto
  have "B (wt_TxHash t) = Some t" if "t \<in> set (listOf S s)" for t
    using index_hash [OF inv, of "wt_TxHash t" t] listOf_ok [OF inv that] that by (simp add: listed_iff)
  then have new: "wt_TxHash tx \<notin> wt_TxHash ` set (listOf S s)" using tx(3) by force
  then show "distinct (map wt_TxHash (tx # listOf S s))"
    using index_list(1) [OF inv] by (cases "S s") (auto simp: listOf_def)
  show "(B(wt_TxHash tx \<mapsto> tx)) h = Some t \<longleftrightarrow> (B h = Some t \<and> sender_of t \<noteq> s) \<or> (t \<in> set (tx # listOf S s) \<and> wt_TxHash t = h)" for h t
    using index_hash [OF inv, of h t] listOf_ok [OF inv, of t s] tx new by (auto simp: listed_iff)
qed (use ts' in simp_all)

end
