(* ===== verification/TxCacheInv.thy ===== *)
theory TxCacheInv
  imports TxCacheProps
begin

text \<open>
  The invariant of the transaction pool and the operations that keep it. The index by hash is
  described by the finite map of its lookups, the index by sender by the lists it holds; the score
  chunks of the sorted map name every sender exactly once, in the chunk its list points to.
\<close>

section \<open>The index by hash\<close>

abbreviation byHash :: "txByHashMap \<Rightarrow> hash_index" where
  "byHash m \<equiv> \<lambda>h. byHash_getTx h m"

text \<open>
  The counter counts the transactions and the number of bytes adds up their sizes, except for the
  \<open>stale\<close> bytes of transactions that were cleared.
\<close>

definition hash_ok :: "int \<Rightarrow> txByHashMap \<Rightarrow> bool" where
  "hash_ok stale m \<longleftrightarrow> wf_cmap (bh_backingMap m) \<and>
     bh_counter m = i64 (cmap.total (\<lambda>_. 1) (bh_backingMap m)) \<and>
     bh_numBytes m = i64 (stale + cmap.total wt_Size (bh_backingMap m))"

lemma i64_minus_mod [simp]: "i64 (b - i64 a) = i64 (b - a)"
  by (simp add: i64_def mod_simps algebra_simps)

lemma hash_addTx:
  assumes ok: "hash_ok stale m" and run: "byHash_addTx tx m = (m', added)"
  shows "hash_ok stale m'" "added \<longleftrightarrow> byHash m (wt_TxHash tx) = None"
    "byHash m' = (if added then (byHash m)(wt_TxHash tx \<mapsto> tx) else byHash m)"
proof -
  have wf: "wf_cmap (bh_backingMap m)" using ok by (simp add: hash_ok_def)
  have "hash_ok stale m' \<and> (added \<longleftrightarrow> byHash m (wt_TxHash tx) = None) \<and>
      byHash m' = (if added then (byHash m)(wt_TxHash tx \<mapsto> tx) else byHash m)"
  proof (cases "cm_Get (wt_TxHash tx) (bh_backingMap m)")
    case None
    then have m': "m' = m\<lparr>bh_backingMap := cm_Set (wt_TxHash tx) tx (bh_backingMap m), bh_counter := i64 (bh_counter m + 1),
        bh_numBytes := i64 (bh_numBytes m + wt_Size tx)\<rparr>" "added"
      using run by (simp_all add: byHash_addTx_def cm_SetIfAbsent_def cm_Get_def)
    show ?thesis
      using ok None cmap.total_set [OF wf None] cmap.set_ok [OF wf] cmap.get_set [OF wf]
      by (auto simp: m' hash_ok_def byHash_getTx_def algebra_simps)
  next
    case (Some t)
    then show ?thesis using run ok by (auto simp: byHash_addTx_def cm_SetIfAbsent_def byHash_getTx_def cm_Get_def)
  qed
  then show "hash_ok stale m'" "added \<longleftrightarrow> byHash m (wt_TxHash tx) = None"
    "byHash m' = (if added then (byHash m)(wt_TxHash tx \<mapsto> tx) else byHash m)" by blast+
qed

lemma hash_removeTx:
  assumes ok: "hash_ok stale m" and run: "byHash_removeTx h m = (m', r)"
  shows "hash_ok stale m'" "r = byHash m h" "byHash m' = (byHash m)(h := None)"
proof -
  have wf: "wf_cmap (bh_backingMap m)" using ok by (simp add: hash_ok_def)
  obtain bm r' where rem: "cm_Remove h (bh_backingMap m) = (bm, r')" by fastforce
  have bm: "wf_cmap bm" "\<And>k. cm_Get k bm = (if k = h then None else cm_Get k (bh_backingMap m))"
    "r' = cm_Get h (bh_backingMap m)"
    "\<And>f. cmap.total f bm = cmap.total f (bh_backingMap m) - (case r' of None \<Rightarrow> 0 | Some v \<Rightarrow> f v)"
    using cmap.remove_ok [OF wf, of h] cmap.get_remove [OF wf, of _ h] cmap.removed [OF wf, of h] cmap.total_remove [OF wf, of _ h]
    by (simp_all add: rem)
  have "hash_ok stale m' \<and> r = r' \<and> bh_backingMap m' = bm"
    using ok run bm(1,4) by (cases r') (auto simp: byHash_removeTx_def rem hash_ok_def add_diff_eq)
  then show "hash_ok stale m'" "r = byHash m h" "byHash m' = (byHash m)(h := None)"
    using bm(2,3) by (auto simp: byHash_getTx_def)
qed

lemma drop_hashes_Cons: "drop_hashes (h # hs) B = drop_hashes hs (B(h := None))"
  by (auto simp: drop_hashes_def)

lemma drop_hashes_append: "drop_hashes (xs @ ys) B = drop_hashes ys (drop_hashes xs B)"
  by (auto simp: drop_hashes_def)

lemma drop_hashes_Nil [simp]: "drop_hashes [] B = B"
  by (auto simp: drop_hashes_def)

lemma hash_bulk:
  assumes "hash_ok stale m"
  shows "hash_ok stale (fst (byHash_RemoveTxsBulk hs m)) \<and> byHash (fst (byHash_RemoveTxsBulk hs m)) = drop_hashes hs (byHash m)"
  using assms
proof (induction hs arbitrary: m)
  case (Cons h hs)
  obtain m1 r where run: "byHash_removeTx h m = (m1, r)" by fastforce
  note step = hash_removeTx [OF Cons.prems run]
  show ?case using Cons.IH [OF step(1)] by (cases "byHash_RemoveTxsBulk hs m1") (simp add: run step(3) drop_hashes_Cons)
qed simp

section \<open>The sorted map\<close>

definition home :: "BucketSortedMap \<Rightarrow> bytes \<Rightarrow> nat option" where
  "home m key = Option.bind (bs_Get key m) ls_scoreChunk"

definition chunk_inv :: "BucketSortedMap \<Rightarrow> bool" where
  "chunk_inv m \<longleftrightarrow> wf_cmap (bs_chunks m) \<and> length (bs_scoreChunks m) = Suc (bs_maxScore m) \<and>
     (\<forall>key l. bs_Get key m = Some l \<longrightarrow> ls_sender l = key) \<and>
     (\<forall>i < length (bs_scoreChunks m). distinct (bs_scoreChunks m ! i)) \<and>
     (\<forall>i < length (bs_scoreChunks m). \<forall>key. key \<in> set (bs_scoreChunks m ! i) \<longleftrightarrow> home m key = Some i) \<and>
     (\<forall>key i. home m key = Some i \<longrightarrow> i < length (bs_scoreChunks m))"

lemma chunk_invD:
  assumes "chunk_inv m"
  shows "wf_cmap (bs_chunks m)" "length (bs_scoreChunks m) = Suc (bs_maxScore m)"
    "bs_Get key m = Some l \<Longrightarrow> ls_sender l = key"
    "i < length (bs_scoreChunks m) \<Longrightarrow> distinct (bs_scoreChunks m ! i)"
    "i < length (bs_scoreChunks m) \<Longrightarrow> key \<in> set (bs_scoreChunks m ! i) \<longleftrightarrow> home m key = Some i"
    "home m key = Some i \<Longrightarrow> i < length (bs_scoreChunks m)"
  using assms unfolding chunk_inv_def by blast+

lemma bs_Set_sel [simp]:
  "bs_scoreChunks (bs_Set l m) = bs_scoreChunks m" "bs_maxScore (bs_Set l m) = bs_maxScore m"
  "bs_chunks (bs_Set l m) = cm_Set (ls_sender l) l (bs_chunks m)"
  by (simp_all add: bs_Set_def)

lemma bs_Get_Set: "chunk_inv m \<Longrightarrow> bs_Get k (bs_Set l m) = (if k = ls_sender l then Some l else bs_Get k m)"
  using chunk_invD(1) by (simp add: bs_Get_def bs_Set_def cmap.get_set)

text \<open>A list is stored back with the score chunk it had.\<close>

lemma bs_Set_inv:
  assumes inv: "chunk_inv m" and same: "ls_scoreChunk l = home m (ls_sender l)"
  shows "chunk_inv (bs_Set l m)"
proof -
  have "home (bs_Set l m) key = home m key" for key
    using same by (simp add: home_def bs_Get_Set [OF inv])
  then show ?thesis
    using inv bs_Get_Set [OF inv] cmap.set_ok [OF chunk_invD(1) [OF inv]] by (auto simp: chunk_inv_def)
qed

lemma removeFromScoreChunk_chunks:
  "bs_chunks (removeFromScoreChunk l m) = bs_chunks m" "bs_maxScore (removeFromScoreChunk l m) = bs_maxScore m"
  "length (bs_scoreChunks (removeFromScoreChunk l m)) = length (bs_scoreChunks m)"
  by (simp_all add: removeFromScoreChunk_def split: option.splits)

lemma nth_removeFromScoreChunk:
  "i < length (bs_scoreChunks m) \<Longrightarrow>
   bs_scoreChunks (removeFromScoreChunk l m) ! i =
     (if ls_scoreChunk l = Some i then removeAll (ls_sender l) (bs_scoreChunks m ! i) else bs_scoreChunks m ! i)"
  by (auto simp: removeFromScoreChunk_def nth_list_update split: option.splits)

text \<open>A list whose score is notified moves to the chunk of the score.\<close>

lemma Notify_chunk:
  assumes inv: "chunk_inv m" and same: "ls_scoreChunk l = home m (ls_sender l)" and run: "NotifyScoreChange l sc m = (m', l')"
    and j: "j < length (bs_scoreChunks m)"
  shows "distinct (bs_scoreChunks m' ! j)"
    "k \<in> set (bs_scoreChunks m' ! j) \<longleftrightarrow> (if k = ls_sender l then j = min sc (bs_maxScore m) else home m k = Some j)"
proof -
  define i where "i = min sc (bs_maxScore m)"
  have "distinct (bs_scoreChunks m' ! j) \<and> (k \<in> set (bs_scoreChunks m' ! j) \<longleftrightarrow> (if k = ls_sender l then j = i else home m k = Some j))"
  proof (cases "ls_scoreChunk l = Some i")
    case True
    then have "m' = m" using run by (simp add: NotifyScoreChange_def Let_def i_def)
    then have "distinct (bs_scoreChunks m' ! j)" "k \<in> set (bs_scoreChunks m' ! j) \<longleftrightarrow> home m k = Some j"
      using chunk_invD(4,5) [OF inv j] by simp_all
    moreover have "home m (ls_sender l) = Some i" using same True by simp
    ultimately show ?thesis by auto
  next
    case False
    then have m': "bs_scoreChunks m' = (bs_scoreChunks (removeFromScoreChunk l m))
        [i := setKey (ls_sender l) (bs_scoreChunks (removeFromScoreChunk l m) ! i)]"
      using run by (auto simp: NotifyScoreChange_def Let_def i_def)
    define c where "c = bs_scoreChunks (removeFromScoreChunk l m) ! j"
    have c: "distinct c" "k \<in> set c \<longleftrightarrow> k \<noteq> ls_sender l \<and> home m k = Some j" for k
      using chunk_invD(4,5) [OF inv j] same by (auto simp: c_def nth_removeFromScoreChunk [OF j] distinct_removeAll)
    have "bs_scoreChunks m' ! j = (if j = i then setKey (ls_sender l) c else c)"
      using j by (simp add: m' c_def nth_list_update removeFromScoreChunk_chunks)
    then show ?thesis using c by (auto simp: setKey_def)
  qed
  then show "distinct (bs_scoreChunks m' ! j)"
    "k \<in> set (bs_scoreChunks m' ! j) \<longleftrightarrow> (if k = ls_sender l then j = min sc (bs_maxScore m) else home m k = Some j)"
    by (simp_all add: i_def)
qed

lemma Notify_inv:
  assumes inv: "chunk_inv m" and same: "ls_scoreChunk l = home m (ls_sender l)" and run: "NotifyScoreChange l sc m = (m', l')"
  shows "chunk_inv (bs_Set l' m')" "l' = l\<lparr>ls_scoreChunk := Some (min sc (bs_maxScore m))\<rparr>"
    "\<And>k. bs_Get k (bs_Set l' m') = (if k = ls_sender l then Some l' else bs_Get k m)"
proof -
  define i where "i = min sc (bs_maxScore m)"
  have i: "i < length (bs_scoreChunks m)" using chunk_invD(2) [OF inv] by (simp add: i_def)
  note wf = chunk_invD(1) [OF inv]
  show l': "l' = l\<lparr>ls_scoreChunk := Some (min sc (bs_maxScore m))\<rparr>"
    using run by (auto simp: NotifyScoreChange_def Let_def split: if_splits)
  then have l'_sel [simp]: "ls_sender l' = ls_sender l" "ls_scoreChunk l' = Some i" by (simp_all add: i_def)
  have chunks: "bs_chunks m' = bs_chunks m" "bs_maxScore m' = bs_maxScore m" "length (bs_scoreChunks m') = length (bs_scoreChunks m)"
    using run by (auto simp: NotifyScoreChange_def Let_def removeFromScoreChunk_chunks split: if_splits)
  show get: "bs_Get k (bs_Set l' m') = (if k = ls_sender l then Some l' else bs_Get k m)" for k
    using cmap.get_set [OF wf] by (simp add: bs_Get_def chunks)
  have home': "home (bs_Set l' m') k = (if k = ls_sender l then Some i else home m k)" for k
    by (simp add: home_def get)
  note nth = Notify_chunk [OF inv same run, folded i_def]
  show "chunk_inv (bs_Set l' m')"
    unfolding chunk_inv_def
  proof (intro conjI allI impI)
    show "wf_cmap (bs_chunks (bs_Set l' m'))" using cmap.set_ok [OF wf] by (simp add: chunks)
    show "length (bs_scoreChunks (bs_Set l' m')) = Suc (bs_maxScore (bs_Set l' m'))"
      using chunk_invD(2) [OF inv] by (simp add: chunks)
    show "ls_sender x = key" if "bs_Get key (bs_Set l' m') = Some x" for key x
    proof (cases "key = ls_sender l")
      case True
      with that have "x = l'" by (simp add: get)
      with True show ?thesis by simp
    qed (use that chunk_invD(3) [OF inv] in \<open>simp add: get\<close>)
    fix j assume "j < length (bs_scoreChunks (bs_Set l' m'))"
    then have j: "j < length (bs_scoreChunks m)" by (simp add: chunks)
    show "distinct (bs_scoreChunks (bs_Set l' m') ! j)" using nth [OF j] by simp
    show "key \<in> set (bs_scoreChunks (bs_Set l' m') ! j) \<longleftrightarrow> home (bs_Set l' m') key = Some j" for key
      using nth [OF j] by (auto simp: home')
  next
    show "j < length (bs_scoreChunks (bs_Set l' m'))" if "home (bs_Set l' m') key = Some j" for key j
      using that i chunk_invD(6) [OF inv] by (auto simp: home' chunks split: if_splits)
  qed
qed

lemma bs_Remove_inv:
  assumes inv: "chunk_inv m" and run: "bs_Remove key m = (m', r)"
  shows "chunk_inv m'" "r = bs_Get key m" "\<And>k. bs_Get k m' = (if k = key then None else bs_Get k m)"
proof -
  note wf = chunk_invD(1) [OF inv]
  obtain cs r' where rem: "cm_Remove key (bs_chunks m) = (cs, r')" by fastforce
  have cs: "wf_cmap cs" "\<And>k. cm_Get k cs = (if k = key then None else cm_Get k (bs_chunks m))" "r' = bs_Get key m"
    using cmap.remove_ok [OF wf, of key] cmap.get_remove [OF wf, of _ key] cmap.removed [OF wf, of key]
    by (simp_all add: rem bs_Get_def)
  have m': "r = r'" "bs_chunks m' = cs" "bs_maxScore m' = bs_maxScore m" "length (bs_scoreChunks m') = length (bs_scoreChunks m)"
    using run by (auto simp: bs_Remove_def rem removeFromScoreChunk_chunks split: option.splits)
  show "r = bs_Get key m" by (simp add: m' cs)
  show get: "bs_Get k m' = (if k = key then None else bs_Get k m)" for k by (simp add: bs_Get_def m' cs)
  have home': "home m' k = (if k = key then None else home m k)" for k by (simp add: home_def get)
  have nth: "bs_scoreChunks m' ! j = removeAll key (bs_scoreChunks m ! j)" if j: "j < length (bs_scoreChunks m)" for j
  proof (cases "bs_Get key m")
    case None
    then have "m' = m\<lparr>bs_chunks := cs\<rparr>" using run by (simp add: bs_Remove_def rem cs(3))
    moreover have "key \<notin> set (bs_scoreChunks m ! j)" using chunk_invD(5) [OF inv j] None by (simp add: home_def)
    ultimately show ?thesis by simp
  next
    case (Some l)
    then have "m' = removeFromScoreChunk l (m\<lparr>bs_chunks := cs\<rparr>)" "ls_sender l = key"
      using run chunk_invD(3) [OF inv] by (simp_all add: bs_Remove_def rem cs(3))
    then show ?thesis
      using chunk_invD(5) [OF inv j, of key] Some j nth_removeFromScoreChunk [of j "m\<lparr>bs_chunks := cs\<rparr>" l] by (auto simp: home_def)
  qed
  show "chunk_inv m'"
    using inv cs(1) by (auto simp: chunk_inv_def get home' nth m' distinct_removeAll split: if_splits)
qed

section \<open>The index by sender\<close>

abbreviation listFor :: "txListBySenderMap \<Rightarrow> bytes \<Rightarrow> txListForSender option" where
  "listFor m \<equiv> \<lambda>s. getListForSender s m"

definition senders :: "txListBySenderMap \<Rightarrow> sender_index" where
  "senders m s = map_option txs (listFor m s)"

definition sender_ok :: "txListBySenderMap \<Rightarrow> bool" where
  "sender_ok m \<longleftrightarrow> chunk_inv (sm_backingMap m) \<and> sm_counter m = i64 (int (card (dom (listFor m)))) \<and>
     (\<forall>s l. listFor m s = Some l \<longrightarrow> list_inv l \<and> ls_scoreChunk l \<noteq> None)"

lemma sender_okD:
  assumes "sender_ok m"
  shows "chunk_inv (sm_backingMap m)" "sm_counter m = i64 (int (card (dom (listFor m))))"
    "listFor m s = Some l \<Longrightarrow> list_inv l" "listFor m s = Some l \<Longrightarrow> ls_scoreChunk l \<noteq> None"
    "listFor m s = Some l \<Longrightarrow> ls_sender l = s"
  using assms chunk_invD(3) [of "sm_backingMap m" s l] by (auto simp: sender_ok_def getListForSender_def)

lemma finite_senders: "chunk_inv (sm_backingMap m) \<Longrightarrow> finite (dom (listFor m))"
  using cmap.finite_abs [OF chunk_invD(1)] by (simp add: getListForSender_def bs_Get_def cmap.abs_map_def [abs_def])

text \<open>What the operations on a list leave alone.\<close>

definition frame :: "txListForSender \<Rightarrow> txListForSender \<Rightarrow> bool" where
  "frame l l' \<longleftrightarrow> ls_sender l' = ls_sender l \<and> ls_scoreChunk l' = ls_scoreChunk l"

lemma frame_refl [simp]: "frame l l" by (simp add: frame_def)

lemma frame_trans [trans]: "frame l l1 \<Longrightarrow> frame l1 l2 \<Longrightarrow> frame l l2" by (simp add: frame_def)

lemma frame_dropElem: "frame l (dropElem e l)"
  by (simp add: frame_def dropElem_def onRemovedListElement_def)

lemma frame_expireLoop: "frame l (fst (expireLoop now es l ev))"
  by (induction now es l ev rule: expireLoop.induct) (auto intro: frame_trans [OF frame_dropElem])

lemma frame_lowerLoop: "frame l (fst (lowerLoop n es l ev))"
  by (induction n es l ev rule: lowerLoop.induct) (auto intro: frame_trans [OF frame_dropElem])

lemma frame_shrinkLoop: "frame l (fst (shrinkLoop n e l ev))"
  by (induction n e l ev rule: shrinkLoop.induct) (auto simp: Let_def intro: frame_trans [OF frame_dropElem])

lemma frame_applySizeConstraints: "frame l (fst (applySizeConstraints now l))"
  using frame_trans [OF frame_expireLoop frame_shrinkLoop]
  by (simp add: applySizeConstraints_def split: prod.split) (metis fst_conv)

lemma frame_AddTx: "AddTx now tx l = (l', r) \<Longrightarrow> frame l l'"
proof -
  assume run: "AddTx now tx l = (l', r)"
  have "frame l (onAddedTransaction tx (l\<lparr>ls_items := items, ls_fresh := n\<rparr>))" for items n
    by (simp add: frame_def onAddedTransaction_def)
  from frame_trans [OF this frame_applySizeConstraints] run show ?thesis
    by (auto simp: AddTx_def Let_def split: sum.splits prod.splits) (metis fst_conv)+
qed

lemma frame_RemoveTx: "RemoveTx tx l = (l', r) \<Longrightarrow> frame l l'"
  using frame_dropElem by (auto simp: RemoveTx_def Let_def split: option.splits)

lemma frame_selectBatchTo: "selectBatchTo f sp bs bw l = (l', r) \<Longrightarrow> frame l l'"
  by (auto simp: selectBatchTo_def Let_def frame_def verifyInitialGapOnSelectionStart_def split: if_splits prod.splits)

lemma list_inv_update [simp]:
  "list_inv (l\<lparr>ls_scoreChunk := c\<rparr>) = list_inv l" "list_inv (l\<lparr>ls_lastComputedScore := n\<rparr>) = list_inv l"
  "txs (l\<lparr>ls_scoreChunk := c\<rparr>) = txs l" "txs (l\<lparr>ls_lastComputedScore := n\<rparr>) = txs l"
  by (simp_all add: list_inv_def txs_def)

lemma storeList_step:
  assumes inv: "chunk_inv (sm_backingMap m)" and same: "ls_scoreChunk l = home (sm_backingMap m) (ls_sender l)"
  obtains l' where "chunk_inv (sm_backingMap (storeList score l notify m))"
    "listFor (storeList score l notify m) = (listFor m)(ls_sender l \<mapsto> l')"
    "sm_counter (storeList score l notify m) = sm_counter m"
    "txs l' = txs l" "list_inv l' = list_inv l" "ls_scoreChunk l' = None \<longleftrightarrow> notify = None \<and> ls_scoreChunk l = None"
proof (cases notify)
  case None
  show thesis
    by (rule that [of l])
       (simp_all add: None storeList_def bs_Set_inv [OF inv same] getListForSender_def bs_Get_Set [OF inv] fun_eq_iff)
next
  case (Some params)
  define sc where "sc = score params"
  obtain bm l' where run: "NotifyScoreChange (l\<lparr>ls_lastComputedScore := int sc\<rparr>) sc (sm_backingMap m) = (bm, l')" by fastforce
  have st: "storeList score l notify m = m\<lparr>sm_backingMap := bs_Set l' bm\<rparr>"
    using run by (simp add: Some storeList_def notifyScoreChange_def Let_def sc_def)
  note step = Notify_inv [OF inv _ run, simplified, OF same]
  have "txs l' = txs l" "list_inv l' = list_inv l" "ls_scoreChunk l' \<noteq> None" by (simp_all add: step(2))
  then show thesis
    by (intro that [of l'], unfold st) (simp_all add: step(1,3) getListForSender_def fun_eq_iff Some)
qed

text \<open>A changed list is stored back under its sender.\<close>

lemma sender_store:
  assumes ok: "sender_ok m" and l: "listFor m s = Some l" "frame l l'" "list_inv l'"
  shows "sender_ok (storeList score l' notify m)" "senders (storeList score l' notify m) = (senders m)(s \<mapsto> txs l')"
proof -
  note inv = sender_okD(1) [OF ok]
  have sc: "ls_scoreChunk l \<noteq> None" "ls_sender l = s" using sender_okD(4,5) [OF ok l(1)] by simp_all
  then have l': "ls_scoreChunk l' \<noteq> None" "ls_sender l' = s" using l(2) by (simp_all add: frame_def)
  have same: "ls_scoreChunk l' = home (sm_backingMap m) (ls_sender l')"
    using l sc by (simp add: frame_def home_def getListForSender_def)
  from storeList_step [OF inv same, of score notify] obtain l'' where st: "chunk_inv (sm_backingMap (storeList score l' notify m))"
    "listFor (storeList score l' notify m) = (listFor m)(ls_sender l' \<mapsto> l'')"
    "sm_counter (storeList score l' notify m) = sm_counter m"
    "txs l'' = txs l'" "list_inv l'' = list_inv l'" "ls_scoreChunk l'' = None \<longleftrightarrow> notify = None \<and> ls_scoreChunk l' = None"
    by blast
  have dom': "dom (listFor (storeList score l' notify m)) = dom (listFor m)" unfolding st(2) using l(1) l'(2) by auto
  have "list_inv x \<and> ls_scoreChunk x \<noteq> None" if "listFor (storeList score l' notify m) k = Some x" for k x
    using that st(5,6) l(3) l' sender_okD(3,4) [OF ok, of k x] by (auto simp: fun_cong [OF st(2)] split: if_splits)
  then show "sender_ok (storeList score l' notify m)"
    unfolding sender_ok_def dom' st(3) using st(1) sender_okD(2) [OF ok] by blast
  show "senders (storeList score l' notify m) = (senders m)(s \<mapsto> txs l')"
    by (simp add: senders_def fun_cong [OF st(2)] st(4) l'(2) fun_eq_iff)
qed

lemma card_dom_remove:
  assumes "finite (dom f)"
  shows "int (card (dom (f(s := None)))) = int (card (dom f)) - (if f s = None then 0 else 1)"
proof (cases "f s")
  case None
  then have "f(s := None) = f" by auto
  with None show ?thesis by simp
next
  case (Some v)
  then have "s \<in> dom f" by auto
  then have "card (dom f) = Suc (card (dom f - {s}))" using assms by (metis card.remove)
  then show ?thesis using Some by simp
qed

lemma sender_remove:
  assumes ok: "sender_ok m"
  shows "sender_ok (fst (removeSender s m)) \<and> listFor (fst (removeSender s m)) = (listFor m)(s := None) \<and>
    senders (fst (removeSender s m)) = (senders m)(s := None)"
proof -
  note inv = sender_okD(1) [OF ok]
  obtain bm r where run: "bs_Remove s (sm_backingMap m) = (bm, r)" by fastforce
  note step = bs_Remove_inv [OF inv run]
  define m' where "m' = fst (removeSender s m)"
  have m': "sm_backingMap m' = bm" "sm_counter m' = (if r = None then sm_counter m else i64 (sm_counter m - 1))"
    by (simp_all add: m'_def removeSender_def run split: option.splits)
  have list': "listFor m' = (listFor m)(s := None)" using step(3) by (auto simp: m' getListForSender_def)
  have r: "r = listFor m s" by (simp add: step(2) getListForSender_def)
  have "int (card (dom ((listFor m)(s := None)))) = int (card (dom (listFor m))) - (if r = None then 0 else 1)"
    unfolding r by (rule card_dom_remove [OF finite_senders [OF inv]])
  then have "sm_counter m' = i64 (int (card (dom (listFor m'))))"
    using sender_okD(2) [OF ok] by (simp add: m'(2) list' del: fun_upd_apply)
  then have "sender_ok m'"
    using step(1) sender_okD(3,4) [OF ok] unfolding sender_ok_def fun_cong [OF list'] m'(1) by (auto split: if_splits)
  then show ?thesis unfolding m'_def [symmetric] by (simp add: fun_cong [OF list'] senders_def fun_eq_iff)
qed

lemma senders_listOf: "listFor m s = Some l \<Longrightarrow> listOf (senders m) s = txs l" "listFor m s = None \<Longrightarrow> listOf (senders m) s = []"
  by (simp_all add: listOf_def senders_def)

lemma list_inv_new: "list_inv (newTxListForSender s c)" "txs (newTxListForSender s c) = []"
  by (simp_all add: list_inv_def txs_def newTxListForSender_def i64_def)

text \<open>A sender that is not known gets a new list, and the first transaction gives it a score.\<close>

lemma sender_new:
  assumes ok: "sender_ok m" and none: "listFor m s = None"
    and l': "frame (newTxListForSender s c) l'" "list_inv l'" "c = sm_senderConstraints m"
  shows "sender_ok (storeList score l' (Some p) (fst (addSender s m)))"
    "senders (storeList score l' (Some p) (fst (addSender s m))) = (senders m)(s \<mapsto> txs l')"
proof -
  note inv = sender_okD(1) [OF ok]
  define l where "l = newTxListForSender s c"
  define m1 where "m1 = fst (addSender s m)"
  have l: "ls_scoreChunk l = None" "ls_sender l = s" by (simp_all add: l_def newTxListForSender_def)
  have m1: "sm_backingMap m1 = bs_Set l (sm_backingMap m)" "sm_counter m1 = i64 (sm_counter m + 1)"
    by (simp_all add: m1_def addSender_def Let_def l_def l'(3))
  have list1: "listFor m1 = (listFor m)(s \<mapsto> l)"
    by (simp add: getListForSender_def m1(1) bs_Get_Set [OF inv] l fun_eq_iff)
  have "home (sm_backingMap m) s = None" using none by (simp add: home_def getListForSender_def)
  then have inv1: "chunk_inv (sm_backingMap m1)" using bs_Set_inv [OF inv, of l] l by (simp add: m1(1))
  have l'_sel: "ls_scoreChunk l' = None" "ls_sender l' = s" using l'(1) l by (simp_all add: frame_def l_def)
  have same: "ls_scoreChunk l' = home (sm_backingMap m1) (ls_sender l')"
    using fun_cong [OF list1, of s] l'_sel l by (simp add: home_def getListForSender_def)
  from storeList_step [OF inv1 same, of score "Some p"] obtain l'' where st: "chunk_inv (sm_backingMap (storeList score l' (Some p) m1))"
    "listFor (storeList score l' (Some p) m1) = (listFor m1)(s \<mapsto> l'')"
    "sm_counter (storeList score l' (Some p) m1) = sm_counter m1"
    "txs l'' = txs l'" "list_inv l'' = list_inv l'" "ls_scoreChunk l'' \<noteq> None"
    unfolding l'_sel by auto
  have list2: "listFor (storeList score l' (Some p) m1) = (listFor m)(s \<mapsto> l'')" unfolding st(2) list1 by simp
  have "card (dom (listFor (storeList score l' (Some p) m1))) = Suc (card (dom (listFor m)))"
    unfolding list2 using none finite_senders [OF inv] by (simp add: domIff)
  then have "sm_counter (storeList score l' (Some p) m1) = i64 (int (card (dom (listFor (storeList score l' (Some p) m1)))))"
    using sender_okD(2) [OF ok] by (simp add: st(3) m1(2) add.commute)
  moreover have "list_inv x \<and> ls_scoreChunk x \<noteq> None" if "listFor (storeList score l' (Some p) m1) k = Some x" for k x
    using that st(5,6) l'(2) sender_okD(3,4) [OF ok, of k x] by (auto simp: fun_cong [OF list2] split: if_splits)
  ultimately show "sender_ok (storeList score l' (Some p) (fst (addSender s m)))"
    unfolding sender_ok_def m1_def [symmetric] using st(1) by blast
  show "senders (storeList score l' (Some p) (fst (addSender s m))) = (senders m)(s \<mapsto> txs l')"
    unfolding m1_def [symmetric] by (simp add: senders_def fun_cong [OF list2] st(4) fun_eq_iff)
qed

lemma bySender_addTx_step:
  assumes ok: "sender_ok m" and names: "hash_names (insert tx (set (listOf (senders m) (sender_of tx))))"
    and run: "bySender_addTx score now tx m = (m', added, ev)"
  obtains ts' where "sender_ok m'" "senders m' = (senders m)(sender_of tx \<mapsto> ts')"
    "added \<longleftrightarrow> wt_TxHash tx \<notin> wt_TxHash ` set (listOf (senders m) (sender_of tx))"
    "\<not> added \<longrightarrow> ts' = listOf (senders m) (sender_of tx) \<and> ev = []"
    "added \<longrightarrow> mset (map wt_TxHash ts') + mset ev = add_mset (wt_TxHash tx) (mset (map wt_TxHash (listOf (senders m) (sender_of tx))))"
    "set ts' \<subseteq> insert tx (set (listOf (senders m) (sender_of tx)))"
proof (cases "listFor m (sender_of tx)")
  case (Some l)
  obtain l' notify where add: "AddTx now tx l = (l', added, ev, notify)" "m' = storeList score l' notify m"
    using run by (auto simp: bySender_addTx_def getOrAddListForSender_def Some split: prod.splits)
  note ts = senders_listOf(1) [OF Some]
  note step = AddTx_step [OF sender_okD(3) [OF ok Some] names [unfolded ts] add(1)]
  show thesis
  proof (rule that [of "txs l'"])
    show "sender_ok m'" "senders m' = (senders m)(sender_of tx \<mapsto> txs l')"
      unfolding add(2) by (rule sender_store [OF ok Some frame_AddTx [OF add(1)] step(1)])+
  qed (use step in \<open>simp_all add: ts hashes_def\<close>)
next
  case None
  define c where "c = sm_senderConstraints m"
  define l where "l = newTxListForSender (sender_of tx) c"
  obtain l' notify where add: "AddTx now tx l = (l', added, ev, notify)" "m' = storeList score l' notify (fst (addSender (sender_of tx) m))"
    using run by (auto simp: bySender_addTx_def getOrAddListForSender_def None addSender_def Let_def l_def c_def split: prod.splits)
  note ts = senders_listOf(2) [OF None]
  have l: "list_inv l" "txs l = []" by (simp_all add: l_def list_inv_new)
  note step = AddTx_step [OF l(1) _ add(1)]
  have nm: "hash_names (insert tx (set (txs l)))" by (simp add: l(2) hash_names_def)
  have added: "added" using step(2) [OF nm] by (simp add: hashes_def l(2))
  then obtain p where p: "notify = Some p" using add(1) by (auto simp: AddTx_def Let_def split: sum.splits prod.splits)
  show thesis
  proof (rule that [of "txs l'"])
    show "sender_ok m'" "senders m' = (senders m)(sender_of tx \<mapsto> txs l')"
      unfolding add(2) p
      by (rule sender_new [OF ok None frame_AddTx [OF add(1) [unfolded l_def]] step(1) [OF nm] c_def])+
  qed (use step [OF nm] added in \<open>simp_all add: ts hashes_def l(2)\<close>)
qed

text \<open>An empty list is taken out together with its sender.\<close>

lemma sender_shrink:
  fixes score notify
  assumes ok: "sender_ok m" and l: "listFor m s = Some l" "frame l l'" "list_inv l'"
  defines "m1 \<equiv> storeList score l' notify m"
  defines "m' \<equiv> (if IsEmpty l' then fst (removeSender s m1) else m1)"
  shows "sender_ok m'" "senders m' = (senders m)(s \<mapsto> txs l') \<or> txs l' = [] \<and> senders m' = (senders m)(s := None)"
proof -
  note st = sender_store [OF ok l, of score notify, folded m1_def]
  have "IsEmpty l' \<longleftrightarrow> txs l' = []" by (simp add: IsEmpty_def countTx_def txs_def)
  with st sender_remove [OF st(1), of s]
  show "sender_ok m'" "senders m' = (senders m)(s \<mapsto> txs l') \<or> txs l' = [] \<and> senders m' = (senders m)(s := None)"
    by (auto simp: m'_def)
qed

lemma bySender_removeTx_step:
  fixes score
  assumes ok: "sender_ok m" and names: "hash_names (insert tx (set (listOf (senders m) (sender_of tx))))"
  defines "m' \<equiv> fst (bySender_removeTx score tx m)"
    and "ts' \<equiv> filter (\<lambda>t. wt_TxHash t \<noteq> wt_TxHash tx) (listOf (senders m) (sender_of tx))"
  shows "sender_ok m'" "senders m' = (senders m)(sender_of tx \<mapsto> ts') \<or> ts' = [] \<and> senders m' = (senders m)(sender_of tx := None)"
proof -
  have "sender_ok m' \<and> (senders m' = (senders m)(sender_of tx \<mapsto> ts') \<or> ts' = [] \<and> senders m' = (senders m)(sender_of tx := None))"
  proof (cases "listFor m (sender_of tx)")
    case None
    then have "(senders m)(sender_of tx := None) = senders m" by (simp add: senders_def fun_eq_iff)
    then show ?thesis using ok None by (simp add: m'_def bySender_removeTx_def ts'_def senders_listOf)
  next
    case (Some l)
    obtain l' found notify where rem: "RemoveTx tx l = (l', found, notify)" by (metis prod_cases3)
    note ts = senders_listOf(1) [OF Some]
    note step = RemoveTx_step [OF sender_okD(3) [OF ok Some] names [unfolded ts] rem]
    have "m' = (if IsEmpty l' then fst (removeSender (sender_of tx) (storeList score l' notify m)) else storeList score l' notify m)"
      by (simp add: m'_def bySender_removeTx_def Some rem Let_def)
    then show ?thesis
      using sender_shrink [OF ok Some frame_RemoveTx [OF rem] step(1), of score notify] by (simp add: ts'_def ts step(3))
  qed
  then show "sender_ok m'" "senders m' = (senders m)(sender_of tx \<mapsto> ts') \<or> ts' = [] \<and> senders m' = (senders m)(sender_of tx := None)"
    by blast+
qed

lemma dropElem_txs:
  assumes "list_inv l" "e \<in> set (ls_items l)"
  shows "set (txs (dropElem e l)) \<subseteq> set (txs l)" "add_mset (wt_TxHash (snd e)) (mset (hashes (dropElem e l))) = mset (hashes l)"
proof -
  obtain pre post where "ls_items l = pre @ e # post" "removeElem (fst e) (ls_items l) = pre @ post"
    using removeElem_split [OF _ assms(2)] assms(1) unfolding list_inv_def by metis
  then show "set (txs (dropElem e l)) \<subseteq> set (txs l)" "add_mset (wt_TxHash (snd e)) (mset (hashes (dropElem e l))) = mset (hashes l)"
    using dropElem_inv(2) [OF assms] by (auto simp: txs_def hashes_def)
qed

lemma lowerLoop_inv:
  assumes "list_inv l" "set es \<subseteq> set (ls_items l)" "distinct (map fst es)" "lowerLoop n es l ev = (l', ev')"
  shows "list_inv l' \<and> set (txs l') \<subseteq> set (txs l) \<and> mset (hashes l') + mset ev' = mset (hashes l) + mset ev"
  using assms
proof (induction es arbitrary: l ev)
  case (Cons e es)
  show ?case
  proof (cases "tx_Nonce (wt_Tx (snd e)) > n")
    case True
    then show ?thesis using Cons.prems by auto
  next
    case False
    have e: "e \<in> set (ls_items l)" using Cons.prems(2) by simp
    note drop = dropElem_inv(1,2) [OF Cons.prems(1) e] dropElem_txs [OF Cons.prems(1) e]
    have "fst x \<noteq> fst e" if "x \<in> set es" for x using Cons.prems(3) that by (metis distinct.simps(2) image_eqI list.simps(9) set_map)
    then have "set es \<subseteq> set (ls_items (dropElem e l))" using Cons.prems(2) by (auto simp: drop(2) removeElem_def)
    moreover have "lowerLoop n es (dropElem e l) (ev @ [wt_TxHash (snd e)]) = (l', ev')" using Cons.prems(4) False by simp
    ultimately show ?thesis using Cons.IH [OF drop(1)] Cons.prems(3) drop(3,4) by fastforce
  qed
qed simp

lemma removeTxLowerNonce_step:
  assumes ok: "sender_ok m" and run: "removeTxLowerNonce score s n m = (m', removed)"
  obtains ts' where "sender_ok m'" "senders m' = (senders m)(s \<mapsto> ts') \<or> ts' = [] \<and> senders m' = (senders m)(s := None)"
    "set ts' \<subseteq> set (listOf (senders m) s)" "mset (map wt_TxHash ts') + mset removed = mset (map wt_TxHash (listOf (senders m) s))"
proof (cases "listFor m s")
  case None
  then have "(senders m)(s := None) = senders m" "m' = m" "removed = []"
    using run by (simp_all add: senders_def fun_eq_iff removeTxLowerNonce_def)
  with that [of "[]"] ok show thesis by (simp add: senders_listOf(2) [OF None])
next
  case (Some l)
  obtain l' where loop: "lowerLoop n (ls_items l) l [] = (l', removed)"
    and m': "m' = (if IsEmpty l' then fst (removeSender s (storeList score l' (Some (getScoreParams l')) m)) else storeList score l' (Some (getScoreParams l')) m)"
    using run by (auto simp: removeTxLowerNonce_def Some Let_def storeList_def split: prod.splits)
  note l = sender_okD(3) [OF ok Some]
  have "list_inv l'" "set (txs l') \<subseteq> set (txs l)" "mset (hashes l') + mset removed = mset (hashes l)"
    using lowerLoop_inv [OF l _ _ loop] l by (simp_all add: list_inv_def)
  moreover have "frame l l'" using frame_lowerLoop [of l n "ls_items l" "[]"] by (simp add: loop)
  ultimately show thesis
    using that [of "txs l'"] sender_shrink [OF ok Some, of l' score "Some (getScoreParams l')", folded m']
    by (simp add: senders_listOf(1) [OF Some] hashes_def)
qed

section \<open>The invariant of the pool\<close>

definition cache_inv :: "WrappedTransaction set \<Rightarrow> int \<Rightarrow> TxCache \<Rightarrow> bool" where
  "cache_inv U stale c \<longleftrightarrow> hash_ok stale (tc_txByHash c) \<and> sender_ok (tc_txListBySender c) \<and>
     index_inv U (byHash (tc_txByHash c)) (senders (tc_txListBySender c))"

lemma cache_invD:
  assumes "cache_inv U stale c"
  shows "hash_ok stale (tc_txByHash c)" "sender_ok (tc_txListBySender c)"
    "index_inv U (byHash (tc_txByHash c)) (senders (tc_txListBySender c))"
  using assms by (simp_all add: cache_inv_def)

lemma names_at:
  assumes "hash_names U" "index_inv U B S" "tx \<in> U"
  shows "hash_names (insert tx (set (listOf S s)))"
  by (rule hash_names_mono [OF assms(1)]) (use assms(3) listOf_ok [OF assms(2)] in blast)

lemma RemoveTxByHash_inv:
  assumes inv: "cache_inv U stale c" and names: "hash_names U"
  shows "cache_inv U stale (fst (RemoveTxByHash score h c))"
proof -
  note c = cache_invD [OF inv]
  obtain bh r where run: "byHash_removeTx h (tc_txByHash c) = (bh, r)" by fastforce
  note step = hash_removeTx [OF c(1) run]
  show ?thesis
  proof (cases r)
    case None
    then have "byHash bh = byHash (tc_txByHash c)" using step(2,3) by (auto simp: fun_eq_iff)
    then show ?thesis using c step(1) None by (simp add: RemoveTxByHash_def run cache_inv_def)
  next
    case (Some tx)
    then have B: "byHash (tc_txByHash c) h = Some tx" using step(2) by simp
    then have tx: "wt_TxHash tx = h" "tx \<in> set (listOf (senders (tc_txListBySender c)) (sender_of tx))"
      using index_hash [OF c(3)] by (auto simp: listed_iff)
    then have U: "tx \<in> U" using listOf_ok [OF c(3)] by blast
    note sstep = bySender_removeTx_step [OF c(2) names_at [OF names c(3) U], of score]
    define ts where "ts = listOf (senders (tc_txListBySender c)) (sender_of tx)"
    have dist: "distinct (map wt_TxHash ts)" using index_list(1) [OF c(3)] by (cases "senders (tc_txListBySender c) (sender_of tx)") (auto simp: ts_def listOf_def)
    have "mset (map wt_TxHash (filter (\<lambda>t. wt_TxHash t \<noteq> h) ts)) + mset [h] = mset (map wt_TxHash ts)"
    proof -
      have "map wt_TxHash (filter (\<lambda>t. wt_TxHash t \<noteq> h) ts) = removeAll h (map wt_TxHash ts)" for h
        by (induction ts) auto
      moreover have "h \<in> set (map wt_TxHash ts)" using tx by (auto simp: ts_def)
      ultimately show ?thesis using dist by (simp add: distinct_remove1_removeAll [symmetric])
    qed
    then have "index_inv U (drop_hashes [h] (byHash (tc_txByHash c))) (senders (fst (bySender_removeTx score tx (tc_txListBySender c))))"
      using sstep(2) by (intro index_cut [OF c(3) names, of "filter (\<lambda>t. wt_TxHash t \<noteq> h) ts" "sender_of tx"]) (auto simp: ts_def tx(1))
    then show ?thesis using step(1,3) sstep(1) by (simp add: RemoveTxByHash_def run Some cache_inv_def drop_hashes_Cons)
  qed
qed

lemma RemoveTxBySenderNonce_inv:
  assumes inv: "cache_inv U stale c" and names: "hash_names U"
  shows "cache_inv U stale (fst (RemoveTxBySenderNonce score s n c))"
proof -
  note c = cache_invD [OF inv]
  obtain sm removed where run: "removeTxLowerNonce score s n (tc_txListBySender c) = (sm, removed)" by fastforce
  obtain ts' where step: "sender_ok sm" "senders sm = (senders (tc_txListBySender c))(s \<mapsto> ts') \<or> ts' = [] \<and> senders sm = (senders (tc_txListBySender c))(s := None)"
    "set ts' \<subseteq> set (listOf (senders (tc_txListBySender c)) s)"
    "mset (map wt_TxHash ts') + mset removed = mset (map wt_TxHash (listOf (senders (tc_txListBySender c)) s))"
    by (rule removeTxLowerNonce_step [OF c(2) run])
  have bulk: "fst (RemoveTxBySenderNonce score s n c) =
      c\<lparr>tc_txListBySender := sm, tc_txByHash := fst (byHash_RemoveTxsBulk removed (tc_txByHash c))\<rparr>"
    by (simp add: RemoveTxBySenderNonce_def run)
  show ?thesis unfolding bulk cache_inv_def
    using hash_bulk [OF c(1), of removed] step(1) index_cut [OF c(3) names step(3,4,2)] by simp
qed

section \<open>Snapshots and eviction\<close>

lemma mset_insort_bytes: "mset (insort_bytes k ks) = add_mset k (mset ks)"
  by (induction ks) auto

lemma mset_sort_bytes [simp]: "mset (sort_bytes ks) = mset ks"
  by (induction ks) (simp_all add: sort_bytes_def mset_insort_bytes)

lemma set_sort_bytes [simp]: "set (sort_bytes ks) = set ks" "distinct (sort_bytes ks) \<longleftrightarrow> distinct ks"
  using mset_sort_bytes [of ks] by (metis set_mset_mset, metis mset_eq_imp_distinct_iff)

definition snap :: "txListBySenderMap \<Rightarrow> txListForSender list \<Rightarrow> bool" where
  "snap m ls \<longleftrightarrow> distinct (map ls_sender ls) \<and> (\<forall>l\<in>set ls. listFor m (ls_sender l) = Some l)"

text \<open>A snapshot lists every sender once, with the list it has.\<close>

lemma snapshot_keys:
  assumes ok: "sender_ok m" and cs: "length cs = length (bs_scoreChunks (sm_backingMap m))"
    "\<And>i. i < length cs \<Longrightarrow> distinct (cs ! i) \<and> set (cs ! i) = set (bs_scoreChunks (sm_backingMap m) ! f i)"
    "inj_on f {..<length cs}" "f ` {..<length cs} = {..<length cs}"
  shows "distinct (concat cs)" "set (concat cs) = dom (listFor m)"
proof -
  note inv = sender_okD(1) [OF ok]
  let ?h = "home (sm_backingMap m)"
  have mem: "k \<in> set (cs ! i) \<longleftrightarrow> ?h k = Some (f i)" if "i < length cs" for i k
  proof -
    have "f i \<in> {..<length cs}" using cs(4) that by blast
    then show ?thesis using cs(2) [OF that] chunk_invD(5) [OF inv, of "f i"] cs(1) by simp
  qed
  show "distinct (concat cs)"
  proof (rule distinct_concat_chunks)
    fix i j x assume ij: "i < length cs" "j < length cs" "x \<in> set (cs ! i)" "x \<in> set (cs ! j)"
    then have "f i = f j" using mem [of i x] mem [of j x] by simp
    with ij cs(3) show "i = j" by (simp add: inj_on_def)
  qed (use cs(2) in blast)
  have "k \<in> set (concat cs) \<longleftrightarrow> (\<exists>i < length cs. ?h k = Some (f i))" for k
    using mem by (simp add: in_set_conv_nth [of _ cs] Bex_def) (metis in_set_conv_nth)
  also have "\<dots> k \<longleftrightarrow> (\<exists>j < length cs. ?h k = Some j)" for k
    using cs(4) by (metis (no_types, lifting) image_iff lessThan_iff)
  also have "\<dots> k \<longleftrightarrow> ?h k \<noteq> None" for k
    using chunk_invD(6) [OF inv, of k] cs(1) by (metis not_None_eq)
  also have "\<dots> k \<longleftrightarrow> k \<in> dom (listFor m)" for k
    using sender_okD(4) [OF ok, of k] by (cases "listFor m k") (auto simp: home_def getListForSender_def)
  finally show "set (concat cs) = dom (listFor m)" by blast
qed

lemma keys_ascending:
  assumes ok: "sender_ok m"
  shows "distinct (concat (map sort_bytes (bs_scoreChunks (sm_backingMap m))))"
    "set (concat (map sort_bytes (bs_scoreChunks (sm_backingMap m)))) = dom (listFor m)"
  using snapshot_keys [OF ok, of "map sort_bytes (bs_scoreChunks (sm_backingMap m))" "\<lambda>i. i"] chunk_invD(4) [OF sender_okD(1) [OF ok]]
  by simp_all

lemma keys_descending:
  assumes ok: "sender_ok m"
  shows "distinct (concat (map (sort_key rank) (rev (bs_scoreChunks (sm_backingMap m)))))"
    "set (concat (map (sort_key rank) (rev (bs_scoreChunks (sm_backingMap m))))) = dom (listFor m)"
proof -
  let ?cs = "bs_scoreChunks (sm_backingMap m)"
  let ?n = "length ?cs"
  have "inj_on (\<lambda>i. ?n - Suc i) {..<?n}" by (auto simp: inj_on_def)
  moreover from endo_inj_surj [OF _ _ this] have "(\<lambda>i. ?n - Suc i) ` {..<?n} = {..<?n}" by fastforce
  ultimately show "distinct (concat (map (sort_key rank) (rev ?cs)))" "set (concat (map (sort_key rank) (rev ?cs))) = dom (listFor m)"
    using snapshot_keys [OF ok, of "map (sort_key rank) (rev ?cs)" "\<lambda>i. ?n - Suc i"] chunk_invD(4) [OF sender_okD(1) [OF ok]]
    by (simp_all add: rev_nth)
qed

lemma map_filter_total: "(\<And>k. k \<in> set ks \<Longrightarrow> f k \<noteq> None) \<Longrightarrow> List.map_filter f ks = map (\<lambda>k. the (f k)) ks"
  by (induction ks) (fastforce simp: map_filter_simps split: option.splits)+

lemma snap_keys:
  assumes ok: "sender_ok m" and keys: "distinct keys" "set keys = dom (listFor m)"
  defines "ls \<equiv> List.map_filter (\<lambda>key. bs_Get key (sm_backingMap m)) keys"
  shows "snap m ls" "map ls_sender ls = keys"
proof -
  have get: "\<exists>l. listFor m k = Some l \<and> ls_sender l = k" if "k \<in> set keys" for k
    using that keys(2) sender_okD(5) [OF ok] by blast
  have ls: "ls = map (\<lambda>k. the (listFor m k)) keys"
    unfolding ls_def by (subst map_filter_total) (use get in \<open>force simp: getListForSender_def\<close>)+
  show s: "map ls_sender ls = keys" unfolding ls map_map by (rule map_idI) (use get in force)
  show "snap m ls" unfolding snap_def s using keys(1) get by (force simp: ls)
qed

lemma snapshot_ascending:
  assumes "sender_ok m"
  shows "snap m (GetSnapshotAscending (sm_backingMap m))" "ls_sender ` set (GetSnapshotAscending (sm_backingMap m)) = dom (listFor m)"
  using snap_keys [OF assms keys_ascending [OF assms]] keys_ascending(2) [OF assms]
  unfolding GetSnapshotAscending_def set_map [symmetric] by simp_all

lemma snapshot_descending:
  assumes "sender_ok m"
  shows "snap m (GetSnapshotDescending rank (sm_backingMap m))" "ls_sender ` set (GetSnapshotDescending rank (sm_backingMap m)) = dom (listFor m)"
  using snap_keys [OF assms keys_descending [OF assms, of rank]] keys_descending(2) [OF assms, of rank]
  unfolding GetSnapshotDescending_def set_map [symmetric] by (simp_all del: set_concat)

lemma getTxHashes_hashes: "getTxHashes l = hashes l"
  by (simp add: getTxHashes_def hashes_def txs_def)

lemma RemoveSendersBulk_step:
  assumes "sender_ok m"
  shows "sender_ok (fst (RemoveSendersBulk ss m)) \<and> (\<forall>s. listFor (fst (RemoveSendersBulk ss m)) s = (if s \<in> set ss then None else listFor m s))"
  using assms
proof (induction ss arbitrary: m)
  case (Cons s ss)
  obtain m1 r where run: "removeSender s m = (m1, r)" by fastforce
  have step: "sender_ok m1" "listFor m1 = (listFor m)(s := None)" using sender_remove [OF Cons.prems, of s] by (simp_all add: run)
  show ?case using Cons.IH [OF step(1)] by (cases "RemoveSendersBulk ss m1") (simp add: run fun_cong [OF step(2)])
qed simp

definition without :: "bytes set \<Rightarrow> sender_index \<Rightarrow> sender_index" where
  "without ss S s = (if s \<in> ss then None else S s)"

lemma senders_without:
  "(\<forall>s. listFor m' s = (if s \<in> set ss then None else listFor m s)) \<Longrightarrow> senders m' = without (set ss) (senders m)"
  by (auto simp: senders_def without_def)

lemma drop_hashes_cong: "set xs = set ys \<Longrightarrow> drop_hashes xs B = drop_hashes ys B"
  by (simp add: drop_hashes_def fun_eq_iff)

text \<open>Dropping senders with all their transactions keeps the indexes equal.\<close>

lemma index_without:
  assumes inv: "index_inv U B S" and names: "hash_names U"
  shows "index_inv U (drop_hashes (concat (map (\<lambda>s. map wt_TxHash (listOf S s)) ss)) B) (without (set ss) S)"
proof -
  have "index_inv U (drop_hashes (concat (map (\<lambda>s. map wt_TxHash (listOf S s)) ss)) B) (without (set ss) S)"
    if "distinct ss" for ss
    using that inv
  proof (induction ss arbitrary: B S)
    case Nil
    then show ?case by (simp add: without_def [abs_def])
  next
    case (Cons s ss)
    have "index_inv U (drop_hashes (map wt_TxHash (listOf S s)) B) (S(s := None))"
      by (rule index_cut [OF Cons.prems(2) names, of "[]" s]) simp_all
    note ih = Cons.IH [OF _ this]
    have "distinct ss" using Cons.prems(1) by simp
    note ih = ih [OF this]
    have "listOf (S(s := None)) x = listOf S x" if "x \<in> set ss" for x
      using that Cons.prems(1) by (auto simp: listOf_def)
    then have eq: "map (\<lambda>s. map wt_TxHash (listOf S s)) ss = map (\<lambda>x. map wt_TxHash (listOf (S(s := None)) x)) ss" by simp
    have "without (set (s # ss)) S = without (set ss) (S(s := None))" by (auto simp: without_def)
    with ih show ?case unfolding list.map concat.simps drop_hashes_append eq by (simp only:)
  qed
  from this [of "remdups ss"] show ?thesis
    by (simp cong: drop_hashes_cong) (metis (no_types, lifting) drop_hashes_cong set_concat set_map set_remdups)
qed

lemma evict_inv:
  assumes inv: "cache_inv U stale c" and names: "hash_names U"
    and ls: "\<forall>l\<in>set ls. listFor (tc_txListBySender c) (ls_sender l) = Some l"
  defines "c' \<equiv> fst (evictSendersAndTheirTxs ls c)"
  shows "cache_inv U stale c'"
    "\<And>s. listFor (tc_txListBySender c') s = (if s \<in> ls_sender ` set ls then None else listFor (tc_txListBySender c) s)"
    "tc_config c' = tc_config c" "tc_sweepingListOfSenders c' = tc_sweepingListOfSenders c"
proof -
  note c = cache_invD [OF inv]
  define hs where "hs = concat (map getTxHashes ls)"
  define ss where "ss = map ls_sender ls"
  have c': "c' = c\<lparr>tc_txByHash := fst (byHash_RemoveTxsBulk hs (tc_txByHash c)),
      tc_txListBySender := fst (RemoveSendersBulk ss (tc_txListBySender c))\<rparr>"
    by (simp add: c'_def evictSendersAndTheirTxs_def doEvictItems_def hs_def ss_def split: prod.splits)
  note sstep = RemoveSendersBulk_step [OF c(2), of ss]
  have "hs = concat (map (\<lambda>s. map wt_TxHash (listOf (senders (tc_txListBySender c)) s)) ss)"
    unfolding hs_def ss_def map_map
    by (intro arg_cong [of _ _ concat] map_cong) (use ls in \<open>auto simp: getTxHashes_hashes hashes_def senders_listOf\<close>)
  then have "index_inv U (drop_hashes hs (byHash (tc_txByHash c))) (without (set ss) (senders (tc_txListBySender c)))"
    using index_without [OF c(3) names] by simp
  then show "cache_inv U stale c'"
    using hash_bulk [OF c(1), of hs] sstep senders_without [of _ ss "tc_txListBySender c"] by (simp add: cache_inv_def c')
  show "listFor (tc_txListBySender c') s = (if s \<in> ls_sender ` set ls then None else listFor (tc_txListBySender c) s)" for s
    using sstep by (simp add: c' ss_def)
qed (simp_all add: c'_def evictSendersAndTheirTxs_def doEvictItems_def split: prod.splits)

lemma evictLoop_inv:
  assumes "cache_inv U stale c" "hash_names U" "snap (tc_txListBySender c) ls"
  shows "cache_inv U stale (evictLoop n b ls c) \<and> tc_config (evictLoop n b ls c) = tc_config c \<and>
    tc_sweepingListOfSenders (evictLoop n b ls c) = tc_sweepingListOfSenders c"
  using assms(1,3)
proof (induction n arbitrary: ls c)
  case (Suc n)
  obtain c1 nt ns where run: "evictSendersAndTheirTxs (take b ls) c = (c1, nt, ns)" by (metis prod_cases3)
  have "\<forall>l\<in>set (take b ls). listFor (tc_txListBySender c) (ls_sender l) = Some l"
    using Suc.prems(2) by (auto simp: snap_def dest: in_set_takeD)
  note step = evict_inv [OF Suc.prems(1) assms(2) this, unfolded run fst_conv]
  have "distinct (map ls_sender (take b ls @ drop b ls))" using Suc.prems(2) by (simp add: snap_def)
  then have "ls_sender ` set (take b ls) \<inter> ls_sender ` set (drop b ls) = {}" "distinct (map ls_sender (drop b ls))"
    unfolding map_append distinct_append set_map by blast+
  then have "snap (tc_txListBySender c1) (drop b ls)"
    using Suc.prems(2) step(2) by (auto simp: snap_def dest: in_set_dropD)
  note ih = Suc.IH [OF step(1) this]
  show ?case using Suc.prems(1) step ih by (simp add: run)
qed simp

lemma doEviction_inv:
  assumes inv: "cache_inv U stale c" and names: "hash_names U"
  shows "cache_inv U stale (doEviction c) \<and> tc_config (doEviction c) = tc_config c \<and>
    tc_sweepingListOfSenders (doEviction c) = tc_sweepingListOfSenders c"
  using inv evictLoop_inv [OF inv names snapshot_ascending(1) [OF cache_invD(2) [OF inv]]]
  by (simp add: doEviction_def Let_def del: evictLoop.simps)

lemma cache_AddTx_inv:
  assumes inv: "cache_inv U stale c" and names: "hash_names U" and tx: "\<forall>tx. txOpt = Some tx \<longrightarrow> tx \<in> U"
  shows "cache_inv U stale (fst (cache_AddTx score now txOpt c)) \<and>
    tc_sweepingListOfSenders (fst (cache_AddTx score now txOpt c)) = tc_sweepingListOfSenders c"
proof (cases txOpt)
  case (Some tx)
  with tx have U: "tx \<in> U" by simp
  define c0 where "c0 = (if cf_EvictionEnabled (tc_config c) then doEviction c else c)"
  have c0: "cache_inv U stale c0" "tc_sweepingListOfSenders c0 = tc_sweepingListOfSenders c"
    using inv doEviction_inv [OF inv names] by (simp_all add: c0_def)
  note c = cache_invD [OF c0(1)]
  obtain bh added where hrun: "byHash_addTx tx (tc_txByHash c0) = (bh, added)" by fastforce
  obtain sm added' ev where srun: "bySender_addTx score now tx (tc_txListBySender c0) = (sm, added', ev)" by (metis prod_cases3)
  note hstep = hash_addTx [OF c(1) hrun]
  let ?S = "senders (tc_txListBySender c0)" and ?s = "sender_of tx"
  obtain ts' where sstep: "sender_ok sm" "senders sm = ?S(?s \<mapsto> ts')"
    "added' \<longleftrightarrow> wt_TxHash tx \<notin> wt_TxHash ` set (listOf ?S ?s)" "\<not> added' \<longrightarrow> ts' = listOf ?S ?s \<and> ev = []"
    "added' \<longrightarrow> mset (map wt_TxHash ts') + mset ev = add_mset (wt_TxHash tx) (mset (map wt_TxHash (listOf ?S ?s)))"
    "set ts' \<subseteq> insert tx (set (listOf ?S ?s))"
    by (rule bySender_addTx_step [OF c(2) names_at [OF names c(3) U] srun])
  have res: "fst (cache_AddTx score now txOpt c) = c0\<lparr>tc_txByHash := fst (byHash_RemoveTxsBulk ev bh), tc_txListBySender := sm\<rparr>"
    by (simp add: cache_AddTx_def Some Let_def c0_def [symmetric] hrun srun)
  have agree: "added' = added"
  proof (cases "byHash (tc_txByHash c0) (wt_TxHash tx)")
    case None
    have "wt_TxHash t \<noteq> wt_TxHash tx" if "t \<in> set (listOf ?S ?s)" for t
      using index_hash [OF c(3), of "wt_TxHash t" t] listOf_ok [OF c(3) that] that None by (auto simp: listed_iff)
    then show ?thesis using None hstep(2) sstep(3) by auto
  next
    case (Some t')
    then have "wt_TxHash t' = wt_TxHash tx" using index_hash [OF c(3)] by simp
    with index_sender [OF c(3) names U Some] have "wt_TxHash tx \<in> wt_TxHash ` set (listOf ?S ?s)" by (metis imageI)
    then show ?thesis using Some hstep(2) sstep(3) by simp
  qed
  have "index_inv U (drop_hashes ev (byHash bh)) (senders sm)"
  proof (cases added)
    case True
    then show ?thesis
      unfolding hstep(3) sstep(2) using hstep(2) sstep(5,6) agree
      by (auto intro!: index_add [OF c(3) names U])
  next
    case False
    then have "ts' = listOf ?S ?s" "ev = []" using sstep(4) agree by simp_all
    then show ?thesis unfolding hstep(3) sstep(2) using False index_cut [OF c(3) names, of "listOf ?S ?s" ?s "[]"] by simp
  qed
  then show ?thesis using hash_bulk [OF hstep(1), of ev] sstep(1) c0(2) by (simp add: res cache_inv_def)
qed (use inv in \<open>simp add: cache_AddTx_def\<close>)

end
