(* ===== verification/TxCacheRun.thy ===== *)
theory TxCacheRun
  imports TxCacheInv
begin

text \<open>
  The transaction pool in use: the cleanup of expired transactions, the selection of transactions for a
  block, and any sequence of operations on a new pool.
\<close>

section \<open>The cleanup\<close>

definition unexpired :: "int \<Rightarrow> WrappedTransaction list \<Rightarrow> WrappedTransaction list" where
  "unexpired now ts = filter (\<lambda>t. \<not> wt_ExpireOn t < now) ts"

lemma processExpiredForSender_step:
  assumes l: "list_inv l" and run: "processExpiredForSender now l = (l', hs, dead)"
  shows "list_inv l'" "frame l l'" "txs l' = unexpired now (txs l)"
    "mset (map wt_TxHash (txs l')) + mset hs = mset (map wt_TxHash (txs l))" "dead \<longleftrightarrow> txs l' = [] \<and> txs l \<noteq> []"
proof -
  obtain l1 where loop: "expireLoop now (ls_items l) l [] = (l1, hs)" and l': "l' = l1" "dead \<longleftrightarrow> ls_items l1 = [] \<and> length hs > 0"
    using run by (auto simp: processExpiredForSender_def split: prod.splits)
  have exp: "list_inv l1" "ls_items l1 = filter (\<lambda>e. \<not> (e \<in> set (ls_items l) \<and> expired now e)) (ls_items l)"
    "hs = map (\<lambda>e. wt_TxHash (snd e)) (filter (expired now) (ls_items l))"
    using expireLoop_inv [OF l, of "ls_items l" now "[]"] l [unfolded list_inv_def] by (simp_all add: loop)
  have items: "ls_items l1 = filter (\<lambda>e. \<not> expired now e) (ls_items l)" unfolding exp(2) by (rule filter_cong) auto
  show "list_inv l'" using exp(1) l' by simp
  show "frame l l'" using frame_expireLoop [of l now "ls_items l" "[]"] by (simp add: loop l')
  show "txs l' = unexpired now (txs l)"
    by (simp add: l' txs_def unexpired_def items expired_def filter_map o_def)
  show "mset (map wt_TxHash (txs l')) + mset hs = mset (map wt_TxHash (txs l))"
    using mset_hash_live [of "\<lambda>e. wt_TxHash (snd e)" "expired now" "ls_items l"] by (simp add: l' txs_def items exp(3) o_def)
  then have "length (txs l') + length hs = length (txs l)"
    by (metis length_map size_mset size_union)
  then show "dead \<longleftrightarrow> txs l' = [] \<and> txs l \<noteq> []" using l' by (auto simp: txs_def)
qed

text \<open>The index by sender loses the expired transactions; the index by hash follows in one bulk.\<close>

lemma processExpiredTransactions_step:
  assumes "sender_ok (tc_txListBySender c)" "index_inv U B (senders (tc_txListBySender c))" "hash_names U"
    and "snap (tc_txListBySender c) ls" "processExpiredTransactions now ls c = (c', hs, ss)"
  shows "sender_ok (tc_txListBySender c') \<and> index_inv U (drop_hashes hs B) (senders (tc_txListBySender c')) \<and>
    tc_txByHash c' = tc_txByHash c \<and> tc_sweepingListOfSenders c' = tc_sweepingListOfSenders c \<and>
    (\<forall>s. senders (tc_txListBySender c') s =
       (if s \<in> ls_sender ` set ls then map_option (unexpired now) (senders (tc_txListBySender c) s) else senders (tc_txListBySender c) s)) \<and>
    (\<forall>s\<in>set ss. s \<in> ls_sender ` set ls \<and> senders (tc_txListBySender c') s = Some [])"
  using assms(1,2,4,5)
proof (induction ls arbitrary: c B hs ss)
  case Nil
  then show ?case by simp
next
  case (Cons l ls)
  note ok = Cons.prems(1)
  let ?m = "tc_txListBySender c" and ?s = "ls_sender l"
  have get: "listFor ?m ?s = Some l" using Cons.prems(3) by (simp add: snap_def)
  obtain l' hs1 d where one: "processExpiredForSender now l = (l', hs1, d)" by (metis prod_cases3)
  note step = processExpiredForSender_step [OF sender_okD(3) [OF ok get] one]
  define c1 where "c1 = c\<lparr>tc_txListBySender := storeList (\<lambda>_. 0) l' None ?m\<rparr>"
  obtain hs2 ss2 where rest: "processExpiredTransactions now ls c1 = (c', hs2, ss2)"
    and out: "hs = hs1 @ hs2" "ss = (if d then ?s # ss2 else ss2)"
    using Cons.prems(4) by (auto simp: one c1_def split: prod.splits)
  note st = sender_store [OF ok get step(2,1), of "\<lambda>_. 0" None]
  have c1: "sender_ok (tc_txListBySender c1)" "senders (tc_txListBySender c1) = (senders ?m)(?s \<mapsto> txs l')"
    using st by (simp_all add: c1_def)
  have idx: "index_inv U (drop_hashes hs1 B) (senders (tc_txListBySender c1))"
    unfolding c1(2) using step(3,4) Cons.prems(2) assms(3)
    by (intro index_cut [of U B "senders ?m" "txs l'" ?s hs1]) (auto simp: senders_listOf(1) [OF get] unexpired_def)
  have other: "?s \<notin> ls_sender ` set ls" "distinct (map ls_sender ls)" using Cons.prems(3) by (auto simp: snap_def)
  have "listFor (tc_txListBySender c1) k = listFor ?m k" if "k \<noteq> ?s" for k
    using st(1) that step(2) Cons.prems(1) bs_Get_Set [OF sender_okD(1) [OF ok], of k l']
    by (simp add: c1_def storeList_def getListForSender_def frame_def)
  moreover have "ls_sender x \<noteq> ?s" if "x \<in> set ls" for x using other(1) that by (metis imageI)
  ultimately have "snap (tc_txListBySender c1) ls" using Cons.prems(3) other(2) by (simp add: snap_def)
  note ih = Cons.IH [OF c1(1) idx this rest]
  have at: "senders (tc_txListBySender c') ?s = Some (txs l')" using ih other(1) by (simp add: c1(2))
  have all: "senders (tc_txListBySender c') k =
      (if k \<in> ls_sender ` set (l # ls) then map_option (unexpired now) (senders ?m k) else senders ?m k)" for k
  proof (cases "k = ?s")
    case True
    then show ?thesis using at get step(3) by (simp add: senders_def)
  next
    case False
    then show ?thesis using ih by (simp add: c1(2))
  qed
  have "k \<in> ls_sender ` set (l # ls) \<and> senders (tc_txListBySender c') k = Some []" if "k \<in> set ss" for k
  proof (cases "k \<in> set ss2")
    case False
    then have "k = ?s" "d" using that by (simp_all add: out split: if_splits)
    then show ?thesis using at step(5) by simp
  qed (use ih in auto)
  moreover have "index_inv U (drop_hashes hs B) (senders (tc_txListBySender c'))" using ih by (simp only: out(1) drop_hashes_append)
  moreover have "tc_txByHash c' = tc_txByHash c" "tc_sweepingListOfSenders c' = tc_sweepingListOfSenders c" using ih by (simp_all add: c1_def)
  ultimately show ?case using ih all by blast
qed

lemma index_drop_empty:
  assumes "index_inv U B S" "hash_names U" "\<forall>s\<in>set ss. S s = Some []"
  shows "index_inv U B (without (set ss) S)"
proof -
  have "concat (map (\<lambda>s. map wt_TxHash (listOf S s)) ss) = []" using assms(3) by (simp add: listOf_def)
  then show ?thesis using index_without [OF assms(1,2), of ss] by (simp only: drop_hashes_Nil)
qed

lemma cleanExpired_step:
  fixes now
  assumes inv: "cache_inv U stale c" and names: "hash_names U"
  defines "c' \<equiv> cleanExpiredTransactions now c"
  shows "cache_inv U stale c'" "tc_sweepingListOfSenders c' = tc_sweepingListOfSenders c"
    "\<And>s. listOf (senders (tc_txListBySender c')) s = unexpired now (listOf (senders (tc_txListBySender c)) s)"
proof -
  note c = cache_invD [OF inv]
  let ?ls = "GetSnapshotAscending (sm_backingMap (tc_txListBySender c))"
  obtain c1 hs ss where run: "processExpiredTransactions now ?ls c = (c1, hs, ss)" by (metis prod_cases3)
  note step = processExpiredTransactions_step [OF c(2,3) names snapshot_ascending(1) [OF c(2)] run]
  have c1: "sender_ok (tc_txListBySender c1)" "index_inv U (drop_hashes hs (byHash (tc_txByHash c))) (senders (tc_txListBySender c1))"
    "tc_txByHash c1 = tc_txByHash c" "tc_sweepingListOfSenders c1 = tc_sweepingListOfSenders c"
    "\<forall>s\<in>set ss. senders (tc_txListBySender c1) s = Some []" using step by blast+
  have S1: "senders (tc_txListBySender c1) s = map_option (unexpired now) (senders (tc_txListBySender c) s)" for s
  proof (cases "s \<in> ls_sender ` set ?ls")
    case False
    then have "senders (tc_txListBySender c) s = None" using snapshot_ascending(2) [OF c(2)] by (auto simp: senders_def)
    then show ?thesis using step False by simp
  qed (use step in simp)
  have list1: "listOf (senders (tc_txListBySender c1)) s = unexpired now (listOf (senders (tc_txListBySender c)) s)" for s
    by (simp add: listOf_def S1 unexpired_def split: option.split)
  define ss' where "ss' = revalidateEmptySenders ss c1"
  define bh where "bh = fst (byHash_RemoveTxsBulk hs (tc_txByHash c))"
  define sm where "sm = fst (RemoveSendersBulk ss' (tc_txListBySender c1))"
  have "\<forall>s\<in>set ss'. senders (tc_txListBySender c1) s = Some []" using c1(5) by (simp add: ss'_def revalidateEmptySenders_def)
  note idx = index_drop_empty [OF c1(2) names this]
  have sm: "sender_ok sm" "senders sm = without (set ss') (senders (tc_txListBySender c1))"
    using RemoveSendersBulk_step [OF c1(1), of ss'] senders_without [of sm ss' "tc_txListBySender c1"] by (simp_all add: sm_def)
  have c': "c' = (if hs = [] then c1 else c1\<lparr>tc_txByHash := bh, tc_txListBySender := sm\<rparr>)"
    by (simp add: c'_def cleanExpiredTransactions_def run performBulkRemoval_def Let_def bh_def sm_def c1(3) ss'_def
          revalidateEmptySenders_def)
  show "cache_inv U stale c'"
  proof (cases "hs = []")
    case True
    then show ?thesis using c(1) c1(1,2) by (simp add: c' cache_inv_def c1(3))
  next
    case False
    then show ?thesis using hash_bulk [OF c(1), of hs] sm idx by (simp add: c' cache_inv_def bh_def)
  qed
  show "tc_sweepingListOfSenders c' = tc_sweepingListOfSenders c" by (simp add: c' c1(4))
  have "listOf (senders sm) s = listOf (senders (tc_txListBySender c1)) s" for s
    using \<open>\<forall>s\<in>set ss'. senders (tc_txListBySender c1) s = Some []\<close> by (auto simp: sm(2) listOf_def without_def)
  then show "listOf (senders (tc_txListBySender c')) s = unexpired now (listOf (senders (tc_txListBySender c)) s)" for s
    by (simp add: c' list1)
qed

lemma listed_GetByTxHash:
  "cache_inv U stale c \<Longrightarrow> GetByTxHash h c = Some t \<longleftrightarrow>
     wt_TxHash t = h \<and> t \<in> set (listOf (senders (tc_txListBySender c)) (sender_of t))"
  using index_hash [OF cache_invD(3)] by (simp add: GetByTxHash_def listed_iff)

section \<open>Other operations\<close>

lemma notifyAccountNonce_inv:
  assumes inv: "cache_inv U stale c"
  shows "cache_inv U stale (cache_NotifyAccountNonce s n c)"
proof (cases "listFor (tc_txListBySender c) s")
  case None
  then show ?thesis using inv by (simp add: cache_NotifyAccountNonce_def bySender_notifyAccountNonce_def cache_inv_def)
next
  case (Some l)
  note c = cache_invD [OF inv]
  let ?l' = "notifyAccountNonce n l"
  have "frame l ?l'" "list_inv ?l'" "txs ?l' = txs l"
    using sender_okD(3) [OF c(2) Some] by (simp_all add: frame_def notifyAccountNonce_def list_inv_def txs_def)
  note st = sender_store [OF c(2) Some this(1,2), of "\<lambda>_. 0" None] and this(3)
  moreover have "(senders (tc_txListBySender c))(s \<mapsto> txs l) = senders (tc_txListBySender c)"
    using Some by (auto simp: senders_def)
  ultimately show ?thesis using c Some by (simp add: cache_NotifyAccountNonce_def bySender_notifyAccountNonce_def cache_inv_def)
qed

lemma Clear_inv:
  assumes inv: "cache_inv U stale c"
  shows "cache_inv U (bh_numBytes (tc_txByHash c)) (cache_Clear c)" "GetByTxHash h (cache_Clear c) = None"
proof -
  note c = cache_invD [OF inv]
  let ?bh = "byHash_clear (tc_txByHash c)" and ?sm = "bySender_clear (tc_txListBySender c)"
  have wf: "wf_cmap (bh_backingMap (tc_txByHash c))" "bh_numBytes (tc_txByHash c) = i64 (bh_numBytes (tc_txByHash c))"
    using c(1) i64_plus_mod(1) [of _ 0] by (simp_all add: hash_ok_def)
  note ch = sender_okD(1) [OF c(2)]
  have get: "byHash ?bh h = None" "bs_Get h (sm_backingMap ?sm) = None" for h
    using Clear_New [OF wf(1)] Clear_New [OF chunk_invD(1) [OF ch]]
    by (simp_all add: byHash_getTx_def byHash_clear_def get_New bySender_clear_def bs_Clear_def bs_Get_def)
  then show "GetByTxHash h (cache_Clear c) = None" by (simp add: GetByTxHash_def cache_Clear_def)
  have "cmap.total f (bh_backingMap ?bh) = 0" for f using get(1) by (simp add: cmap.total_def cmap.abs_map_def byHash_getTx_def dom_def)
  then have "hash_ok (bh_numBytes (tc_txByHash c)) ?bh"
    using wf wf_New Clear_New [OF wf(1)] by (simp add: hash_ok_def byHash_clear_def i64_def)
  moreover have "bs_scoreChunks (sm_backingMap ?sm) = replicate (Suc (bs_maxScore (sm_backingMap ?sm))) []"
      "wf_cmap (bs_chunks (sm_backingMap ?sm))"
    using Clear_New [OF chunk_invD(1) [OF ch]] by (simp_all add: bySender_clear_def bs_Clear_def chunk_invD(2) [OF ch] wf_New)
  then have "chunk_inv (sm_backingMap ?sm)" using get(2) by (simp add: chunk_inv_def home_def del: replicate.simps)
  then have "sender_ok ?sm" using get(2) by (simp add: sender_ok_def getListForSender_def bySender_clear_def i64_def dom_def)
  moreover have "index_inv U (byHash ?bh) (senders ?sm)"
    using get by (simp add: index_inv_def senders_def getListForSender_def listed_def)
  ultimately show "cache_inv U (bh_numBytes (tc_txByHash c)) (cache_Clear c)" by (simp add: cache_inv_def cache_Clear_def)
qed

section \<open>Selection\<close>

text \<open>What was selected from a sender so far is a gap-free prefix of its list.\<close>

abbreviation from_sender :: "bytes \<Rightarrow> WrappedTransaction list \<Rightarrow> WrappedTransaction list" where
  "from_sender s ts \<equiv> filter (\<lambda>t. sender_of t = s) ts"

definition prefix_ok :: "sender_index \<Rightarrow> WrappedTransaction list \<Rightarrow> bool" where
  "prefix_ok S res \<longleftrightarrow> (\<forall>s. from_sender s res = take (length (from_sender s res)) (listOf S s) \<and> gapfree 0 (from_sender s res))"

definition selected_at :: "TxCache \<Rightarrow> WrappedTransaction list \<Rightarrow> bytes \<Rightarrow> bool" where
  "selected_at c res s \<longleftrightarrow> (\<exists>l. listFor (tc_txListBySender c) s = Some l \<and> select_at l (length (from_sender s res)))"

lemma selectLoop_space:
  "selectLoop space items b bw n cb el p = (ts, r) \<Longrightarrow> length ts \<le> space"
  by (induction space items b bw n cb el p arbitrary: ts r rule: selectLoop.induct)
     (auto split: if_splits prod.splits)

lemma selectBatchTo_space: "selectBatchTo f space b bw l = (l', ts, j) \<Longrightarrow> length ts \<le> space"
  by (auto simp: selectBatchTo_def Let_def split: prod.splits if_splits dest: selectLoop_space)

lemma selectBatchTo_inv:
  assumes "selectBatchTo f space b bw l = (l', ts, j)"
  shows "list_inv l' = list_inv l" "ls_items l' = ls_items l"
proof -
  have "ls_items l' = ls_items l" "ls_fresh l' = ls_fresh l" "ls_totalBytes l' = ls_totalBytes l" "ls_totalFees l' = ls_totalFees l"
    using assms by (auto simp: selectBatchTo_def Let_def verifyInitialGapOnSelectionStart_def split: if_splits prod.splits)
  then show "list_inv l' = list_inv l" "ls_items l' = ls_items l" by (simp_all add: list_inv_def txs_def)
qed

text \<open>One batch from one sender, at the place where the last one ended.\<close>

lemma selectBatchTo_step:
  assumes l: "list_inv l" "\<forall>t\<in>set (txs l). 0 \<le> tx_Nonce (wt_Tx t) \<and> sender_of t = s"
    and res: "from_sender s res = take (length (from_sender s res)) (txs l)" "gapfree 0 (from_sender s res)"
    and at: "if first then from_sender s res = [] else select_at l (length (from_sender s res))"
    and run: "selectBatchTo first space b bw l = (l', ts, j)"
  shows "set ts \<subseteq> set (txs l)" "from_sender s (res @ ts) = take (length (from_sender s (res @ ts))) (txs l)"
    "gapfree 0 (from_sender s (res @ ts))" "select_at l' (length (from_sender s (res @ ts)))"
proof -
  define k where "k = length (from_sender s res)"
  have d: "distinct (map fst (ls_items l))" "\<forall>t\<in>set (txs l). 0 \<le> tx_Nonce (wt_Tx t)" using l by (simp_all add: list_inv_def)
  have batch: "select_at l' (k + length ts) \<and> ts = take (length ts) (drop k (txs l)) \<and> gapfree (lastNonce 0 (take k (txs l))) ts"
  proof (cases first)
    case True
    with at have "k = 0" by (simp add: k_def)
    then show ?thesis using first_batch [OF d, of space b bw l' ts j] run True by (simp add: lastNonce_def)
  next
    case False
    then show ?thesis using nonfirst_batch [OF d, of k space b bw l' ts j] run at by (simp add: k_def)
  qed
  then have ts: "ts = take (length ts) (drop k (txs l))" by blast
  show sub: "set ts \<subseteq> set (txs l)" by (subst ts) (auto dest: in_set_takeD in_set_dropD)
  then have from_ts: "from_sender s ts = ts" using l(2) by (auto simp: filter_id_conv)
  have "take k (txs l) @ take (length ts) (drop k (txs l)) = take (k + length ts) (txs l)" by (simp add: take_add)
  then show "from_sender s (res @ ts) = take (length (from_sender s (res @ ts))) (txs l)"
    using res(1) ts from_ts by (metis filter_append k_def length_append)
  show "select_at l' (length (from_sender s (res @ ts)))" using batch from_ts by (simp add: k_def)
  show "gapfree 0 (from_sender s (res @ ts))"
    using batch res from_ts unfolding filter_append gapfree_append k_def by metis
qed

text \<open>What a pass does for one sender.\<close>

lemma selectPass_sender:
  assumes ok: "sender_ok (tc_txListBySender c)" and S: "senders (tc_txListBySender c) = S"
    and idx: "index_inv U B S" and nonces: "\<forall>t\<in>U. is_u64 (tx_Nonce (wt_Tx t))"
    and l: "listFor (tc_txListBySender c) s = Some l" and res: "prefix_ok S res" "length res \<le> n"
    and at: "if first then from_sender s res = [] else selected_at c res s"
    and batch: "selectBatchTo first (n - length res) bs bw l = (l', ts, j)"
    and c2: "tc_txListBySender c2 = storeList (\<lambda>_. 0) l' None (tc_txListBySender c)"
  shows "sender_ok (tc_txListBySender c2)" "senders (tc_txListBySender c2) = S" "prefix_ok S (res @ ts)" "length (res @ ts) \<le> n"
    "selected_at c2 (res @ ts) s" "listFor (tc_txListBySender c2) k = (if k = s then Some l' else listFor (tc_txListBySender c) k)"
    "k \<noteq> s \<Longrightarrow> from_sender k ts = []"
proof -
  have S_s: "S s = Some (txs l)" "listOf S s = txs l" using l by (simp_all add: senders_def listOf_def flip: S)
  have linv: "list_inv l" by (rule sender_okD(3) [OF ok l])
  have txl: "\<forall>t\<in>set (txs l). 0 \<le> tx_Nonce (wt_Tx t) \<and> sender_of t = s"
    using index_list(2,3) [OF idx S_s(1)] nonces by (auto simp: is_u64_def)
  have pre: "from_sender k res = take (length (from_sender k res)) (listOf S k)" "gapfree 0 (from_sender k res)" for k
    using res(1) unfolding prefix_ok_def by blast+
  have "if first then from_sender s res = [] else select_at l (length (from_sender s res))"
    using at l by (cases first) (simp_all add: selected_at_def)
  note step = selectBatchTo_step [OF linv txl pre [of s, unfolded S_s] this batch]
  note fr = frame_selectBatchTo [OF batch]
  have l': "list_inv l'" "txs l' = txs l" using linv selectBatchTo_inv [OF batch] by (simp_all add: txs_def)
  note st = sender_store [OF ok l fr l'(1), of "\<lambda>_. 0" None]
  show "sender_ok (tc_txListBySender c2)" "senders (tc_txListBySender c2) = S"
    using st S S_s(1) by (auto simp: c2 l'(2))
  have "ls_sender l' = s" using fr sender_okD(5) [OF ok l] by (simp add: frame_def)
  then show get: "listFor (tc_txListBySender c2) k = (if k = s then Some l' else listFor (tc_txListBySender c) k)" for k
    using bs_Get_Set [OF sender_okD(1) [OF ok], of k l'] by (simp add: c2 storeList_def getListForSender_def)
  show none: "from_sender k ts = []" if "k \<noteq> s" for k using step(1) txl that by (auto simp: filter_empty_conv)
  have "from_sender k (res @ ts) = take (length (from_sender k (res @ ts))) (listOf S k) \<and> gapfree 0 (from_sender k (res @ ts))" for k
  proof (cases "k = s")
    case True
    then show ?thesis using step(2,3) S_s(2) by (simp only: simp_thms)
  next
    case False
    then show ?thesis using pre [of k] none [of k] by simp
  qed
  then show "prefix_ok S (res @ ts)" unfolding prefix_ok_def by blast
  show "length (res @ ts) \<le> n" using selectBatchTo_space [OF batch] res(2) by simp
  show "selected_at c2 (res @ ts) s" using step(4) by (simp add: selected_at_def get)
qed

lemma selectPass_step:
  assumes ok: "sender_ok (tc_txListBySender c)" and S: "senders (tc_txListBySender c) = S"
    and idx: "index_inv U B S" and nonces: "\<forall>t\<in>U. is_u64 (tx_Nonce (wt_Tx t))"
    and keys: "distinct keys" "set keys \<subseteq> dom (listFor (tc_txListBySender c))"
    and res: "prefix_ok S res" "length res \<le> n"
    and at: "\<forall>s\<in>set keys. if first then from_sender s res = [] else selected_at c res s"
    and run: "selectPass first n b bw keys c res = (c', res')"
  shows "sender_ok (tc_txListBySender c') \<and> senders (tc_txListBySender c') = S \<and> tc_txByHash c' = tc_txByHash c \<and>
    prefix_ok S res' \<and> length res \<le> length res' \<and> length res' \<le> n \<and>
    (length res' = n \<or> (\<forall>s\<in>set keys. selected_at c' res' s)) \<and>
    (\<forall>s. s \<notin> set keys \<longrightarrow> listFor (tc_txListBySender c') s = listFor (tc_txListBySender c) s \<and> from_sender s res' = from_sender s res)"
  using ok S keys res at run
proof (induction keys arbitrary: c res)
  case Nil
  then show ?case by simp
next
  case (Cons s keys)
  note ok = Cons.prems(1) and S = Cons.prems(2)
  obtain l where l: "listFor (tc_txListBySender c) s = Some l" using Cons.prems(4) by auto
  define bs where "bs = i64 (b * u32 (ls_lastComputedScore l + 1))"
  obtain l' ts j where batch: "selectBatchTo first (n - length res) bs bw l = (l', ts, j)" by (metis prod_cases3)
  define c1 where "c1 = c\<lparr>tc_txListBySender := storeList (\<lambda>_. 0) l' None (tc_txListBySender c)\<rparr>"
  define c2 where "c2 = (if first then collectSweepable l' c1 else c1)"
  have c2_sel: "tc_txListBySender c2 = storeList (\<lambda>_. 0) l' None (tc_txListBySender c)" "tc_txByHash c2 = tc_txByHash c"
    by (simp_all add: c2_def c1_def collectSweepable_def)
  have "if first then from_sender s res = [] else selected_at c res s" using Cons.prems(7) by simp
  note one = selectPass_sender [OF ok S idx nonces l Cons.prems(5,6) this batch c2_sel(1)]
  note ok2 = one(1,2) and pre2 = one(3) and len = one(4) and at_s = one(5) and get2 = one(6) and none = one(7)
  have other: "from_sender k (res @ ts) = from_sender k res" if "k \<noteq> s" for k using none that by simp
  have run': "(if length (res @ ts) = n then (c2, res @ ts) else selectPass first n b bw keys c2 (res @ ts)) = (c', res')"
    using Cons.prems(8) by (simp add: l batch [unfolded bs_def] c1_def c2_def Let_def split: if_splits)
  show ?case
  proof (cases "length (res @ ts) = n")
    case True
    then have "c' = c2" "res' = res @ ts" using run' by simp_all
    then show ?thesis using ok2 pre2 len True other get2 c2_sel(2) by simp
  next
    case False
    have s: "s \<notin> set keys" "distinct keys" using Cons.prems(3) by simp_all
    have "\<forall>k\<in>set keys. if first then from_sender k (res @ ts) = [] else selected_at c2 (res @ ts) k"
    proof
      fix k assume k: "k \<in> set keys"
      then have "k \<noteq> s" using s(1) by blast
      then show "if first then from_sender k (res @ ts) = [] else selected_at c2 (res @ ts) k"
        using Cons.prems(7) k by (cases first) (simp_all add: none selected_at_def get2)
    qed
    moreover have "set keys \<subseteq> dom (listFor (tc_txListBySender c2))" using Cons.prems(4) s(1) by (auto simp: get2)
    ultimately have ih: "sender_ok (tc_txListBySender c') \<and> senders (tc_txListBySender c') = S \<and> tc_txByHash c' = tc_txByHash c2 \<and>
      prefix_ok S res' \<and> length (res @ ts) \<le> length res' \<and> length res' \<le> n \<and>
      (length res' = n \<or> (\<forall>s\<in>set keys. selected_at c' res' s)) \<and>
      (\<forall>k. k \<notin> set keys \<longrightarrow> listFor (tc_txListBySender c') k = listFor (tc_txListBySender c2) k \<and> from_sender k res' = from_sender k (res @ ts))"
      using run' False by (intro Cons.IH [OF ok2 s(2) _ pre2 len]) simp_all
    have "selected_at c' res' s" using ih s(1) at_s by (simp add: selected_at_def)
    then show ?thesis using ih other get2 c2_sel(2) by simp
  qed
qed

text \<open>Every pass but the last selects a transaction, so the passes end.\<close>

lemma selectPasses_step:
  assumes "sender_ok (tc_txListBySender c)" "senders (tc_txListBySender c) = S"
    and idx: "index_inv U B S" and nonces: "\<forall>t\<in>U. is_u64 (tx_Nonce (wt_Tx t))"
    and keys: "distinct keys" "set keys \<subseteq> dom S"
    and "prefix_ok S res" "length res \<le> n"
    and "\<forall>s\<in>set keys. if pass = 0 then from_sender s res = [] else selected_at c res s" "n - length res < fuel"
  shows "\<exists>c' res'. selectPasses fuel pass n b bw keys c res = Some (c', res') \<and> sender_ok (tc_txListBySender c') \<and>
    senders (tc_txListBySender c') = S \<and> tc_txByHash c' = tc_txByHash c \<and> prefix_ok S res' \<and> length res' \<le> n"
  using assms(1,2,7,8,9,10)
proof (induction fuel arbitrary: pass c res)
  case (Suc fuel)
  obtain c1 res1 where run: "selectPass (pass = 0) n b bw keys c res = (c1, res1)" by fastforce
  have "set keys \<subseteq> dom (listFor (tc_txListBySender c))" using keys(2) Suc.prems(2) by (auto simp: senders_def)
  note step = selectPass_step [OF Suc.prems(1,2) idx nonces keys(1) this Suc.prems(3,4,5) run]
  show ?case
  proof (cases "length res1 = length res \<or> length res1 = n")
    case True
    then show ?thesis using step by (auto simp: run)
  next
    case False
    have "\<exists>c' res'. selectPasses fuel (Suc pass) n b bw keys c1 res1 = Some (c', res') \<and> sender_ok (tc_txListBySender c') \<and>
        senders (tc_txListBySender c') = S \<and> tc_txByHash c' = tc_txByHash c1 \<and> prefix_ok S res' \<and> length res' \<le> n"
    proof (rule Suc.IH)
      show "n - length res1 < fuel" using step Suc.prems(6) False by linarith
      show "\<forall>s\<in>set keys. if Suc pass = 0 then from_sender s res1 = [] else selected_at c1 res1 s" using step False by simp
    qed (use step in simp_all)
    then show ?thesis using False step by (simp add: run)
  qed
qed simp

lemma SelectTransactions_step:
  assumes inv: "cache_inv U stale c" and names: "hash_names U" and nonces: "\<forall>t\<in>U. is_u64 (tx_Nonce (wt_Tx t))"
    and fuel: "n < fuel"
  obtains c' res where "SelectTransactions rank fuel n b bw c = Some (c', res)" "cache_inv U stale c'"
    "prefix_ok (senders (tc_txListBySender c)) res" "length res \<le> n"
proof -
  note c = cache_invD [OF inv]
  let ?m = "tc_txListBySender c" and ?keys = "map ls_sender (GetSnapshotDescending rank (sm_backingMap (tc_txListBySender c)))"
  have keys: "distinct ?keys" "set ?keys \<subseteq> dom (senders ?m)"
    using snapshot_descending [OF c(2)] by (auto simp: snap_def senders_def)
  have "prefix_ok (senders ?m) []" by (simp add: prefix_ok_def)
  from selectPasses_step [OF c(2) refl c(3) nonces keys this, of n 0 fuel b bw] fuel
  obtain c1 res where run: "doSelectTransactions rank fuel n b bw c = Some (c1, res)" and c1: "sender_ok (tc_txListBySender c1)"
    "senders (tc_txListBySender c1) = senders ?m" "tc_txByHash c1 = tc_txByHash c" and res: "prefix_ok (senders ?m) res" "length res \<le> n"
    by (auto simp: doSelectTransactions_def)
  have inv1: "cache_inv U stale c1" using c c1 by (simp add: cache_inv_def)
  have "cache_inv U stale (sweepSweepable c1)"
  proof -
    let ?ls = "List.map_filter (listFor (tc_txListBySender c1)) (tc_sweepingListOfSenders c1)"
    have "\<forall>l\<in>set ?ls. listFor (tc_txListBySender c1) (ls_sender l) = Some l"
      using sender_okD(5) [OF c1(1)] by (auto simp: map_filter_def)
    from evict_inv(1) [OF inv1 names this] inv1 show ?thesis by (simp add: sweepSweepable_def Let_def cache_inv_def)
  qed
  with that [of "sweepSweepable c1" res] res run show thesis by (simp add: SelectTransactions_def)
qed

section \<open>Any sequence of operations\<close>

datatype cache_op =
    OpAddTx int "WrappedTransaction option"
  | OpRemoveTxByHash bytes
  | OpRemoveTxBySenderNonce bytes int
  | OpNotifyAccountNonce bytes int
  | OpSelectTransactions "bytes \<Rightarrow> nat" nat int int
  | OpCleanExpired int
  | OpClear

fun cache_step :: "(senderScoreParams \<Rightarrow> nat) \<Rightarrow> cache_op \<Rightarrow> TxCache \<Rightarrow> TxCache" where
  "cache_step score (OpAddTx now tx) c = fst (cache_AddTx score now tx c)"
| "cache_step score (OpRemoveTxByHash h) c = fst (RemoveTxByHash score h c)"
| "cache_step score (OpRemoveTxBySenderNonce s n) c = fst (RemoveTxBySenderNonce score s n c)"
| "cache_step score (OpNotifyAccountNonce s n) c = cache_NotifyAccountNonce s n c"
| "cache_step score (OpSelectTransactions rank n b bw) c =
     (case SelectTransactions rank (Suc n) n b bw c of None \<Rightarrow> c | Some (c', _) \<Rightarrow> c')"
| "cache_step score (OpCleanExpired now) c = cleanExpiredTransactions now c"
| "cache_step score OpClear c = cache_Clear c"

fun offered :: "cache_op \<Rightarrow> WrappedTransaction set" where
  "offered (OpAddTx _ (Some tx)) = {tx}"
| "offered _ = {}"

lemma cache_step_inv:
  assumes "cache_inv U stale c" "hash_names U" "\<forall>t\<in>U. is_u64 (tx_Nonce (wt_Tx t))" "offered op \<subseteq> U"
  shows "cache_inv U (if op = OpClear then bh_numBytes (tc_txByHash c) else stale) (cache_step score op c)"
proof (cases op)
  case (OpAddTx now tx)
  then have "\<forall>t. tx = Some t \<longrightarrow> t \<in> U" using assms(4) by (cases tx) auto
  then show ?thesis using cache_AddTx_inv [OF assms(1,2)] OpAddTx by simp
next
  case (OpSelectTransactions rank n b bw)
  obtain c' res where "SelectTransactions rank (Suc n) n b bw c = Some (c', res)" "cache_inv U stale c'"
    by (rule SelectTransactions_step [OF assms(1,2,3), of n "Suc n" rank b bw]) auto
  then show ?thesis using OpSelectTransactions by simp
qed (use assms in \<open>simp_all add: RemoveTxByHash_inv RemoveTxBySenderNonce_inv notifyAccountNonce_inv cleanExpired_step(1) Clear_inv(1)\<close>)

definition cache_run :: "(senderScoreParams \<Rightarrow> nat) \<Rightarrow> cache_op list \<Rightarrow> TxCache \<Rightarrow> TxCache" where
  "cache_run score ops c = foldl (\<lambda>c op. cache_step score op c) c ops"

lemma NewTxCache_inv:
  assumes "NewTxCache config = Inr c"
  shows "cache_inv U 0 c"
proof -
  obtain n k cfg where c: "c = \<lparr>tc_txListBySender = newTxListBySenderMap n k, tc_txByHash = newTxByHashMap n, tc_config = cfg,
      tc_sweepingListOfSenders = []\<rparr>"
    using assms by (auto simp: NewTxCache_def Let_def split: sum.splits if_splits)
  have get: "byHash (newTxByHashMap n) h = None" "listFor (newTxListBySenderMap n k) h = None" "bs_Get h (sm_backingMap (newTxListBySenderMap n k)) = None" for h
    by (simp_all add: byHash_getTx_def newTxByHashMap_def get_New getListForSender_def newTxListBySenderMap_def bs_Get_def
          NewBucketSortedMap_def Let_def)
  have "cmap.total f (bh_backingMap (newTxByHashMap n)) = 0" for f
    using get(1) by (simp add: cmap.total_def cmap.abs_map_def byHash_getTx_def dom_def)
  then have "hash_ok 0 (newTxByHashMap n)" by (simp add: hash_ok_def) (simp add: newTxByHashMap_def wf_New i64_def)
  moreover have "bs_scoreChunks (sm_backingMap (newTxListBySenderMap n k)) = replicate (Suc (bs_maxScore (sm_backingMap (newTxListBySenderMap n k)))) []"
    "wf_cmap (bs_chunks (sm_backingMap (newTxListBySenderMap n k)))"
    by (simp_all add: newTxListBySenderMap_def NewBucketSortedMap_def Let_def numberOfScoreChunks_def wf_New del: replicate.simps)
  then have "chunk_inv (sm_backingMap (newTxListBySenderMap n k))" by (simp add: chunk_inv_def home_def get(3) del: replicate.simps)
  then have "sender_ok (newTxListBySenderMap n k)"
    using get(2) by (simp add: sender_ok_def dom_def) (simp add: newTxListBySenderMap_def i64_def)
  moreover have "index_inv U (byHash (newTxByHashMap n)) (senders (newTxListBySenderMap n k))"
    using get by (simp add: index_inv_def senders_def listed_def)
  ultimately show ?thesis by (simp add: cache_inv_def c)
qed

lemma cache_run_inv:
  assumes "cache_inv U stale c" "hash_names U" "\<forall>t\<in>U. is_u64 (tx_Nonce (wt_Tx t))" "\<Union> (offered ` set ops) \<subseteq> U"
  shows "\<exists>stale'. cache_inv U stale' (cache_run score ops c) \<and> (OpClear \<notin> set ops \<longrightarrow> stale' = stale)"
  using assms(1,4)
proof (induction ops arbitrary: c stale)
  case Nil
  then show ?case by (auto simp: cache_run_def)
next
  case (Cons op ops)
  have "offered op \<subseteq> U" using Cons.prems(2) by simp
  note step = cache_step_inv [OF Cons.prems(1) assms(2,3) this, of score]
  have "\<Union> (offered ` set ops) \<subseteq> U" using Cons.prems(2) by simp
  from Cons.IH [OF step this] obtain stale' where "cache_inv U stale' (cache_run score ops (cache_step score op c))"
    "OpClear \<notin> set ops \<longrightarrow> stale' = (if op = OpClear then bh_numBytes (tc_txByHash c) else stale)" by blast
  then show ?case by (intro exI [of _ stale']) (simp add: cache_run_def)
qed

section \<open>What the pool holds\<close>

definition contents :: "TxCache \<Rightarrow> WrappedTransaction set" where
  "contents c = {t. GetByTxHash (wt_TxHash t) c = Some t}"

lemma contents_iff: "cache_inv U stale c \<Longrightarrow> t \<in> contents c \<longleftrightarrow> t \<in> set (listOf (senders (tc_txListBySender c)) (sender_of t))"
  by (simp add: contents_def listed_GetByTxHash)

lemma contents_subset: "cache_inv U stale c \<Longrightarrow> contents c \<subseteq> U"
  using listOf_ok [OF cache_invD(3)] by (auto simp: contents_iff)

lemma dom_contents: "cache_inv U stale c \<Longrightarrow> dom (byHash (tc_txByHash c)) = wt_TxHash ` contents c"
  by (auto simp: contents_def GetByTxHash_def [symmetric] listed_GetByTxHash image_iff)

lemma contents_inj: "inj_on wt_TxHash (contents c)"
  by (rule inj_onI) (simp add: contents_def)

lemma total_contents:
  assumes "cache_inv U stale c"
  shows "cmap.total f (bh_backingMap (tc_txByHash c)) = (\<Sum>t\<in>contents c. f t)"
proof -
  have abs: "cmap.abs_map (bh_backingMap (tc_txByHash c)) = byHash (tc_txByHash c)"
    by (simp add: cmap.abs_map_def byHash_getTx_def fun_eq_iff)
  have "(\<Sum>k\<in>wt_TxHash ` contents c. f (the (byHash (tc_txByHash c) k))) = (\<Sum>t\<in>contents c. f (the (byHash (tc_txByHash c) (wt_TxHash t))))"
    by (simp add: sum.reindex [OF contents_inj] o_def)
  also have "\<dots> = (\<Sum>t\<in>contents c. f t)"
    by (rule sum.cong) (simp_all add: contents_def GetByTxHash_def)
  finally show ?thesis unfolding cmap.total_def abs dom_contents [OF assms] .
qed

lemma length_keys:
  assumes "cache_inv U stale c"
  shows "int (length (cache_Keys c)) = int (card (contents c))" "set (cache_Keys c) = wt_TxHash ` contents c" "distinct (cache_Keys c)"
proof -
  have wf: "wf_cmap (bh_backingMap (tc_txByHash c))" using cache_invD(1) [OF assms] by (simp add: hash_ok_def)
  show "set (cache_Keys c) = wt_TxHash ` contents c"
    using cmap.dom_keys [OF wf] dom_contents [OF assms]
    by (simp add: cache_Keys_def byHash_keys_def cmap.abs_map_def [abs_def] byHash_getTx_def)
  show "distinct (cache_Keys c)" using keys_distinct_cmap [OF wf] by (simp add: cache_Keys_def byHash_keys_def)
  show "int (length (cache_Keys c)) = int (card (contents c))"
    using cmap.total_one [OF wf] total_contents [OF assms, of "\<lambda>_. 1"] by (simp add: cache_Keys_def byHash_keys_def)
qed

lemma snapshot_hashes:
  assumes inv: "cache_inv U stale c"
  defines "hs \<equiv> concat (map getTxHashes (GetSnapshotAscending (sm_backingMap (tc_txListBySender c))))"
  shows "distinct hs" "set hs = wt_TxHash ` contents c"
proof -
  note c = cache_invD [OF inv]
  define ls where "ls = GetSnapshotAscending (sm_backingMap (tc_txListBySender c))"
  have sn: "snap (tc_txListBySender c) ls" "ls_sender ` set ls = dom (listFor (tc_txListBySender c))"
    unfolding ls_def by (rule snapshot_ascending [OF c(2)])+
  have mem: "t \<in> contents c \<and> sender_of t = ls_sender l" if "l \<in> set ls" "t \<in> set (txs l)" for l t
  proof -
    have "listOf (senders (tc_txListBySender c)) (ls_sender l) = txs l" using sn(1) that(1) by (simp add: snap_def senders_listOf)
    then show ?thesis using listOf_ok [OF c(3), of t "ls_sender l"] that(2) by (simp add: contents_iff [OF inv])
  qed
  have "x \<in> wt_TxHash ` contents c" if x: "x \<in> set hs" for x
    using x mem by (auto simp: hs_def ls_def [symmetric] getTxHashes_hashes hashes_def)
  moreover have "wt_TxHash t \<in> set hs" if mem_t: "t \<in> contents c" for t
  proof -
    obtain l where l: "listFor (tc_txListBySender c) (sender_of t) = Some l" "t \<in> set (txs l)"
      using mem_t by (cases "listFor (tc_txListBySender c) (sender_of t)") (auto simp: contents_iff [OF inv] listOf_def senders_def)
    then have "sender_of t \<in> ls_sender ` set ls" using sn(2) by auto
    then have "l \<in> set ls" using sn(1) l(1) by (auto simp: snap_def)
    then show ?thesis using l(2) by (auto simp: hs_def ls_def [symmetric] getTxHashes_hashes hashes_def)
  qed
  ultimately show "set hs = wt_TxHash ` contents c" by blast
  show "distinct hs"
    unfolding hs_def ls_def [symmetric]
  proof (rule distinct_concat_chunks)
    fix i assume i: "i < length (map getTxHashes ls)"
    then have "listFor (tc_txListBySender c) (ls_sender (ls ! i)) = Some (ls ! i)" using sn(1) by (simp add: snap_def)
    then show "distinct (map getTxHashes ls ! i)" using sender_okD(3) [OF c(2)] i by (simp add: getTxHashes_hashes hashes_def list_inv_def)
  next
    fix i j x assume ij: "i < length (map getTxHashes ls)" "j < length (map getTxHashes ls)"
      "x \<in> set (map getTxHashes ls ! i)" "x \<in> set (map getTxHashes ls ! j)"
    then obtain t u where tu: "t \<in> set (txs (ls ! i))" "u \<in> set (txs (ls ! j))" "wt_TxHash t = x" "wt_TxHash u = x"
      by (auto simp: getTxHashes_hashes hashes_def)
    then have "t \<in> contents c" "u \<in> contents c" "sender_of t = ls_sender (ls ! i)" "sender_of u = ls_sender (ls ! j)"
      using mem [of "ls ! i" t] mem [of "ls ! j" u] ij(1,2) by simp_all
    then have "ls_sender (ls ! i) = ls_sender (ls ! j)" using tu(3,4) by (simp add: contents_def)
    then show "i = j" using sn(1) ij(1,2) nth_eq_iff_index_eq [of "map ls_sender ls" i j] by (simp add: snap_def)
  qed
qed

lemma foldl_count: "foldl (\<lambda>n l. u64 (n + countTx l)) (u64 a) ls = u64 (a + int (length (concat (map getTxHashes ls))))"
proof (induction ls arbitrary: a)
  case (Cons l ls)
  have "u64 (u64 a + countTx l) = u64 (a + countTx l)" by (simp add: u64_def mod_simps)
  then show ?case using Cons.IH [of "a + countTx l"] by (simp add: getTxHashes_def countTx_def algebra_simps)
qed simp

lemma consistent:
  assumes inv: "cache_inv U stale c" and bound: "int (card (contents c)) \<le> MaxInt64"
  shows "isFine (checkInternalConsistency c)"
proof -
  define hs where "hs = concat (map getTxHashes (GetSnapshotAscending (sm_backingMap (tc_txListBySender c))))"
  note hs = snapshot_hashes [OF inv, folded hs_def]
  have len: "length hs = card (contents c)" using hs card_image [OF contents_inj] by (metis distinct_card)
  have "foldl (\<lambda>n l. u64 (n + countTx l)) 0 (GetSnapshotAscending (sm_backingMap (tc_txListBySender c))) = u64 (int (length hs))"
    using foldl_count [of 0] by (simp add: hs_def u64_def)
  also have "\<dots> = int (card (contents c))" using bound by (simp add: len u64_def MaxInt64_def)
  finally have n: "foldl (\<lambda>n l. u64 (n + countTx l)) 0 (GetSnapshotAscending (sm_backingMap (tc_txListBySender c))) = int (card (contents c))" .
  have "filter (\<lambda>h. byHash_getTx h (tc_txByHash c) = None) hs = []"
    using hs(2) by (auto simp: filter_empty_conv contents_def GetByTxHash_def)
  then show ?thesis
    using length_keys(1) [OF inv] bound n
    by (simp add: isFine_def checkInternalConsistency_def Let_def hs_def [symmetric] cache_Keys_def)
qed

section \<open>The pool is correct\<close>

lemma option_ext: "(\<And>t. x = Some t \<longleftrightarrow> y = Some t) \<Longrightarrow> x = y"
  by (metis not_Some_eq)

lemma distinct_parts: "(\<And>s. distinct (filter (\<lambda>t. f t = s) ts)) \<Longrightarrow> distinct ts"
proof (induction ts)
  case (Cons t ts)
  have "distinct (t # filter (\<lambda>x. f x = f t) ts)" using Cons.prems [of "f t"] by simp
  moreover have "distinct (filter (\<lambda>x. f x = s) ts)" for s using Cons.prems [of s] by (cases "f t = s") auto
  ultimately show ?case using Cons.IH by auto
qed simp

text \<open>
  C4: the pool never loses track of a transaction. After any sequence of additions, removals, account
  notifications, selections, cleanups and clears on a new pool, with whatever score function, the two
  indexes hold the same transactions: the check the pool runs on itself is fine. The hypotheses are
  that a hash identifies a transaction and that fewer than 2 to the 63 transactions exist.
\<close>

theorem pool_stays_consistent:
  assumes "NewTxCache config = Inr c0" and "hash_names U" and "\<forall>t\<in>U. is_u64 (tx_Nonce (wt_Tx t))"
    and "finite U" and "int (card U) \<le> MaxInt64" and "\<Union> (offered ` set ops) \<subseteq> U"
  shows "isFine (checkInternalConsistency (cache_run score ops c0))"
proof -
  obtain stale where inv: "cache_inv U stale (cache_run score ops c0)"
    using cache_run_inv [OF NewTxCache_inv [OF assms(1)] assms(2,3,6)] by blast
  have "card (contents (cache_run score ops c0)) \<le> card U" by (rule card_mono [OF assms(4) contents_subset [OF inv]])
  with assms(5) show ?thesis by (intro consistent [OF inv]) linarith
qed

text \<open>
  C14: the counters of the pool are exact. After any sequence of operations that does not clear the pool,
  the number of transactions and the number of bytes are those of the transactions in it. A clear empties
  the pool but leaves the number of bytes as it was.
\<close>

theorem pool_counters_exact:
  assumes "NewTxCache config = Inr c0" and "hash_names U" and "\<forall>t\<in>U. is_u64 (tx_Nonce (wt_Tx t)) \<and> 0 \<le> wt_Size t"
    and "finite U" and "int (card U) \<le> MaxInt64" and "(\<Sum>t\<in>U. wt_Size t) \<le> MaxInt64"
    and "\<Union> (offered ` set ops) \<subseteq> U" and "OpClear \<notin> set ops"
  shows "let c = cache_run score ops c0 in
    CountTx c = int (card (contents c)) \<and> NumBytes c = (\<Sum>t\<in>contents c. wt_Size t) \<and>
    contents (cache_Clear c) = {} \<and> CountTx (cache_Clear c) = 0 \<and> NumBytes (cache_Clear c) = NumBytes c"
proof -
  define c where "c = cache_run score ops c0"
  have inv: "cache_inv U 0 c"
    using cache_run_inv [OF NewTxCache_inv [OF assms(1)] assms(2) _ assms(7), of score] assms(3,8) by (auto simp: c_def)
  have sub: "contents c \<subseteq> U" by (rule contents_subset [OF inv])
  have "card (contents c) \<le> card U" "(\<Sum>t\<in>contents c. wt_Size t) \<le> (\<Sum>t\<in>U. wt_Size t)" "0 \<le> (\<Sum>t\<in>contents c. wt_Size t)"
    using sub assms(3,4) by (auto intro!: card_mono sum_mono2 sum_nonneg)
  then have "i64 (int (card (contents c))) = int (card (contents c))" "i64 (\<Sum>t\<in>contents c. wt_Size t) = (\<Sum>t\<in>contents c. wt_Size t)"
    "0 \<le> (\<Sum>t\<in>contents c. wt_Size t)"
    using assms(5,6) by (auto simp: i64_def MaxInt64_def)
  moreover have "bh_counter (tc_txByHash c) = i64 (int (card (contents c)))" "bh_numBytes (tc_txByHash c) = i64 (\<Sum>t\<in>contents c. wt_Size t)"
    using cache_invD(1) [OF inv] total_contents [OF inv] by (simp_all add: hash_ok_def)
  moreover have "contents (cache_Clear c) = {}" using Clear_inv(2) [OF inv] by (simp add: contents_def)
  ultimately show ?thesis
    by (simp add: c_def [symmetric] Let_def CountTx_def NumBytes_def getUint64_def cache_Clear_def byHash_clear_def)
qed

text \<open>
  C13: selecting transactions for a block ends, whatever the batch size, the bandwidth and the order in which the senders of
  a score are visited, and returns at most the number requested, each once and all of them in the pool; of every sender it
  returns a prefix of the sender's list, in order, in which no nonce is skipped after a positive nonce. After the nonce 0 the
  code does not look for a gap, so that transactions beyond it may be selected.
\<close>

theorem SelectTransactions_returns:
  assumes "NewTxCache config = Inr c0" and "hash_names U" and "\<forall>t\<in>U. is_u64 (tx_Nonce (wt_Tx t))"
    and "\<Union> (offered ` set ops) \<subseteq> U" and "numRequested < fuel"
  shows "let c = cache_run score ops c0 in
    \<exists>c' ts. SelectTransactions rank fuel numRequested batchSize bandwidth c = Some (c', ts) \<and> length ts \<le> numRequested \<and>
      set ts \<subseteq> contents c \<and> distinct ts \<and>
      (\<forall>s. gapfree 0 (from_sender s ts) \<and> (\<exists>n. from_sender s ts = take n (listOf (senders (tc_txListBySender c)) s)))"
proof -
  define c where "c = cache_run score ops c0"
  obtain stale where inv: "cache_inv U stale c"
    using cache_run_inv [OF NewTxCache_inv [OF assms(1)] assms(2,3,4), of score] by (auto simp: c_def)
  obtain c' ts where sel: "SelectTransactions rank fuel numRequested batchSize bandwidth c = Some (c', ts)" "length ts \<le> numRequested"
    and pre: "prefix_ok (senders (tc_txListBySender c)) ts"
    by (rule SelectTransactions_step [OF inv assms(2,3,5)])
  let ?S = "senders (tc_txListBySender c)"
  have part: "from_sender s ts = take (length (from_sender s ts)) (listOf ?S s)" "gapfree 0 (from_sender s ts)" for s
    using pre unfolding prefix_ok_def by blast+
  have "t \<in> contents c" if "t \<in> set ts" for t
  proof -
    have "t \<in> set (from_sender (sender_of t) ts)" using that by simp
    then have "t \<in> set (listOf ?S (sender_of t))" by (subst (asm) part(1)) (rule in_set_takeD)
    then show ?thesis by (simp add: contents_iff [OF inv])
  qed
  moreover have "distinct (from_sender s ts)" for s
  proof -
    have "distinct (listOf ?S s)"
      using index_list(1) [OF cache_invD(3) [OF inv], of s] by (cases "?S s") (simp_all add: listOf_def distinct_map)
    then show ?thesis by (subst part(1)) (rule distinct_take)
  qed
  then have "distinct ts" by (rule distinct_parts)
  ultimately show ?thesis using sel part unfolding c_def [symmetric] Let_def by blast
qed


text \<open>
  C15: the cleanup takes exactly the expired transactions out of the pool: a transaction is found by its hash
  afterwards when it was found before and has not expired.
\<close>

theorem cleanExpired_exact:
  assumes "NewTxCache config = Inr c0" and "hash_names U" and "\<forall>t\<in>U. is_u64 (tx_Nonce (wt_Tx t))"
    and "\<Union> (offered ` set ops) \<subseteq> U"
  shows "let c = cache_run score ops c0 in
    GetByTxHash h (cleanExpiredTransactions now c) =
      (case GetByTxHash h c of Some t \<Rightarrow> if wt_ExpireOn t < now then None else Some t | None \<Rightarrow> None)"
proof -
  define c where "c = cache_run score ops c0"
  obtain stale where inv: "cache_inv U stale c"
    using cache_run_inv [OF NewTxCache_inv [OF assms(1)] assms(2,3,4), of score] by (auto simp: c_def)
  note step = cleanExpired_step [OF inv assms(2), of now]
  have "GetByTxHash h (cleanExpiredTransactions now c) = Some t \<longleftrightarrow> GetByTxHash h c = Some t \<and> \<not> wt_ExpireOn t < now" for t
    unfolding listed_GetByTxHash [OF step(1)] listed_GetByTxHash [OF inv] step(3) by (auto simp: unexpired_def)
  also have "GetByTxHash h c = Some t \<and> \<not> wt_ExpireOn t < now \<longleftrightarrow>
      (case GetByTxHash h c of Some t \<Rightarrow> if wt_ExpireOn t < now then None else Some t | None \<Rightarrow> None) = Some t" for t
    by (cases "GetByTxHash h c") auto
  finally show ?thesis unfolding c_def [symmetric] Let_def by (rule option_ext)
qed

section \<open>Pages\<close>

lemma pageLoop_slice:
  assumes "idx \<le> e" "c \<le> e" "e - c \<le> length es" "length acc = c - idx"
  shows "pageLoop es (int c) (int idx) (int e) (acc @ replicate (e - max c idx) None) =
    acc @ map (\<lambda>x. Some (wt_Tx (snd x))) (take (e - max c idx) (drop (idx - c) es))"
  using assms
proof (induction es arbitrary: c acc)
  case Nil
  then show ?case by simp
next
  case (Cons x es)
  consider "c = e" | "c < e" "c < idx" | "c < e" "idx \<le> c" using Cons.prems(2) by linarith
  then show ?case
  proof cases
    case 1
    then show ?thesis using Cons.prems(1) by simp
  next
    case 2
    have "max (Suc c) idx = idx" "max c idx = idx" "idx - c = Suc (idx - Suc c)" using 2(2) by simp_all
    then show ?thesis using 2 Cons.prems Cons.IH [of "Suc c" acc] by (simp add: add.commute)
  next
    case 3
    have m: "max (Suc c) idx = Suc c" "max c idx = c" "e - c = Suc (e - Suc c)" using 3 by simp_all
    have "(acc @ replicate (Suc (e - Suc c)) None)[c - idx := Some (wt_Tx (snd x))] = (acc @ [Some (wt_Tx (snd x))]) @ replicate (e - Suc c) None"
      using Cons.prems(4) by (simp add: list_update_append)
    moreover have "nat (int c - int idx) = c - idx" by simp
    ultimately show ?thesis
      using 3 m Cons.prems Cons.IH [of "Suc c" "acc @ [Some (wt_Tx (snd x))]"] by (simp add: add.commute Suc_diff_le)
  qed
qed

text \<open>
  A page of the transactions of a sender is the slice of the sender's list between its first and its
  last index, cut at the end of the list, with the length of the list; a page after the end is empty.
\<close>

theorem GetBySenderPaginated_slice:
  assumes "getListForSender sender (tc_txListBySender cache) = Some l" and "0 < pageSize" and "0 \<le> page"
    and "(page + 1) * pageSize \<le> MaxInt64" and "int (length (ls_items l)) \<le> MaxInt64"
  shows "GetBySenderPaginated sender page pageSize cache =
    Some (map (\<lambda>t. Some (wt_Tx t)) (take (nat pageSize) (drop (nat (page * pageSize)) (txs l))), int (length (txs l)))"
proof -
  define idx where "idx = nat (page * pageSize)"
  have i: "int idx = page * pageSize" using assms(2,3) by (simp add: idx_def)
  have fit: "page * pageSize + pageSize \<le> MaxInt64" using assms(4) by (simp add: distrib_right)
  then have wrap: "i64 (page * pageSize) = int idx" "i64 (int idx + pageSize) = int idx + pageSize"
    using assms(2) i by (simp_all add: i64_def MaxInt64_def)
  let ?n = "length (ls_items l)"
  have len: "int (length (txs l)) = int ?n" by (simp add: txs_def)
  show ?thesis
  proof (cases "?n \<le> idx")
    case True
    then have "drop idx (txs l) = []" by (simp add: txs_def)
    then show ?thesis using True len by (simp add: GetBySenderPaginated_def assms(1) wrap idx_def [symmetric])
  next
    case False
    define e where "e = min (idx + nat pageSize) ?n"
    have e: "idx \<le> e" "e \<le> ?n" "(if int idx + pageSize > int ?n then int ?n else int idx + pageSize) = int e"
      using False assms(2) by (auto simp: e_def min_def)
    have "i64 (int e - int idx) = int (e - idx)" using e assms(5) by (simp add: i64_def MaxInt64_def of_nat_diff)
    then have "GetBySenderPaginated sender page pageSize cache =
        Some (pageLoop (ls_items l) 0 (int idx) (int e) (replicate (e - idx) None), int ?n)"
      using False e(3) by (simp add: GetBySenderPaginated_def assms(1) wrap Let_def)
    also have "pageLoop (ls_items l) 0 (int idx) (int e) (replicate (e - idx) None) =
        map (\<lambda>x. Some (wt_Tx (snd x))) (take (e - idx) (drop idx (ls_items l)))"
      using pageLoop_slice [of idx e 0 "ls_items l" "[]"] e by simp
    also have "take (e - idx) (drop idx (ls_items l)) = take (nat pageSize) (drop idx (ls_items l))"
      using False by (auto simp: e_def min_def)
    finally show ?thesis by (simp add: txs_def drop_map take_map o_def idx_def [symmetric])
  qed
qed

section \<open>A pool\<close>

definition sample_config :: Config where
  "sample_config = \<lparr>cf_Name = [1], cf_NumChunks = 4, cf_EvictionEnabled = True, cf_NumBytesThreshold = 1000,
     cf_NumBytesPerSenderThreshold = 100, cf_CountThreshold = 10, cf_CountPerSenderThreshold = 5, cf_NumSendersToPreemptivelyEvict = 2,
     cf_CleanupInterval = 0\<rparr>"

definition sample_pool :: TxCache where
  "sample_pool = \<lparr>tc_txListBySender = newTxListBySenderMap 4 \<lparr>sc_maxNumTxs = 5, sc_maxNumBytes = 100\<rparr>, tc_txByHash = newTxByHashMap 4,
     tc_config = sample_config\<lparr>cf_CleanupInterval := cleanupInterval\<rparr>, tc_sweepingListOfSenders = []\<rparr>"

definition sample_txs :: "WrappedTransaction set" where
  "sample_txs = {sample_tx 4 9 10 4, sample_tx 5 9 10 5}"

definition sample_ops :: "cache_op list" where
  "sample_ops = [OpAddTx 50 (Some (sample_tx 5 9 10 5)), OpAddTx 60 (Some (sample_tx 4 9 10 4)), OpSelectTransactions length 1 1 100,
     OpRemoveTxByHash [4], OpCleanExpired 70]"

lemma sample_new: "NewTxCache sample_config = Inr sample_pool"
  by (simp add: NewTxCache_def sample_config_def sample_pool_def config_verify_def getSenderConstraints_def cleanupInterval_def)

lemma sample_universe:
  "hash_names sample_txs" "\<forall>t\<in>sample_txs. is_u64 (tx_Nonce (wt_Tx t))" "finite sample_txs" "int (card sample_txs) \<le> MaxInt64"
  "\<Union> (offered ` set sample_ops) \<subseteq> sample_txs" "OpClear \<notin> set sample_ops"
  "\<forall>t\<in>sample_txs. is_u64 (tx_Nonce (wt_Tx t)) \<and> 0 \<le> wt_Size t" "(\<Sum>t\<in>sample_txs. wt_Size t) \<le> MaxInt64"
  by (simp_all add: sample_txs_def sample_ops_def hash_names_def sample_tx_def is_u64_def MaxInt64_def)

theorem pool_stays_consistent_witness:
  "isFine (checkInternalConsistency (cache_run (\<lambda>_. 7) (sample_ops @ [OpClear]) sample_pool))"
  by (rule pool_stays_consistent [OF sample_new sample_universe(1-4)]) (use sample_universe(5) in simp)

theorem pool_counters_exact_witness:
  "CountTx (cache_run (\<lambda>_. 7) sample_ops sample_pool) = int (card (contents (cache_run (\<lambda>_. 7) sample_ops sample_pool)))"
  using pool_counters_exact [OF sample_new sample_universe(1,7,3,4,8,5,6)] by (simp add: Let_def)

theorem SelectTransactions_returns_witness:
  "\<exists>c' ts. SelectTransactions length 4 3 2 100 (cache_run (\<lambda>_. 7) sample_ops sample_pool) = Some (c', ts) \<and> length ts \<le> 3"
  using SelectTransactions_returns [OF sample_new sample_universe(1,2,5), of 3 4] unfolding Let_def by force

theorem cleanExpired_exact_witness:
  "GetByTxHash [5] (cleanExpiredTransactions 101 (cache_run (\<lambda>_. 7) sample_ops sample_pool)) =
    (case GetByTxHash [5] (cache_run (\<lambda>_. 7) sample_ops sample_pool) of Some t \<Rightarrow> if wt_ExpireOn t < 101 then None else Some t | None \<Rightarrow> None)"
  using cleanExpired_exact [OF sample_new sample_universe(1,2,5)] by (simp add: Let_def)

theorem GetBySenderPaginated_slice_witness:
  "GetBySenderPaginated [1] 1 2
     (sample_pool\<lparr>tc_txListBySender := (tc_txListBySender sample_pool)\<lparr>sm_backingMap := bs_Set sample_list (sm_backingMap (tc_txListBySender sample_pool))\<rparr>\<rparr>) =
   Some ([Some (wt_Tx (sample_tx 6 9 10 6))], 3)"
proof -
  have inv: "chunk_inv (sm_backingMap (tc_txListBySender sample_pool))"
    by (rule sender_okD(1) [OF cache_invD(2) [OF NewTxCache_inv [OF sample_new]]])
  have "getListForSender [1] (tc_txListBySender (sample_pool\<lparr>tc_txListBySender := (tc_txListBySender sample_pool)
      \<lparr>sm_backingMap := bs_Set sample_list (sm_backingMap (tc_txListBySender sample_pool))\<rparr>\<rparr>)) = Some sample_list"
    by (simp add: getListForSender_def bs_Get_Set [OF inv] sample_list_def newTxListForSender_def)
  from GetBySenderPaginated_slice [OF this, of 2 1] show ?thesis
    by (simp add: MaxInt64_def sample_list_def txs_def newTxListForSender_def)
qed

end
