(* ===== verification/Bitmap.thy ===== *)
theory Bitmap
  imports GoPrelude
begin

text \<open>
  Bitmaps of public keys (\<open>tools/bitmap\<close>): bit \<open>i\<close> of the byte string stands for the member \<open>i\<close> of the
  consensus group. The theory describes a bitmap by the set of members it names, and holds the contract of
  a check of certificates: two certificates accepted for the same group share a signer.
\<close>

unbundle bit_operations_syntax

section \<open>Bits of a bitmap\<close>

definition bitAt :: "bytes \<Rightarrow> nat \<Rightarrow> bool" where
  "bitAt bitmap i \<longleftrightarrow> (bitmap ! (i div 8)) AND push_bit (i mod 8) 1 \<noteq> 0"

definition HasPaddingBitsSet :: "bytes \<Rightarrow> nat \<Rightarrow> bool" where
  "HasPaddingBitsSet bitmap numValidBits = list_ex (\<lambda>bitIndex. bitAt bitmap bitIndex) [numValidBits..<length bitmap * 8]"

text \<open>The number of bytes a bitmap of the given number of members has.\<close>

definition bitmapBytes :: "nat \<Rightarrow> nat" where
  "bitmapBytes n = (if n mod 8 \<noteq> 0 then n div 8 + 1 else n div 8)"

definition OnesCount8 :: "byte \<Rightarrow> nat" where
  "OnesCount8 b = length (filter (bit b) [0..<8])"

definition onesInBitmap :: "bytes \<Rightarrow> nat" where
  "onesInBitmap bitmap = sum_list (map OnesCount8 bitmap)"

definition setBit :: "nat \<Rightarrow> bytes \<Rightarrow> bytes" where
  "setBit i bitmap = bitmap[i div 8 := (bitmap ! (i div 8)) OR push_bit (i mod 8) 1]"

section \<open>The members a bitmap names\<close>

definition membersOf :: "bytes \<Rightarrow> nat set" where
  "membersOf bitmap = {i. i < length bitmap * 8 \<and> bitAt bitmap i}"

lemma and_push_bit_ne: "(b AND push_bit k (1::byte)) \<noteq> 0 \<longleftrightarrow> bit b k" if "k < 8"
proof -
  have "bit (b AND push_bit k (1::byte)) n \<longleftrightarrow> n = k \<and> bit b k" for n
    using that by (auto simp: bit_simps)
  then show ?thesis by (metis bit_0_eq bot_apply bot_bool_def bit_eqI)
qed

lemma bitAt_bit: "bitAt bitmap i \<longleftrightarrow> bit (bitmap ! (i div 8)) (i mod 8)"
  unfolding bitAt_def by (rule and_push_bit_ne) simp

lemma finite_members [simp]: "finite (membersOf bitmap)"
  by (rule finite_subset [of _ "{..<length bitmap * 8}"]) (auto simp: membersOf_def)

lemma membersOf_Cons: "membersOf (b # bs) = {k. k < 8 \<and> bit b k} \<union> (\<lambda>i. i + 8) ` membersOf bs"
proof (intro set_eqI iffI)
  fix i assume i: "i \<in> membersOf (b # bs)"
  show "i \<in> {k. k < 8 \<and> bit b k} \<union> (\<lambda>i. i + 8) ` membersOf bs"
  proof (cases "i < 8")
    case False
    then have "i = (i - 8) + 8" "i div 8 = Suc ((i - 8) div 8)" "i mod 8 = (i - 8) mod 8"
      by (simp_all add: le_div_geq le_mod_geq)
    with i have "i - 8 \<in> membersOf bs" by (auto simp: membersOf_def bitAt_bit)
    with \<open>i = (i - 8) + 8\<close> show ?thesis by blast
  qed (use i in \<open>simp add: membersOf_def bitAt_bit\<close>)
next
  fix i assume "i \<in> {k. k < 8 \<and> bit b k} \<union> (\<lambda>i. i + 8) ` membersOf bs"
  moreover have "(x + 8) div 8 = Suc (x div 8)" for x :: nat by simp
  ultimately show "i \<in> membersOf (b # bs)" by (auto simp: membersOf_def bitAt_bit simp del: div_add_self2)
qed

lemma card_membersOf: "card (membersOf bitmap) = onesInBitmap bitmap"
proof (induction bitmap)
  case Nil
  then show ?case by (simp add: membersOf_def onesInBitmap_def)
next
  case (Cons b bs)
  have "OnesCount8 b = card {k. k < 8 \<and> bit b k}"
    unfolding OnesCount8_def by (subst distinct_card [symmetric]) (auto intro!: arg_cong [of _ _ card])
  moreover have "card (membersOf (b # bs)) = card {k. k < 8 \<and> bit b k} + card ((\<lambda>i. i + 8) ` membersOf bs)"
    unfolding membersOf_Cons by (rule card_Un_disjoint) auto
  moreover have "card ((\<lambda>i. i + 8) ` membersOf bs) = card (membersOf bs)" by (rule card_image) (auto simp: inj_on_def)
  ultimately show ?case by (simp add: Cons.IH onesInBitmap_def)
qed

lemma padding_members: "\<not> HasPaddingBitsSet bitmap n \<longleftrightarrow> membersOf bitmap \<subseteq> {..<n}"
  by (auto simp: HasPaddingBitsSet_def membersOf_def list_ex_iff not_less [symmetric])

lemma bitmapBytes_bits: "n \<le> bitmapBytes n * 8" "i < n \<Longrightarrow> i div 8 < bitmapBytes n"
proof -
  show "n \<le> bitmapBytes n * 8" by (simp add: bitmapBytes_def) presburger
  then show "i < n \<Longrightarrow> i div 8 < bitmapBytes n" by (simp add: div_less_iff_less_mult)
qed

lemma length_setBit [simp]: "length (setBit i bitmap) = length bitmap"
  by (simp add: setBit_def)

lemma bitAt_setBit:
  assumes "i div 8 < length bitmap" "j div 8 < length bitmap"
  shows "bitAt (setBit i bitmap) j \<longleftrightarrow> j = i \<or> bitAt bitmap j"
proof (cases "j div 8 = i div 8")
  case True
  then have "j mod 8 = i mod 8 \<longleftrightarrow> j = i" by (metis div_mult_mod_eq)
  then show ?thesis using True assms by (auto simp: bitAt_bit setBit_def bit_simps)
next
  case False
  then show ?thesis by (auto simp: bitAt_bit setBit_def)
qed

section \<open>Certificates\<close>

text \<open>
  The contract of a check of certificates: a certificate is accepted for a list of members, and names the positions
  of those who signed it. Every accepted certificate is signed by members, and by more than half of them.
\<close>

locale certificate_check =
  fixes accepts :: "'k list \<Rightarrow> 'h \<Rightarrow> bool" and signers :: "'h \<Rightarrow> nat set"
  assumes signers_members: "accepts ks h \<Longrightarrow> signers h \<subseteq> {..<length ks}"
    and signers_majority: "accepts ks h \<Longrightarrow> 2 * card (signers h) > length ks"
begin

lemma signers_finite: "accepts ks h \<Longrightarrow> finite (signers h)"
  by (rule finite_subset [OF signers_members]) auto

lemma signers_overlap:
  assumes "accepts ks g" "accepts ks h"
  shows "card (signers g) + card (signers h) \<le> length ks + card (signers g \<inter> signers h)"
proof -
  have "card (signers g \<union> signers h) \<le> length ks"
    using card_mono [of "{..<length ks}" "signers g \<union> signers h"] signers_members [OF assms(1)] signers_members [OF assms(2)] by auto
  moreover have "card (signers g) + card (signers h) = card (signers g \<union> signers h) + card (signers g \<inter> signers h)"
    by (rule card_Un_Int [OF signers_finite [OF assms(1)] signers_finite [OF assms(2)]])
  ultimately show ?thesis by linarith
qed

lemma common_signer: "accepts ks g \<Longrightarrow> accepts ks h \<Longrightarrow> signers g \<inter> signers h \<noteq> {}"
  using signers_overlap [of ks g h] signers_majority [of ks g] signers_majority [of ks h] by fastforce

end

text \<open>A Byzantine check accepts only certificates signed by more than two thirds of the members.\<close>

locale bft_certificate_check = certificate_check +
  assumes signers_two_thirds: "accepts ks h \<Longrightarrow> 3 * card (signers h) > 2 * length ks"
begin

lemma third_in_common: "accepts ks g \<Longrightarrow> accepts ks h \<Longrightarrow> 3 * card (signers g \<inter> signers h) > length ks"
  using signers_overlap [of ks g h] signers_two_thirds [of ks g] signers_two_thirds [of ks h] by linarith

lemma common_correct_signer:
  assumes "accepts ks g" "accepts ks h" "3 * card F \<le> length ks" "finite F"
  shows "\<exists>i\<in>signers g \<inter> signers h. i \<notin> F"
proof (rule ccontr)
  assume "\<not> (\<exists>i\<in>signers g \<inter> signers h. i \<notin> F)"
  then have "card (signers g \<inter> signers h) \<le> card F" by (intro card_mono [OF assms(4)]) auto
  with third_in_common [OF assms(1,2)] assms(3) show False by linarith
qed

end

end
