(* ===== verification/MultiSig.thy ===== *)
theory MultiSig
  imports Bitmap
begin

text \<open>
  The multi-signer of \<open>crypto/signing/multisig\<close>: it collects the signature shares of a consensus group,
  aggregates the shares a bitmap selects and verifies an aggregated signature. The elliptic curve
  operations behind \<open>LowLevelSignerBLS\<close> and the key generator are calls of a C library and parameters of
  the model, in the record \<open>llSigner\<close>; a failing call of theirs is \<open>ErrSigner\<close>.
\<close>

datatype crypto_error =
  ErrNilPublicKeys | ErrNoPublicKeySet | ErrIndexOutOfBounds | ErrEmptyPubKeyString | ErrInvalidPublicKeyString
  | ErrIndexNotSelected | ErrNilSignature | ErrNilElement | ErrNilBitmap | ErrBitmapMismatch | ErrBitmapPaddingNotZero
  | ErrSigner

record ('pk, 'sk) llSigner =
  ll_SignShare :: "'sk \<Rightarrow> bytes \<Rightarrow> bytes option"
  ll_VerifySigShare :: "'pk \<Rightarrow> bytes \<Rightarrow> bytes \<Rightarrow> bool"
  ll_VerifySigBytes :: "bytes \<Rightarrow> bool"
  ll_AggregateSignatures :: "bytes option list \<Rightarrow> 'pk list \<Rightarrow> bytes option"
  ll_VerifyAggregatedSig :: "'pk list \<Rightarrow> bytes option \<Rightarrow> bytes \<Rightarrow> bool"
  kg_PublicKeyFromByteArray :: "bytes \<Rightarrow> 'pk option"

record ('pk, 'sk) blsMultiSigData =
  md_pubKeys :: "'pk list"
  md_privKey :: 'sk
  md_sigShares :: "bytes option list"
  md_aggSig :: "bytes option"
  md_ownIndex :: nat

text \<open>Go's conversion to \<open>uint16\<close>.\<close>

definition u16 :: "nat \<Rightarrow> nat" where
  "u16 n = n mod 65536"

fun convertStringsToPubKeys :: "('pk, 'sk) llSigner \<Rightarrow> bytes list \<Rightarrow> crypto_error + 'pk list" where
  "convertStringsToPubKeys ll [] = Inr []"
| "convertStringsToPubKeys ll (pubKeyStr # pubKeys) =
     (if pubKeyStr = [] then Inl ErrEmptyPubKeyString
      else case kg_PublicKeyFromByteArray ll pubKeyStr of
        None \<Rightarrow> Inl ErrInvalidPublicKeyString
      | Some pubKey \<Rightarrow> bindE (convertStringsToPubKeys ll pubKeys) (\<lambda>pk. Inr (pubKey # pk)))"

definition NewBLSMultisig :: "('pk, 'sk) llSigner \<Rightarrow> bytes list \<Rightarrow> 'sk \<Rightarrow> nat \<Rightarrow> crypto_error + ('pk, 'sk) blsMultiSigData" where
  "NewBLSMultisig ll pubKeys privKey ownIndex =
     (if length pubKeys = 0 then Inl ErrNoPublicKeySet
      else if ownIndex \<ge> u16 (length pubKeys) then Inl ErrIndexOutOfBounds
      else bindE (convertStringsToPubKeys ll pubKeys) (\<lambda>pk.
        Inr \<lparr>md_pubKeys = pk, md_privKey = privKey, md_sigShares = replicate (u16 (length pubKeys)) None, md_aggSig = None,
             md_ownIndex = ownIndex\<rparr>))"

text \<open>Resetting keeps the private key; the slice of public keys may be nil.\<close>

definition bms_Reset :: "('pk, 'sk) llSigner \<Rightarrow> bytes list option \<Rightarrow> nat \<Rightarrow> ('pk, 'sk) blsMultiSigData \<Rightarrow> crypto_error + ('pk, 'sk) blsMultiSigData" where
  "bms_Reset ll pubKeysOpt index bms =
     (case pubKeysOpt of
        None \<Rightarrow> Inl ErrNilPublicKeys
      | Some pubKeys \<Rightarrow>
        if index \<ge> u16 (length pubKeys) then Inl ErrIndexOutOfBounds
        else bindE (convertStringsToPubKeys ll pubKeys) (\<lambda>pk.
          Inr \<lparr>md_pubKeys = pk, md_privKey = md_privKey bms, md_sigShares = replicate (u16 (length pubKeys)) None, md_aggSig = None,
               md_ownIndex = index\<rparr>))"

definition bms_Create :: "('pk, 'sk) llSigner \<Rightarrow> bytes list \<Rightarrow> nat \<Rightarrow> ('pk, 'sk) blsMultiSigData \<Rightarrow> crypto_error + ('pk, 'sk) blsMultiSigData" where
  "bms_Create ll pubKeys index bms = NewBLSMultisig ll pubKeys (md_privKey bms) index"

definition CreateSignatureShare ::
  "('pk, 'sk) llSigner \<Rightarrow> bytes \<Rightarrow> ('pk, 'sk) blsMultiSigData \<Rightarrow> crypto_error + (('pk, 'sk) blsMultiSigData \<times> bytes)"
where
  "CreateSignatureShare ll message bms =
     (case ll_SignShare ll (md_privKey bms) message of
        None \<Rightarrow> Inl ErrSigner
      | Some sig \<Rightarrow> Inr (bms\<lparr>md_sigShares := (md_sigShares bms)[md_ownIndex bms := Some sig]\<rparr>, sig))"

definition isIndexInBitmap :: "nat \<Rightarrow> bytes \<Rightarrow> ('pk, 'sk) blsMultiSigData \<Rightarrow> crypto_error + unit" where
  "isIndexInBitmap index bitmap bms =
     (if index \<ge> u16 (length (md_pubKeys bms)) then Inl ErrIndexOutOfBounds
      else if \<not> bitAt bitmap index then Inl ErrIndexNotSelected
      else Inr ())"

definition VerifySignatureShare ::
  "('pk, 'sk) llSigner \<Rightarrow> nat \<Rightarrow> bytes option \<Rightarrow> bytes \<Rightarrow> ('pk, 'sk) blsMultiSigData \<Rightarrow> crypto_error + unit"
where
  "VerifySignatureShare ll index sigOpt message bms =
     (case sigOpt of
        None \<Rightarrow> Inl ErrNilSignature
      | Some sig \<Rightarrow>
        if index \<ge> u16 (length (md_pubKeys bms)) then Inl ErrIndexOutOfBounds
        else if ll_VerifySigShare ll (md_pubKeys bms ! index) message sig then Inr () else Inl ErrSigner)"

definition StoreSignatureShare ::
  "('pk, 'sk) llSigner \<Rightarrow> nat \<Rightarrow> bytes \<Rightarrow> ('pk, 'sk) blsMultiSigData \<Rightarrow> crypto_error + ('pk, 'sk) blsMultiSigData"
where
  "StoreSignatureShare ll index sig bms =
     (if \<not> ll_VerifySigBytes ll sig then Inl ErrSigner
      else if index \<ge> length (md_sigShares bms) then Inl ErrIndexOutOfBounds
      else Inr (bms\<lparr>md_sigShares := (md_sigShares bms)[index := Some sig]\<rparr>))"

definition SignatureShare :: "nat \<Rightarrow> ('pk, 'sk) blsMultiSigData \<Rightarrow> crypto_error + bytes" where
  "SignatureShare index bms =
     (if index \<ge> length (md_sigShares bms) then Inl ErrIndexOutOfBounds
      else case md_sigShares bms ! index of None \<Rightarrow> Inl ErrNilElement | Some sig \<Rightarrow> Inr sig)"

text \<open>The shares and the keys a bitmap selects, in the order of the group.\<close>

definition selectedShares :: "bytes \<Rightarrow> ('pk, 'sk) blsMultiSigData \<Rightarrow> (bytes option \<times> 'pk) list" where
  "selectedShares bitmap bms =
     map (\<lambda>i. (md_sigShares bms ! i, md_pubKeys bms ! i))
       (filter (\<lambda>i. isIndexInBitmap (u16 i) bitmap bms = Inr ()) [0..<length (md_sigShares bms)])"

definition AggregateSigs :: "('pk, 'sk) llSigner \<Rightarrow> bytes option \<Rightarrow> ('pk, 'sk) blsMultiSigData \<Rightarrow> crypto_error + bytes" where
  "AggregateSigs ll bitmapOpt bms =
     (case bitmapOpt of
        None \<Rightarrow> Inl ErrNilBitmap
      | Some bitmap \<Rightarrow>
        if length bitmap * 8 < length (md_pubKeys bms) then Inl ErrBitmapMismatch
        else if HasPaddingBitsSet bitmap (length (md_pubKeys bms)) then Inl ErrBitmapPaddingNotZero
        else
          let selected = selectedShares bitmap bms in
          case ll_AggregateSignatures ll (map fst selected) (map snd selected) of
            None \<Rightarrow> Inl ErrSigner
          | Some sig \<Rightarrow> Inr sig)"

definition SetAggregatedSig :: "('pk, 'sk) llSigner \<Rightarrow> bytes \<Rightarrow> ('pk, 'sk) blsMultiSigData \<Rightarrow> crypto_error + ('pk, 'sk) blsMultiSigData" where
  "SetAggregatedSig ll aggSig bms =
     (if \<not> ll_VerifySigBytes ll aggSig then Inl ErrSigner else Inr (bms\<lparr>md_aggSig := Some aggSig\<rparr>))"

definition selectedKeys :: "bytes \<Rightarrow> ('pk, 'sk) blsMultiSigData \<Rightarrow> 'pk list" where
  "selectedKeys bitmap bms =
     map (\<lambda>i. md_pubKeys bms ! i) (filter (\<lambda>i. isIndexInBitmap (u16 i) bitmap bms = Inr ()) [0..<length (md_pubKeys bms)])"

definition bms_Verify :: "('pk, 'sk) llSigner \<Rightarrow> bytes \<Rightarrow> bytes option \<Rightarrow> ('pk, 'sk) blsMultiSigData \<Rightarrow> crypto_error + unit" where
  "bms_Verify ll message bitmapOpt bms =
     (case bitmapOpt of
        None \<Rightarrow> Inl ErrNilBitmap
      | Some bitmap \<Rightarrow>
        if length bitmap * 8 < length (md_pubKeys bms) then Inl ErrBitmapMismatch
        else if HasPaddingBitsSet bitmap (length (md_pubKeys bms)) then Inl ErrBitmapPaddingNotZero
        else if ll_VerifyAggregatedSig ll (selectedKeys bitmap bms) (md_aggSig bms) message then Inr () else Inl ErrSigner)"

section \<open>What the low-level signer promises\<close>

text \<open>
  Completeness: shares that verify one by one aggregate to a well-formed signature that verifies for their
  keys. Soundness: a certificate, a list of keys with a signature and the message it is for, that somebody has put
  together and that verifies is made of a share of each of its keys. It speaks of the certificates \<open>known\<close> to exist and not of
  all byte strings: every message has a signature that verifies, the scheme only makes it infeasible to find.
\<close>

definition ll_complete :: "('pk, 'sk) llSigner \<Rightarrow> bool" where
  "ll_complete ll \<longleftrightarrow> (\<forall>sigs pks m. length sigs = length pks \<longrightarrow> pks \<noteq> [] \<longrightarrow>
     list_all2 (\<lambda>sig pk. ll_VerifySigShare ll pk m sig) sigs pks \<longrightarrow>
     (\<exists>agg. ll_AggregateSignatures ll (map Some sigs) pks = Some agg \<and> agg \<noteq> [] \<and> ll_VerifySigBytes ll agg \<and>
        ll_VerifyAggregatedSig ll pks (Some agg) m))"

type_synonym 'pk certificate = "'pk list \<times> bytes \<times> bytes option"

definition ll_sound :: "('pk, 'sk) llSigner \<Rightarrow> 'pk certificate set \<Rightarrow> ('pk \<Rightarrow> bytes \<Rightarrow> bool) \<Rightarrow> bool" where
  "ll_sound ll known hasSigned \<longleftrightarrow>
     (\<forall>pks agg m. (pks, agg, Some m) \<in> known \<longrightarrow> ll_VerifyAggregatedSig ll pks (Some agg) m \<longrightarrow> (\<forall>pk\<in>set pks. hasSigned pk m))"

section \<open>Selection\<close>

lemma convertStringsToPubKeys_length: "convertStringsToPubKeys ll pubKeys = Inr pk \<Longrightarrow> length pk = length pubKeys"
  by (induction pubKeys arbitrary: pk) (auto split: if_splits option.splits sum.splits simp: bindE_Inr_iff)

lemma convertStringsToPubKeys_nth:
  "convertStringsToPubKeys ll pubKeys = Inr pk \<Longrightarrow> i < length pubKeys \<Longrightarrow> kg_PublicKeyFromByteArray ll (pubKeys ! i) = Some (pk ! i)"
  by (induction pubKeys arbitrary: pk i) (auto split: if_splits option.splits simp: bindE_Inr_iff nth_Cons')

text \<open>For a group below the range of \<open>uint16\<close> the selected keys are those of the members the bitmap names.\<close>

lemma selected_index:
  assumes "length (md_pubKeys bms) < 65536"
  shows "filter (\<lambda>i. isIndexInBitmap (u16 i) bitmap bms = Inr ()) [0..<length (md_pubKeys bms)] = filter (bitAt bitmap) [0..<length (md_pubKeys bms)]"
  by (rule filter_cong) (use assms in \<open>auto simp: isIndexInBitmap_def u16_def\<close>)

lemma selectedKeys_eq:
  assumes "length (md_pubKeys bms) < 65536"
  shows "selectedKeys bitmap bms = map (\<lambda>i. md_pubKeys bms ! i) (filter (bitAt bitmap) [0..<length (md_pubKeys bms)])"
  by (simp add: selectedKeys_def selected_index [OF assms])

lemma selectedShares_eq:
  assumes "length (md_pubKeys bms) < 65536" "length (md_sigShares bms) = length (md_pubKeys bms)"
  shows "selectedShares bitmap bms =
    map (\<lambda>i. (md_sigShares bms ! i, md_pubKeys bms ! i)) (filter (bitAt bitmap) [0..<length (md_pubKeys bms)])"
  by (simp add: selectedShares_def assms(2) selected_index [OF assms(1)])

end
