(* ===== verification/BlockData.thy ===== *)
theory BlockData
  imports GoPrelude
begin

text \<open>
  Blocks (\<open>data/block\<close>): the structures of \<open>block.proto\<close>, the accessors of \<open>block.go\<close> and the Merkle tree
  over the transaction hashes whose root the header carries. The hash function and the protobuf codec are
  parameters. The theorem about the tree says that a root determines the transaction hashes of a block of
  a given size, unless two of the strings hashed on the way collide.
\<close>

section \<open>Structures\<close>

record BlockHeader =
  bh_Nonce :: int
  bh_ParentHash :: bytes
  bh_Timestamp :: int
  bh_Slot :: int
  bh_Epoch :: int
  bh_IsEpochStart :: bool
  bh_PrevEpochStartSlot :: int
  bh_TxRootHash :: "bytes option"
  bh_TrieRoot :: bytes
  bh_ValidatorsTrieRoot :: bytes
  bh_KAppsTrieRoot :: bytes
  bh_PrevRandSeed :: bytes
  bh_RandSeed :: bytes
  bh_TxCount :: int
  bh_TxFees :: int
  bh_TxBurnedFees :: int
  bh_KAppFees :: int
  bh_BlockRewards :: int
  bh_StakingRewards :: int
  bh_SoftwareVersion :: bytes
  bh_ChainID :: bytes
  bh_BurnedUnclaimed :: int
  bh_Reserved :: bytes

record Block =
  bl_Header :: "BlockHeader option"
  bl_TxHashes :: "bytes list"
  bl_ProducerSignature :: bytes
  bl_PubKeysBitmap :: bytes
  bl_Signature :: bytes
  bl_TxResults :: "int list"

text \<open>A nil slice has the contents of an empty one.\<close>

definition bytesOf :: "bytes option \<Rightarrow> bytes" where
  "bytesOf b = (case b of Some x \<Rightarrow> x | None \<Rightarrow> [])"

section \<open>Accessors\<close>

text \<open>A getter reads the inner header and yields the zero value when there is none.\<close>

definition headerField :: "(BlockHeader \<Rightarrow> 'a) \<Rightarrow> 'a \<Rightarrow> Block \<Rightarrow> 'a" where
  "headerField f zero b = (case bl_Header b of Some h \<Rightarrow> f h | None \<Rightarrow> zero)"

definition GetNonce :: "Block \<Rightarrow> int" where "GetNonce = headerField bh_Nonce 0"
definition GetParentHash :: "Block \<Rightarrow> bytes" where "GetParentHash = headerField bh_ParentHash []"
definition GetTimestamp :: "Block \<Rightarrow> int" where "GetTimestamp = headerField bh_Timestamp 0"
definition GetSlot :: "Block \<Rightarrow> int" where "GetSlot = headerField bh_Slot 0"
definition GetEpoch :: "Block \<Rightarrow> int" where "GetEpoch = headerField bh_Epoch 0"
definition GetIsEpochStart :: "Block \<Rightarrow> bool" where "GetIsEpochStart = headerField bh_IsEpochStart False"
definition GetTxRootHash :: "Block \<Rightarrow> bytes option" where "GetTxRootHash = headerField bh_TxRootHash None"
definition GetPrevRandSeed :: "Block \<Rightarrow> bytes" where "GetPrevRandSeed = headerField bh_PrevRandSeed []"
definition GetRandSeed :: "Block \<Rightarrow> bytes" where "GetRandSeed = headerField bh_RandSeed []"
definition GetTxCount :: "Block \<Rightarrow> int" where "GetTxCount = headerField bh_TxCount 0"
definition GetSoftwareVersion :: "Block \<Rightarrow> bytes" where "GetSoftwareVersion = headerField bh_SoftwareVersion []"
definition GetChainID :: "Block \<Rightarrow> bytes" where "GetChainID = headerField bh_ChainID []"
definition GetReserved :: "Block \<Rightarrow> bytes" where "GetReserved = headerField bh_Reserved []"

lemmas block_getters =
  GetNonce_def GetParentHash_def GetTimestamp_def GetSlot_def GetEpoch_def GetIsEpochStart_def GetTxRootHash_def GetPrevRandSeed_def
  GetRandSeed_def GetTxCount_def GetSoftwareVersion_def GetChainID_def GetReserved_def headerField_def

text \<open>The setters of the inner header dereference it: with no header they panic, which is \<open>None\<close>.\<close>

definition setHeader :: "(BlockHeader \<Rightarrow> BlockHeader) \<Rightarrow> Block \<Rightarrow> Block option" where
  "setHeader f b = map_option (\<lambda>h. b\<lparr>bl_Header := Some (f h)\<rparr>) (bl_Header b)"

definition SetParentHash :: "bytes \<Rightarrow> Block \<Rightarrow> Block option" where
  "SetParentHash parentHash = setHeader (\<lambda>h. h\<lparr>bh_ParentHash := parentHash\<rparr>)"

definition SetTimestamp :: "int \<Rightarrow> Block \<Rightarrow> Block option" where
  "SetTimestamp timestamp = setHeader (\<lambda>h. h\<lparr>bh_Timestamp := timestamp\<rparr>)"

definition SetPrevRandSeed :: "bytes \<Rightarrow> Block \<Rightarrow> Block option" where
  "SetPrevRandSeed prevRandSeed = setHeader (\<lambda>h. h\<lparr>bh_PrevRandSeed := prevRandSeed\<rparr>)"

definition SetRandSeed :: "bytes \<Rightarrow> Block \<Rightarrow> Block option" where
  "SetRandSeed randSeed = setHeader (\<lambda>h. h\<lparr>bh_RandSeed := randSeed\<rparr>)"

definition SetChainID :: "bytes \<Rightarrow> Block \<Rightarrow> Block option" where
  "SetChainID chainID = setHeader (\<lambda>h. h\<lparr>bh_ChainID := chainID\<rparr>)"

definition SetPubKeysBitmap :: "bytes \<Rightarrow> Block \<Rightarrow> Block" where
  "SetPubKeysBitmap signature b = b\<lparr>bl_PubKeysBitmap := signature\<rparr>"

definition SetProducerSignature :: "bytes \<Rightarrow> Block \<Rightarrow> Block" where
  "SetProducerSignature signature b = b\<lparr>bl_ProducerSignature := signature\<rparr>"

definition SetSignature :: "bytes \<Rightarrow> Block \<Rightarrow> Block" where
  "SetSignature signature b = b\<lparr>bl_Signature := signature\<rparr>"

lemmas block_setters = SetPubKeysBitmap_def SetProducerSignature_def SetSignature_def

text \<open>\<open>tools.CalculateHash\<close> over the inner header, which the codec may refuse to encode.\<close>

definition CalculateHash :: "('a \<Rightarrow> bytes option) \<Rightarrow> (bytes \<Rightarrow> bytes) \<Rightarrow> 'a \<Rightarrow> bytes option" where
  "CalculateHash marshal hasher obj = map_option hasher (marshal obj)"

section \<open>The Merkle tree of the transaction hashes\<close>

type_synonym merkle_node = "bytes \<times> bytes"

definition node_Hash :: "(bytes \<Rightarrow> bytes) \<Rightarrow> merkle_node \<Rightarrow> bytes" where
  "node_Hash hasher n = hasher (fst n @ snd n)"

text \<open>Neighbours are paired, a last one without neighbour with itself.\<close>

fun pairUp :: "'a list \<Rightarrow> ('a \<times> 'a) list" where
  "pairUp [] = []"
| "pairUp [x] = [(x, x)]"
| "pairUp (x # y # xs) = (x, y) # pairUp xs"

lemma length_pairUp: "length (pairUp xs) = (length xs + 1) div 2"
  by (induction xs rule: pairUp.induct) auto

lemma length_pairUp_less: "length xs \<noteq> 0 \<Longrightarrow> length xs \<noteq> Suc 0 \<Longrightarrow> length (pairUp xs) < length xs"
  unfolding length_pairUp by presburger

function GetRootHash :: "(bytes \<Rightarrow> bytes) \<Rightarrow> bytes \<Rightarrow> merkle_node list \<Rightarrow> bytes" where
  "GetRootHash hasher emptyHash nodes =
     (if length nodes = 0 then emptyHash
      else if length nodes = 1 then node_Hash hasher (nodes ! 0)
      else if length nodes = 2 then node_Hash hasher (node_Hash hasher (nodes ! 0), node_Hash hasher (nodes ! 1))
      else GetRootHash hasher emptyHash (pairUp (map (node_Hash hasher) nodes)))"
  by auto
termination by (relation "measure (\<lambda>(h, e, nodes). length nodes)") (auto intro!: less_le_trans [OF length_pairUp_less])

declare GetRootHash.simps [simp del]

datatype block_error =
  ErrNilHasher | ErrNilBlockHeader | ErrInvalidTXCount | ErrInvalidTXResultsCount | ErrTxRootHashInvalidForEmptyBlock
  | ErrInvalidTxHashLength | ErrTxRootHashDoesNotMatch

text \<open>A hasher: \<open>Compute\<close>, \<open>EmptyHash\<close> and \<open>Size\<close>.\<close>

record Hasher =
  ha_Compute :: "bytes \<Rightarrow> bytes"
  ha_EmptyHash :: bytes
  ha_Size :: nat

definition ComputeRootHash :: "Hasher option \<Rightarrow> Block \<Rightarrow> block_error + bytes" where
  "ComputeRootHash hasherOpt b =
     (case hasherOpt of
        None \<Rightarrow> Inl ErrNilHasher
      | Some hasher \<Rightarrow> Inr (GetRootHash (ha_Compute hasher) (ha_EmptyHash hasher) (pairUp (bl_TxHashes b))))"

definition UpdateTxRootHash :: "Hasher option \<Rightarrow> Block \<Rightarrow> block_error + Block option" where
  "UpdateTxRootHash hasherOpt b =
     bindE (ComputeRootHash hasherOpt b) (\<lambda>rootHash. Inr (setHeader (\<lambda>h. h\<lparr>bh_TxRootHash := Some rootHash\<rparr>) b))"

section \<open>The body against the signed header\<close>

text \<open>\<open>process.CheckBlockBodyMatchesHeader\<close>; the fork controller is the predicate that tells the epochs with the fix.\<close>

definition CheckTxHashesLength :: "bytes list \<Rightarrow> nat \<Rightarrow> block_error + unit" where
  "CheckTxHashesLength txHashes hashSize = errIf (list_ex (\<lambda>txHash. length txHash \<noteq> hashSize) txHashes) ErrInvalidTxHashLength"

definition checkEmptyBlockTxRootHash :: "bytes option \<Rightarrow> Hasher \<Rightarrow> block_error + unit" where
  "checkEmptyBlockTxRootHash txRootHash hasher =
     (if txRootHash = None \<or> bytesOf txRootHash = ha_EmptyHash hasher then Inr () else Inl ErrTxRootHashInvalidForEmptyBlock)"

definition CheckBlockBodyMatchesHeader :: "(int \<Rightarrow> bool) \<Rightarrow> Hasher \<Rightarrow> Block option \<Rightarrow> block_error + unit" where
  "CheckBlockBodyMatchesHeader FixAuditChangesV5InEpoch hasher blockOpt =
     (case blockOpt of
        None \<Rightarrow> Inl ErrNilBlockHeader
      | Some header \<Rightarrow>
        let txHashes = bl_TxHashes header in
        if GetTxCount header \<noteq> int (length txHashes) then Inl ErrInvalidTXCount
        else if FixAuditChangesV5InEpoch (GetEpoch header) \<and> length (bl_TxResults header) \<noteq> length txHashes
        then Inl ErrInvalidTXResultsCount
        else if length txHashes = 0 then checkEmptyBlockTxRootHash (GetTxRootHash header) hasher
        else bindE (CheckTxHashesLength txHashes (ha_Size hasher)) (\<lambda>_.
          bindE (ComputeRootHash (Some hasher) header) (\<lambda>txRootHash.
            errIf (bytesOf (GetTxRootHash header) \<noteq> txRootHash) ErrTxRootHashDoesNotMatch)))"

section \<open>A root determines the transactions\<close>

text \<open>The strings hashed while a root is computed.\<close>

function hashedStrings :: "(bytes \<Rightarrow> bytes) \<Rightarrow> merkle_node list \<Rightarrow> bytes set" where
  "hashedStrings hasher nodes =
     (let here = (\<lambda>n. fst n @ snd n) ` set nodes in
      if length nodes \<le> 1 then here
      else here \<union> hashedStrings hasher (pairUp (map (node_Hash hasher) nodes)))"
  by auto
termination by (relation "measure (\<lambda>(h, nodes). length nodes)") (auto intro!: less_le_trans [OF length_pairUp_less])

declare hashedStrings.simps [simp del]

lemma GetRootHash_step:
  "length nodes \<ge> 2 \<Longrightarrow> GetRootHash hasher e nodes = GetRootHash hasher e (pairUp (map (node_Hash hasher) nodes))"
proof (cases "length nodes = 2")
  case True
  then obtain a b where "nodes = [a, b]" by (auto simp: length_Suc_conv numeral_2_eq_2)
  then show ?thesis by (simp add: GetRootHash.simps)
next
  case False
  assume "length nodes \<ge> 2"
  then have "length nodes \<noteq> 0" "length nodes \<noteq> 1" by linarith+
  with False show ?thesis by (subst GetRootHash.simps) (simp only: if_False simp_thms)
qed

lemma pairUp_inj: "pairUp xs = pairUp ys \<Longrightarrow> length xs = length ys \<Longrightarrow> xs = ys"
  by (induction xs arbitrary: ys rule: pairUp.induct) (case_tac ys rule: pairUp.cases; auto)+

lemma set_pairUp: "(x, y) \<in> set (pairUp xs) \<Longrightarrow> x \<in> set xs \<and> y \<in> set xs"
  by (induction xs rule: pairUp.induct) auto

lemma node_Hash_inj:
  assumes "map (node_Hash hasher) ns = map (node_Hash hasher) ms"
    and "inj_on hasher ((\<lambda>n. fst n @ snd n) ` set ns \<union> (\<lambda>n. fst n @ snd n) ` set ms)"
    and "\<forall>n\<in>set ns \<union> set ms. length (fst n) = k"
  shows "ns = ms"
  using assms
proof (induction ns arbitrary: ms)
  case (Cons n ns)
  from Cons.prems(1) obtain m ms' where ms: "ms = m # ms'" by auto
  have "hasher (fst n @ snd n) = hasher (fst m @ snd m)" using Cons.prems(1) ms by (simp add: node_Hash_def)
  then have "fst n @ snd n = fst m @ snd m" by (rule inj_onD [OF Cons.prems(2)]) (use ms in auto)
  then have "n = m" using Cons.prems(3) ms by (auto intro: prod_eqI)
  moreover have "ns = ms'"
    by (rule Cons.IH) (use Cons.prems ms in \<open>auto intro: inj_on_subset\<close>)
  ultimately show ?case using ms by simp
qed simp

lemma root_determines_nodes:
  assumes "\<forall>x. length (hasher x) = k" "length ns = length ms"
    and "\<forall>n\<in>set ns \<union> set ms. length (fst n) = k"
    and "inj_on hasher (hashedStrings hasher ns \<union> hashedStrings hasher ms)"
    and "GetRootHash hasher e ns = GetRootHash hasher e ms"
  shows "ns = ms"
  using assms(2-5)
proof (induction "length ns" arbitrary: ns ms rule: less_induct)
  case less
  let ?here = "\<lambda>l. (\<lambda>n. fst n @ snd n) ` set l"
  have here: "?here l \<subseteq> hashedStrings hasher l" for l by (subst hashedStrings.simps) (auto simp: Let_def)
  have inj: "inj_on hasher (?here ns \<union> ?here ms)"
    by (rule inj_on_subset [OF less.prems(3)]) (use here [of ns] here [of ms] in blast)
  have "map (node_Hash hasher) ns = map (node_Hash hasher) ms"
  proof (cases "length ns \<ge> 2")
    case True
    let ?up = "\<lambda>l. pairUp (map (node_Hash hasher) l)"
    have up: "hashedStrings hasher (?up l) \<subseteq> hashedStrings hasher l" if "length l \<ge> 2" for l
      using that by (subst (2) hashedStrings.simps) (auto simp: Let_def)
    have "?up ns = ?up ms"
    proof (rule less.hyps)
      show "\<forall>n\<in>set (?up ns) \<union> set (?up ms). length (fst n) = k"
        using assms(1) set_pairUp by (force simp: node_Hash_def)
      show "inj_on hasher (hashedStrings hasher (?up ns) \<union> hashedStrings hasher (?up ms))"
        by (rule inj_on_subset [OF less.prems(3)]) (use up [of ns] up [of ms] True less.prems(1) in auto)
      show "GetRootHash hasher e (?up ns) = GetRootHash hasher e (?up ms)"
        using less.prems(4) GetRootHash_step [of ns] GetRootHash_step [of ms] True less.prems(1) by simp
      show "length (?up ns) < length ns" using length_pairUp_less [of "map (node_Hash hasher) ns"] True by force
    qed (simp add: less.prems(1) length_pairUp)
    then show ?thesis by (rule pairUp_inj) (simp add: less.prems(1))
  next
    case False
    then consider "ns = [] \<and> ms = []" | n m where "ns = [n]" "ms = [m]"
      using less.prems(1) by (cases ns; cases ms) (auto simp: Suc_le_eq)
    then show ?thesis using less.prems(4) by cases (auto simp: GetRootHash.simps)
  qed
  then show ?case by (rule node_Hash_inj [OF _ inj less.prems(2)])
qed

lemma body_matches_imp:
  assumes "CheckBlockBodyMatchesHeader v5 hasher (Some b) = Inr ()"
  shows "GetTxCount b = int (length (bl_TxHashes b))"
    and "bl_TxHashes b \<noteq> [] \<Longrightarrow> \<forall>t\<in>set (bl_TxHashes b). length t = ha_Size hasher"
    and "bl_TxHashes b \<noteq> [] \<Longrightarrow> bytesOf (GetTxRootHash b) = GetRootHash (ha_Compute hasher) (ha_EmptyHash hasher) (pairUp (bl_TxHashes b))"
  using assms
  by (auto simp: CheckBlockBodyMatchesHeader_def Let_def CheckTxHashesLength_def ComputeRootHash_def errIf_def list_ex_iff
      split: if_splits)

text \<open>
  C8: a signed header determines the transaction list of its block. Two blocks with the same inner header, the part
  the validators sign, that both pass the check of the body list the same transaction hashes in the same order,
  provided no two different strings hashed for their Merkle roots collide. The inner header carries the number of
  transactions, without which a list and the list with its last element repeated would share a root.
\<close>

theorem header_determines_body:
  assumes "bl_Header b = bl_Header c"
    and "CheckBlockBodyMatchesHeader v5 hasher (Some b) = Inr ()" "CheckBlockBodyMatchesHeader v5 hasher (Some c) = Inr ()"
    and "\<forall>x. length (ha_Compute hasher x) = ha_Size hasher"
    and "inj_on (ha_Compute hasher)
      (hashedStrings (ha_Compute hasher) (pairUp (bl_TxHashes b)) \<union> hashedStrings (ha_Compute hasher) (pairUp (bl_TxHashes c)))"
  shows "bl_TxHashes b = bl_TxHashes c"
proof (cases "bl_TxHashes b = []")
  have len: "length (bl_TxHashes b) = length (bl_TxHashes c)"
    using body_matches_imp(1) [OF assms(2)] body_matches_imp(1) [OF assms(3)] assms(1) by (simp add: block_getters)
  case True
  then show ?thesis using len by simp
next
  case False
  have len: "length (bl_TxHashes b) = length (bl_TxHashes c)"
    using body_matches_imp(1) [OF assms(2)] body_matches_imp(1) [OF assms(3)] assms(1) by (simp add: block_getters)
  with False have c: "bl_TxHashes c \<noteq> []" by auto
  note b = body_matches_imp(2,3) [OF assms(2) False] and c = body_matches_imp(2,3) [OF assms(3) c]
  have eq: "GetRootHash (ha_Compute hasher) (ha_EmptyHash hasher) (pairUp (bl_TxHashes b)) =
    GetRootHash (ha_Compute hasher) (ha_EmptyHash hasher) (pairUp (bl_TxHashes c))"
    using b(2) c(2) assms(1) by (simp add: block_getters)
  have "pairUp (bl_TxHashes b) = pairUp (bl_TxHashes c)"
  proof (rule root_determines_nodes [OF assms(4) _ _ assms(5) eq])
    show "\<forall>n\<in>set (pairUp (bl_TxHashes b)) \<union> set (pairUp (bl_TxHashes c)). length (fst n) = ha_Size hasher"
      using b(1) c(1) set_pairUp by fastforce
  qed (simp add: length_pairUp len)
  then show ?thesis by (rule pairUp_inj) (rule len)
qed

text \<open>A hash of one byte that tells apart the strings of two blocks of one and the same transaction.\<close>

definition demo_hasher :: Hasher where
  "demo_hasher = \<lparr>ha_Compute = (\<lambda>x. [sum_list x]), ha_EmptyHash = [0], ha_Size = 1\<rparr>"

definition demo_block :: Block where
  "demo_block = \<lparr>bl_Header = Some \<lparr>bh_Nonce = 1, bh_ParentHash = [], bh_Timestamp = 0, bh_Slot = 1, bh_Epoch = 0,
       bh_IsEpochStart = False, bh_PrevEpochStartSlot = 0, bh_TxRootHash = Some [14], bh_TrieRoot = [],
       bh_ValidatorsTrieRoot = [], bh_KAppsTrieRoot = [], bh_PrevRandSeed = [], bh_RandSeed = [], bh_TxCount = 3, bh_TxFees = 0,
       bh_TxBurnedFees = 0, bh_KAppFees = 0, bh_BlockRewards = 0, bh_StakingRewards = 0, bh_SoftwareVersion = [],
       bh_ChainID = [], bh_BurnedUnclaimed = 0, bh_Reserved = []\<rparr>,
     bl_TxHashes = [[1], [3], [5]], bl_ProducerSignature = [], bl_PubKeysBitmap = [], bl_Signature = [], bl_TxResults = [0, 0, 0]\<rparr>"

theorem header_determines_body_witness:
  "bl_TxHashes demo_block = bl_TxHashes (demo_block\<lparr>bl_Signature := [7]\<rparr>) \<and> length (bl_TxHashes demo_block) = 3"
proof -
  have 1: "CheckBlockBodyMatchesHeader (\<lambda>_. True) demo_hasher (Some demo_block) = Inr ()" by code_simp
  have 2: "CheckBlockBodyMatchesHeader (\<lambda>_. True) demo_hasher (Some (demo_block\<lparr>bl_Signature := [7]\<rparr>)) = Inr ()" by code_simp
  have 3: "hashedStrings (ha_Compute demo_hasher) (pairUp (bl_TxHashes demo_block)) = {[1, 3], [5, 5], [4, 10]}"
    by (simp add: hashedStrings.simps demo_hasher_def demo_block_def node_Hash_def insert_commute)
  have "bl_TxHashes demo_block = bl_TxHashes (demo_block\<lparr>bl_Signature := [7]\<rparr>)"
  proof (rule header_determines_body [OF _ 1 2])
    have "inj_on (ha_Compute demo_hasher) {[1, 3], [5, 5], [4, 10]}" by (simp add: demo_hasher_def)
    then show "inj_on (ha_Compute demo_hasher) (hashedStrings (ha_Compute demo_hasher) (pairUp (bl_TxHashes demo_block)) \<union>
        hashedStrings (ha_Compute demo_hasher) (pairUp (bl_TxHashes (demo_block\<lparr>bl_Signature := [7]\<rparr>))))"
      by (simp add: 3)
  qed (simp_all add: demo_hasher_def)
  then show ?thesis by (simp add: demo_block_def)
qed

text \<open>Without the bound on the number a block whose last hash is repeated has the same root.\<close>

lemma merkle_root_repeated:
  "ComputeRootHash h (b\<lparr>bl_TxHashes := [t1, t2, t3]\<rparr>) = ComputeRootHash h (b\<lparr>bl_TxHashes := [t1, t2, t3, t3]\<rparr>)"
  by (simp add: ComputeRootHash_def split: option.split)

end
