(* ===== verification/SlotConsensus.thy ===== *)
theory SlotConsensus
  imports Bitmap BlockData
begin

text \<open>
  The shared state of a consensus slot (\<open>core/consensus/slot\<close>): which member of the consensus group has done
  its job in which subslot (\<open>slotState.go\<close>, \<open>slotConsensus.go\<close>), which subslots are finished (\<open>slotStatus.go\<close>), how
  many jobs a subslot needs (\<open>slotThreshold.go\<close>) and the record that holds it all (\<open>consensusState.go\<close>). Go's maps
  are HOL maps; an absent key reads as the zero value of its type. A method that takes a lock is one step.
\<close>

section \<open>Jobs of one member\<close>

type_synonym slotState = "nat \<rightharpoonup> bool"

definition NewSlotState :: slotState where
  "NewSlotState = Map.empty"

definition state_JobDone :: "nat \<Rightarrow> slotState \<Rightarrow> bool" where
  "state_JobDone subslotId rstate \<longleftrightarrow> rstate subslotId = Some True"

definition state_SetJobDone :: "nat \<Rightarrow> bool \<Rightarrow> slotState \<Rightarrow> slotState" where
  "state_SetJobDone subslotId v rstate = rstate(subslotId \<mapsto> v)"

definition ResetJobsDone :: "slotState \<Rightarrow> slotState" where
  "ResetJobsDone rstate = (\<lambda>k. map_option (\<lambda>_. False) (rstate k))"

section \<open>Status and thresholds of the subslots\<close>

datatype SubslotStatus = SsNotFinished | SsFinished

type_synonym slotStatus = "nat \<rightharpoonup> SubslotStatus"

definition NewSlotStatus :: slotStatus where
  "NewSlotStatus = Map.empty"

definition status_Status :: "nat \<Rightarrow> slotStatus \<Rightarrow> SubslotStatus" where
  "status_Status subslotId rstatus = (case rstatus subslotId of Some s \<Rightarrow> s | None \<Rightarrow> SsNotFinished)"

definition status_SetStatus :: "nat \<Rightarrow> SubslotStatus \<Rightarrow> slotStatus \<Rightarrow> slotStatus" where
  "status_SetStatus subslotId subslotStatus rstatus = rstatus(subslotId \<mapsto> subslotStatus)"

definition ResetSlotStatus :: "slotStatus \<Rightarrow> slotStatus" where
  "ResetSlotStatus rstatus = (\<lambda>k. map_option (\<lambda>_. SsNotFinished) (rstatus k))"

record slotThreshold =
  th_threshold :: "nat \<rightharpoonup> nat"
  th_fallbackThreshold :: "nat \<rightharpoonup> nat"

definition NewSlotThreshold :: slotThreshold where
  "NewSlotThreshold = \<lparr>th_threshold = Map.empty, th_fallbackThreshold = Map.empty\<rparr>"

definition Threshold :: "nat \<Rightarrow> slotThreshold \<Rightarrow> nat" where
  "Threshold subslotId rthr = (case th_threshold rthr subslotId of Some t \<Rightarrow> t | None \<Rightarrow> 0)"

definition SetThreshold :: "nat \<Rightarrow> nat \<Rightarrow> slotThreshold \<Rightarrow> slotThreshold" where
  "SetThreshold subslotId threshold rthr = rthr\<lparr>th_threshold := (th_threshold rthr)(subslotId \<mapsto> threshold)\<rparr>"

definition FallbackThreshold :: "nat \<Rightarrow> slotThreshold \<Rightarrow> nat" where
  "FallbackThreshold subslotId rthr = (case th_fallbackThreshold rthr subslotId of Some t \<Rightarrow> t | None \<Rightarrow> 0)"

definition SetFallbackThreshold :: "nat \<Rightarrow> nat \<Rightarrow> slotThreshold \<Rightarrow> slotThreshold" where
  "SetFallbackThreshold subslotId threshold rthr =
     rthr\<lparr>th_fallbackThreshold := (th_fallbackThreshold rthr)(subslotId \<mapsto> threshold)\<rparr>"

definition GetPBFTThreshold :: "nat \<Rightarrow> nat" where
  "GetPBFTThreshold consensusSize = consensusSize * 2 div 3 + 1"

definition GetPBFTFallbackThreshold :: "nat \<Rightarrow> nat" where
  "GetPBFTFallbackThreshold consensusSize = consensusSize * 1 div 2 + 1"

section \<open>The consensus group\<close>

datatype slot_error = ErrNotFoundInConsensus | ErrInvalidKey | ErrNilConsensusGroup | ErrEmptyConsensusGroup

text \<open>The group is nil until the first slot; a public key is a byte string.\<close>

record slotConsensus =
  rc_electedNodes :: "bytes set"
  rc_consensusGroup :: "bytes list option"
  rc_consensusGroupSize :: nat
  rc_selfPubKey :: bytes
  rc_validatorSlotStates :: "bytes \<rightharpoonup> slotState"

definition NewSlotConsensus :: "bytes set \<Rightarrow> nat \<Rightarrow> bytes \<Rightarrow> slotConsensus" where
  "NewSlotConsensus electedNodes consensusGroupSize selfId =
     \<lparr>rc_electedNodes = electedNodes, rc_consensusGroup = None, rc_consensusGroupSize = consensusGroupSize,
      rc_selfPubKey = selfId, rc_validatorSlotStates = Map.empty\<rparr>"

text \<open>Ranging over the group: a nil slice has no elements.\<close>

definition groupOf :: "slotConsensus \<Rightarrow> bytes list" where
  "groupOf rcns = (case rc_consensusGroup rcns of Some g \<Rightarrow> g | None \<Rightarrow> [])"

fun indexOf :: "bytes \<Rightarrow> bytes list \<Rightarrow> nat option" where
  "indexOf pubKey [] = None"
| "indexOf pubKey (pk # pks) = (if pk = pubKey then Some 0 else map_option Suc (indexOf pubKey pks))"

definition ConsensusGroupIndex :: "bytes \<Rightarrow> slotConsensus \<Rightarrow> slot_error + nat" where
  "ConsensusGroupIndex pubKey rcns =
     (case indexOf pubKey (groupOf rcns) of Some i \<Rightarrow> Inr i | None \<Rightarrow> Inl ErrNotFoundInConsensus)"

definition SelfConsensusGroupIndex :: "slotConsensus \<Rightarrow> slot_error + nat" where
  "SelfConsensusGroupIndex rcns = ConsensusGroupIndex (rc_selfPubKey rcns) rcns"

definition SetConsensusGroup :: "bytes list \<Rightarrow> slotConsensus \<Rightarrow> slotConsensus" where
  "SetConsensusGroup consensusGroup rcns =
     rcns\<lparr>rc_electedNodes := set consensusGroup, rc_consensusGroup := Some consensusGroup,
          rc_validatorSlotStates := map_of (map (\<lambda>pk. (pk, NewSlotState)) consensusGroup)\<rparr>"

definition JobDone :: "bytes \<Rightarrow> nat \<Rightarrow> slotConsensus \<Rightarrow> slot_error + bool" where
  "JobDone key subslotId rcns =
     (case rc_validatorSlotStates rcns key of
        None \<Rightarrow> Inl ErrInvalidKey
      | Some currentSlotState \<Rightarrow> Inr (state_JobDone subslotId currentSlotState))"

definition SetJobDone :: "bytes \<Rightarrow> nat \<Rightarrow> bool \<Rightarrow> slotConsensus \<Rightarrow> slot_error + slotConsensus" where
  "SetJobDone key subslotId v rcns =
     (case rc_validatorSlotStates rcns key of
        None \<Rightarrow> Inl ErrInvalidKey
      | Some currentSlotState \<Rightarrow>
        Inr (rcns\<lparr>rc_validatorSlotStates := (rc_validatorSlotStates rcns)(key \<mapsto> state_SetJobDone subslotId v currentSlotState)\<rparr>))"

definition SelfJobDone :: "nat \<Rightarrow> slotConsensus \<Rightarrow> slot_error + bool" where
  "SelfJobDone subslotId rcns = JobDone (rc_selfPubKey rcns) subslotId rcns"

definition SetSelfJobDone :: "nat \<Rightarrow> bool \<Rightarrow> slotConsensus \<Rightarrow> slot_error + slotConsensus" where
  "SetSelfJobDone subslotId v rcns = SetJobDone (rc_selfPubKey rcns) subslotId v rcns"

definition IsNodeInConsensusGroup :: "bytes \<Rightarrow> slotConsensus \<Rightarrow> bool" where
  "IsNodeInConsensusGroup node rcns \<longleftrightarrow> node \<in> rc_electedNodes rcns"

definition ComputeSize :: "nat \<Rightarrow> slotConsensus \<Rightarrow> nat" where
  "ComputeSize subslotId rcns = length (filter (\<lambda>pk. JobDone pk subslotId rcns = Inr True) (groupOf rcns))"

definition resetOne :: "bytes \<Rightarrow> (bytes \<rightharpoonup> slotState) \<Rightarrow> (bytes \<rightharpoonup> slotState)" where
  "resetOne pk states = (case states pk of None \<Rightarrow> states | Some st \<Rightarrow> states(pk \<mapsto> ResetJobsDone st))"

definition ResetSlotState :: "slotConsensus \<Rightarrow> slotConsensus" where
  "ResetSlotState rcns = rcns\<lparr>rc_validatorSlotStates := fold resetOne (groupOf rcns) (rc_validatorSlotStates rcns)\<rparr>"

section \<open>The state of the consensus\<close>

record ConsensusState =
  cs_Data :: "bytes option"
  cs_Header :: "Block option"
  cs_SlotIndex :: int
  cs_SlotTimestamp :: int
  cs_SlotCanceled :: bool
  cs_ExtendedCalled :: bool
  cs_WaitingAllSignaturesTimeOut :: bool
  cs_receivedHeaders :: "Block list"
  cs_processingBlock :: bool
  cs_processingBlockSlot :: int
  cs_slotConsensus :: slotConsensus
  cs_slotThreshold :: slotThreshold
  cs_slotStatus :: slotStatus

definition SetSlotCanceled :: "bool \<Rightarrow> ConsensusState \<Rightarrow> ConsensusState" where
  "SetSlotCanceled canceled cns = cns\<lparr>cs_SlotCanceled := canceled\<rparr>"

definition SetExtendedCalled :: "bool \<Rightarrow> ConsensusState \<Rightarrow> ConsensusState" where
  "SetExtendedCalled extended cns = cns\<lparr>cs_ExtendedCalled := extended\<rparr>"

definition SetWaitingAllSignaturesTimeOut :: "bool \<Rightarrow> ConsensusState \<Rightarrow> ConsensusState" where
  "SetWaitingAllSignaturesTimeOut timedOut cns = cns\<lparr>cs_WaitingAllSignaturesTimeOut := timedOut\<rparr>"

definition SetWaitingAllSignaturesTimeOutIfSlot :: "int \<Rightarrow> bool \<Rightarrow> ConsensusState \<Rightarrow> ConsensusState \<times> bool" where
  "SetWaitingAllSignaturesTimeOutIfSlot spawnSlot timedOut cns =
     (if cs_SlotIndex cns \<noteq> spawnSlot then (cns, False) else (cns\<lparr>cs_WaitingAllSignaturesTimeOut := timedOut\<rparr>, True))"

definition resetSlotStateLocked :: "ConsensusState \<Rightarrow> ConsensusState" where
  "resetSlotStateLocked cns =
     cns\<lparr>cs_Header := None, cs_Data := None, cs_SlotCanceled := False, cs_ExtendedCalled := False,
         cs_WaitingAllSignaturesTimeOut := False\<rparr>"

definition resetSlot :: "ConsensusState \<Rightarrow> ConsensusState" where
  "resetSlot cns =
     cns\<lparr>cs_receivedHeaders := [], cs_slotStatus := ResetSlotStatus (cs_slotStatus cns),
         cs_slotConsensus := ResetSlotState (cs_slotConsensus cns)\<rparr>"

definition ResetConsensusState :: "ConsensusState \<Rightarrow> ConsensusState" where
  "ResetConsensusState cns = resetSlot (resetSlotStateLocked cns)"

definition BeginNewSlot :: "int \<Rightarrow> int \<Rightarrow> ConsensusState \<Rightarrow> ConsensusState" where
  "BeginNewSlot slotIndex slotTimestamp cns =
     resetSlot ((resetSlotStateLocked cns)\<lparr>cs_SlotIndex := slotIndex, cs_SlotTimestamp := slotTimestamp\<rparr>)"

text \<open>\<open>time.Time{}\<close>, the zero value of the time stamp, is \<open>zeroTime\<close>.\<close>

definition NewConsensusState :: "int \<Rightarrow> slotConsensus \<Rightarrow> slotThreshold \<Rightarrow> slotStatus \<Rightarrow> ConsensusState" where
  "NewConsensusState zeroTime sc st ss =
     ResetConsensusState
       \<lparr>cs_Data = None, cs_Header = None, cs_SlotIndex = 0, cs_SlotTimestamp = zeroTime, cs_SlotCanceled = False,
        cs_ExtendedCalled = False, cs_WaitingAllSignaturesTimeOut = False, cs_receivedHeaders = [], cs_processingBlock = False,
        cs_processingBlockSlot = 0, cs_slotConsensus = sc, cs_slotThreshold = st, cs_slotStatus = ss\<rparr>"

definition AddReceivedHeader :: "Block \<Rightarrow> ConsensusState \<Rightarrow> ConsensusState" where
  "AddReceivedHeader h cns = cns\<lparr>cs_receivedHeaders := cs_receivedHeaders cns @ [h]\<rparr>"

definition GetLeader :: "ConsensusState \<Rightarrow> slot_error + bytes" where
  "GetLeader cns =
     (case rc_consensusGroup (cs_slotConsensus cns) of
        None \<Rightarrow> Inl ErrNilConsensusGroup
      | Some cg \<Rightarrow> if length cg = 0 then Inl ErrEmptyConsensusGroup else Inr (cg ! 0))"

definition IsNodeLeaderInCurrentSlot :: "bytes \<Rightarrow> ConsensusState \<Rightarrow> bool" where
  "IsNodeLeaderInCurrentSlot node cns = (case GetLeader cns of Inl _ \<Rightarrow> False | Inr leader \<Rightarrow> leader = node)"

definition IsSelfLeaderInCurrentSlot :: "ConsensusState \<Rightarrow> bool" where
  "IsSelfLeaderInCurrentSlot cns = IsNodeLeaderInCurrentSlot (rc_selfPubKey (cs_slotConsensus cns)) cns"

definition IsConsensusDataSet :: "ConsensusState \<Rightarrow> bool" where
  "IsConsensusDataSet cns \<longleftrightarrow> cs_Data cns \<noteq> None"

definition IsConsensusDataEqual :: "bytes option \<Rightarrow> ConsensusState \<Rightarrow> bool" where
  "IsConsensusDataEqual d cns \<longleftrightarrow> bytesOf (cs_Data cns) = bytesOf d"

definition IsJobDone :: "bytes \<Rightarrow> nat \<Rightarrow> ConsensusState \<Rightarrow> bool" where
  "IsJobDone node currentSubslotId cns =
     (case JobDone node currentSubslotId (cs_slotConsensus cns) of Inl _ \<Rightarrow> False | Inr jobDone \<Rightarrow> jobDone)"

definition IsSelfJobDone :: "nat \<Rightarrow> ConsensusState \<Rightarrow> bool" where
  "IsSelfJobDone currentSubslotId cns = IsJobDone (rc_selfPubKey (cs_slotConsensus cns)) currentSubslotId cns"

definition IsSubslotFinished :: "nat \<Rightarrow> ConsensusState \<Rightarrow> bool" where
  "IsSubslotFinished subslotID cns \<longleftrightarrow> status_Status subslotID (cs_slotStatus cns) = SsFinished"

definition SetStatus :: "nat \<Rightarrow> SubslotStatus \<Rightarrow> ConsensusState \<Rightarrow> ConsensusState" where
  "SetStatus subslotId s cns = cns\<lparr>cs_slotStatus := status_SetStatus subslotId s (cs_slotStatus cns)\<rparr>"

definition IsNodeSelf :: "bytes \<Rightarrow> ConsensusState \<Rightarrow> bool" where
  "IsNodeSelf node cns \<longleftrightarrow> node = rc_selfPubKey (cs_slotConsensus cns)"

definition IsHeaderAlreadyReceived :: "ConsensusState \<Rightarrow> bool" where
  "IsHeaderAlreadyReceived cns \<longleftrightarrow> cs_Header cns \<noteq> None"

definition CanDoSubslotJob :: "nat \<Rightarrow> ConsensusState \<Rightarrow> bool" where
  "CanDoSubslotJob currentSubslotId cns =
     (if \<not> IsConsensusDataSet cns then False
      else if IsSelfJobDone currentSubslotId cns then False
      else if IsSubslotFinished currentSubslotId cns then False
      else True)"

text \<open>The sender and the slot of the message are the arguments.\<close>

definition CanProcessReceivedMessage :: "bytes \<Rightarrow> int \<Rightarrow> int \<Rightarrow> nat \<Rightarrow> ConsensusState \<Rightarrow> bool" where
  "CanProcessReceivedMessage pubKey msgSlot currentSlotIndex currentSubslotId cns =
     (if IsNodeSelf pubKey cns then False
      else if currentSlotIndex \<noteq> msgSlot then False
      else if IsJobDone pubKey currentSubslotId cns then False
      else if IsSubslotFinished currentSubslotId cns then False
      else True)"

definition markMember :: "nat \<Rightarrow> ConsensusState \<Rightarrow> nat \<Rightarrow> bytes \<Rightarrow> bytes" where
  "markMember subslotId cns i bitmap =
     (case JobDone (groupOf (cs_slotConsensus cns) ! i) subslotId (cs_slotConsensus cns) of
        Inl _ \<Rightarrow> bitmap
      | Inr isJobDone \<Rightarrow> if isJobDone then setBit i bitmap else bitmap)"

definition GenerateBitmap :: "nat \<Rightarrow> ConsensusState \<Rightarrow> bytes" where
  "GenerateBitmap subslotId cns =
     (let sizeConsensus = length (groupOf (cs_slotConsensus cns)) in
      fold (markMember subslotId cns) [0..<sizeConsensus] (replicate (bitmapBytes sizeConsensus) 0))"

definition SetProcessingBlock :: "bool \<Rightarrow> ConsensusState \<Rightarrow> ConsensusState" where
  "SetProcessingBlock processingBlock cns = cns\<lparr>cs_processingBlock := processingBlock\<rparr>"

definition SetProcessingBlockIfSlot :: "int \<Rightarrow> bool \<Rightarrow> ConsensusState \<Rightarrow> ConsensusState \<times> bool" where
  "SetProcessingBlockIfSlot spawnSlot processingBlock cns =
     (if \<not> processingBlock then
        if cs_processingBlockSlot cns \<noteq> spawnSlot then (cns, False) else (cns\<lparr>cs_processingBlock := False\<rparr>, True)
      else if cs_SlotIndex cns \<noteq> spawnSlot then (cns, False)
      else (cns\<lparr>cs_processingBlock := True, cs_processingBlockSlot := spawnSlot\<rparr>, True))"

text \<open>The guard and its release: the second component tells whether the release does anything.\<close>

definition AcquireProcessingBlock :: "int \<Rightarrow> ConsensusState \<Rightarrow> ConsensusState \<times> bool" where
  "AcquireProcessingBlock spawnSlot cns = SetProcessingBlockIfSlot spawnSlot True cns"

definition releaseProcessingBlock :: "int \<Rightarrow> bool \<Rightarrow> ConsensusState \<Rightarrow> ConsensusState" where
  "releaseProcessingBlock spawnSlot acquired cns =
     (if \<not> acquired then cns else fst (SetProcessingBlockIfSlot spawnSlot False cns))"

end
