(* ===== verification/HeaderCheck.thy ===== *)
theory HeaderCheck
  imports MultiSig SlotConsensus SafeConverter
begin

text \<open>
  The check of block headers: the signatures (\<open>core/process/headerCheck/headerSignatureVerify.go\<close>), the lower
  threshold for blocks that start an epoch late (\<open>core/fallback/headerValidator.go\<close>) and the fields
  (\<open>headerIntegrityVerifier.go\<close>). The codec, the hash function, the signature schemes, the block storage and the
  selection of the consensus group, which the code reaches through interfaces, are the fields of the record
  \<open>HeaderSigVerifier\<close>.
\<close>

section \<open>Signatures\<close>

datatype header_error =
  ErrNilPubKeysBitmap | ErrBlockProposerSignatureMissing | ErrNodesCoordinator | ErrWrongSizeBitmap | ErrBitmapWithPaddingNotZero
  | ErrNotEnoughSignatures | ErrMultiSig crypto_error | ErrMarshal | ErrPublicKey | ErrSingleSig | PanicEmptyGroup

record ('pk, 'sk) HeaderSigVerifier =
  hv_marshal :: "BlockHeader option \<Rightarrow> bytes option"
  hv_hasher :: "bytes \<Rightarrow> bytes"
  hv_ComputeConsensusGroup :: "bytes \<Rightarrow> int \<Rightarrow> int \<Rightarrow> bytes list option"
  hv_ll :: "('pk, 'sk) llSigner"
  hv_multiSigVerifier :: "('pk, 'sk) blsMultiSigData"
  hv_singleVerify :: "'pk \<Rightarrow> bytes \<Rightarrow> bytes \<Rightarrow> bool"
  hv_FixAuditChangesV7InEpoch :: "int \<Rightarrow> bool"
  hv_GetHeader :: "bytes \<Rightarrow> Block option"

definition MaxSlotsWithoutCommittedStartInEpochBlock :: int where
  "MaxSlotsWithoutCommittedStartInEpochBlock = 50"

definition ShouldApplyFallbackValidation :: "('pk, 'sk) HeaderSigVerifier \<Rightarrow> Block option \<Rightarrow> bool" where
  "ShouldApplyFallbackValidation hv headerOpt =
     (case headerOpt of
        None \<Rightarrow> False
      | Some header \<Rightarrow>
        if \<not> GetIsEpochStart header then False
        else if hv_FixAuditChangesV7InEpoch hv (GetEpoch header) then False
        else case hv_GetHeader hv (GetParentHash header) of
          None \<Rightarrow> False
        | Some previousHeader \<Rightarrow>
          i64 (SafeU64ToI64 (GetSlot header) - SafeU64ToI64 (GetSlot previousHeader)) \<ge> MaxSlotsWithoutCommittedStartInEpochBlock)"

text \<open>The epoch whose nodes sign a header: the first block of an epoch is signed by the nodes of the previous one.\<close>

definition signingEpoch :: "Block \<Rightarrow> int" where
  "signingEpoch header =
     (if GetIsEpochStart header \<and> GetEpoch header > 0 then u32 (GetEpoch header - 1) else GetEpoch header)"

definition verifyConsensusSize :: "('pk, 'sk) HeaderSigVerifier \<Rightarrow> bytes list \<Rightarrow> Block \<Rightarrow> header_error + unit" where
  "verifyConsensusSize hv consensusPubKeys header =
     (let consensusSize = length consensusPubKeys;
          bitmap = bl_PubKeysBitmap header in
      if length bitmap \<noteq> bitmapBytes consensusSize then Inl ErrWrongSizeBitmap
      else if HasPaddingBitsSet bitmap consensusSize then Inl ErrBitmapWithPaddingNotZero
      else
        let numOfOnesInBitmap = onesInBitmap bitmap;
            minNumRequiredSignatures =
              (if ShouldApplyFallbackValidation hv (Some header) then GetPBFTFallbackThreshold consensusSize
               else GetPBFTThreshold consensusSize) in
        if numOfOnesInBitmap \<ge> minNumRequiredSignatures then Inr () else Inl ErrNotEnoughSignatures)"

definition cryptoE :: "crypto_error + 'a \<Rightarrow> header_error + 'a" where
  "cryptoE r = (case r of Inl e \<Rightarrow> Inl (ErrMultiSig e) | Inr x \<Rightarrow> Inr x)"

definition VerifySignature :: "('pk, 'sk) HeaderSigVerifier \<Rightarrow> Block \<Rightarrow> header_error + unit" where
  "VerifySignature hv header =
     (let bitmap = bl_PubKeysBitmap header in
      if length bitmap = 0 then Inl ErrNilPubKeysBitmap
      else if \<not> bitAt bitmap 0 then Inl ErrBlockProposerSignatureMissing
      else case hv_ComputeConsensusGroup hv (GetPrevRandSeed header) (GetSlot header) (signingEpoch header) of
        None \<Rightarrow> Inl ErrNodesCoordinator
      | Some consensusPubKeys \<Rightarrow>
        bindE (verifyConsensusSize hv consensusPubKeys header) (\<lambda>_.
        bindE (cryptoE (bms_Create (hv_ll hv) consensusPubKeys 0 (hv_multiSigVerifier hv))) (\<lambda>verifier.
        bindE (cryptoE (SetAggregatedSig (hv_ll hv) (bl_Signature header) verifier)) (\<lambda>verifier.
        case CalculateHash (hv_marshal hv) (hv_hasher hv) (bl_Header header) of
          None \<Rightarrow> Inl ErrMarshal
        | Some hash \<Rightarrow> cryptoE (bms_Verify (hv_ll hv) hash (Some bitmap) verifier)))))"

definition getLeader :: "('pk, 'sk) HeaderSigVerifier \<Rightarrow> Block \<Rightarrow> header_error + 'pk" where
  "getLeader hv header =
     (case hv_ComputeConsensusGroup hv (GetPrevRandSeed header) (GetSlot header) (signingEpoch header) of
        None \<Rightarrow> Inl ErrNodesCoordinator
      | Some headerConsensusGroup \<Rightarrow>
        if headerConsensusGroup = [] then Inl PanicEmptyGroup
        else case kg_PublicKeyFromByteArray (hv_ll hv) (headerConsensusGroup ! 0) of
          None \<Rightarrow> Inl ErrPublicKey
        | Some pk \<Rightarrow> Inr pk)"

definition verifyRandSeed :: "('pk, 'sk) HeaderSigVerifier \<Rightarrow> 'pk \<Rightarrow> Block \<Rightarrow> header_error + unit" where
  "verifyRandSeed hv leaderPubKey header =
     errIf (\<not> hv_singleVerify hv leaderPubKey (GetPrevRandSeed header) (GetRandSeed header)) ErrSingleSig"

definition verifyLeaderSignature :: "('pk, 'sk) HeaderSigVerifier \<Rightarrow> 'pk \<Rightarrow> Block \<Rightarrow> header_error + unit" where
  "verifyLeaderSignature hv leaderPubKey header =
     (case hv_marshal hv (bl_Header header) of
        None \<Rightarrow> Inl ErrMarshal
      | Some headerBytes \<Rightarrow> errIf (\<not> hv_singleVerify hv leaderPubKey headerBytes (bl_ProducerSignature header)) ErrSingleSig)"

definition VerifyRandSeed :: "('pk, 'sk) HeaderSigVerifier \<Rightarrow> Block \<Rightarrow> header_error + unit" where
  "VerifyRandSeed hv header = bindE (getLeader hv header) (\<lambda>leaderPubKey. verifyRandSeed hv leaderPubKey header)"

definition VerifyLeaderSignature :: "('pk, 'sk) HeaderSigVerifier \<Rightarrow> Block \<Rightarrow> header_error + unit" where
  "VerifyLeaderSignature hv header = bindE (getLeader hv header) (\<lambda>leaderPubKey. verifyLeaderSignature hv leaderPubKey header)"

definition VerifyRandSeedAndLeaderSignature :: "('pk, 'sk) HeaderSigVerifier \<Rightarrow> Block \<Rightarrow> header_error + unit" where
  "VerifyRandSeedAndLeaderSignature hv header =
     bindE (getLeader hv header) (\<lambda>leaderPubKey.
     bindE (verifyRandSeed hv leaderPubKey header) (\<lambda>_. verifyLeaderSignature hv leaderPubKey header))"

section \<open>Fields\<close>

datatype integrity_error =
  ErrInvalidReferenceChainID | ErrEmptyVersionsByEpochsList | ErrInvalidVersionOnEpochValues | ErrInvalidVersionStringTooLong
  | ErrInvalidSoftwareVersion | ErrReservedFieldNotSupportedYet | ErrSoftwareVersionMismatch | ErrInvalidChainID

record VersionByEpochs =
  ve_StartEpoch :: int
  ve_Version :: bytes

record headerIntegrityVerifier =
  hi_referenceChainID :: bytes
  hi_versions :: "VersionByEpochs list"
  hi_defaultVersion :: bytes
  hi_versionCache :: "int \<rightharpoonup> bytes"

definition MaxSoftwareVersionLengthInBytes :: nat where
  "MaxSoftwareVersionLengthInBytes = 10"

definition wildcard :: bytes where
  "wildcard = [42]"

fun checkVersions :: "int option \<Rightarrow> VersionByEpochs list \<Rightarrow> integrity_error + unit" where
  "checkVersions currentEpoch [] = Inr ()"
| "checkVersions currentEpoch (ver # vers) =
     (if currentEpoch = None \<and> ve_StartEpoch ver \<noteq> 0 then Inl ErrInvalidVersionOnEpochValues
      else if (case currentEpoch of None \<Rightarrow> False | Some e \<Rightarrow> e \<ge> ve_StartEpoch ver) then Inl ErrInvalidVersionOnEpochValues
      else if length (ve_Version ver) > MaxSoftwareVersionLengthInBytes then Inl ErrInvalidVersionStringTooLong
      else checkVersions (Some (ve_StartEpoch ver)) vers)"

definition prepareVersions :: "VersionByEpochs list \<Rightarrow> integrity_error + VersionByEpochs list" where
  "prepareVersions versionsByEpochs =
     (if length versionsByEpochs = 0 then Inl ErrEmptyVersionsByEpochsList
      else let sorted = sort_key ve_StartEpoch versionsByEpochs in
        bindE (checkVersions None sorted) (\<lambda>_. Inr sorted))"

definition checkVersionLength :: "bytes \<Rightarrow> integrity_error + unit" where
  "checkVersionLength version =
     errIf (length version = 0 \<or> length version > MaxSoftwareVersionLengthInBytes) ErrInvalidSoftwareVersion"

definition NewHeaderIntegrityVerifier ::
  "bytes \<Rightarrow> VersionByEpochs list \<Rightarrow> bytes \<Rightarrow> (int \<rightharpoonup> bytes) \<Rightarrow> integrity_error + headerIntegrityVerifier"
where
  "NewHeaderIntegrityVerifier referenceChainID versionsByEpochs defaultVersion versionCache =
     (if length referenceChainID = 0 then Inl ErrInvalidReferenceChainID
      else bindE (prepareVersions versionsByEpochs) (\<lambda>versions.
        bindE (checkVersionLength defaultVersion) (\<lambda>_.
          Inr \<lparr>hi_referenceChainID = referenceChainID, hi_versions = versions, hi_defaultVersion = defaultVersion,
               hi_versionCache = versionCache\<rparr>)))"

text \<open>The loop over the versions: the first whose range holds the epoch, the last one otherwise.\<close>

fun searchVersion :: "int \<Rightarrow> VersionByEpochs list \<Rightarrow> bytes" where
  "searchVersion epoch [] = []"
| "searchVersion epoch [ver] = ve_Version ver"
| "searchVersion epoch (crtVer # nextVer # vers) =
     (if ve_StartEpoch crtVer \<le> epoch \<and> epoch < ve_StartEpoch nextVer then ve_Version crtVer
      else searchVersion epoch (nextVer # vers))"

definition getMatchingVersion :: "int \<Rightarrow> headerIntegrityVerifier \<Rightarrow> headerIntegrityVerifier \<times> bytes" where
  "getMatchingVersion epoch hdrIntVer =
     (case hi_versionCache hdrIntVer epoch of
        Some storedVersion \<Rightarrow> (hdrIntVer, storedVersion)
      | None \<Rightarrow>
        let version = searchVersion epoch (hi_versions hdrIntVer) in
        (hdrIntVer\<lparr>hi_versionCache := (hi_versionCache hdrIntVer)(epoch \<mapsto> version)\<rparr>, version))"

definition GetVersion :: "int \<Rightarrow> headerIntegrityVerifier \<Rightarrow> headerIntegrityVerifier \<times> bytes" where
  "GetVersion epoch hdrIntVer =
     (case getMatchingVersion epoch hdrIntVer of
        (hdrIntVer', ver) \<Rightarrow> (hdrIntVer', if ver = wildcard then hi_defaultVersion hdrIntVer else ver))"

definition checkSoftwareVersion :: "Block \<Rightarrow> headerIntegrityVerifier \<Rightarrow> headerIntegrityVerifier \<times> (integrity_error + unit)" where
  "checkSoftwareVersion hdr hdrIntVer =
     (case checkVersionLength (GetSoftwareVersion hdr) of
        Inl e \<Rightarrow> (hdrIntVer, Inl e)
      | Inr _ \<Rightarrow>
        (case getMatchingVersion (GetEpoch hdr) hdrIntVer of
           (hdrIntVer', version) \<Rightarrow>
             (hdrIntVer',
              if version = wildcard then Inr ()
              else errIf (version \<noteq> GetSoftwareVersion hdr) ErrSoftwareVersionMismatch)))"

definition checkChainID :: "Block \<Rightarrow> headerIntegrityVerifier \<Rightarrow> integrity_error + unit" where
  "checkChainID hdr hdrIntVer = errIf (hi_referenceChainID hdrIntVer \<noteq> GetChainID hdr) ErrInvalidChainID"

definition integrity_Verify :: "Block \<Rightarrow> headerIntegrityVerifier \<Rightarrow> headerIntegrityVerifier \<times> (integrity_error + unit)" where
  "integrity_Verify hdr hdrIntVer =
     (if length (GetReserved hdr) > 0 then (hdrIntVer, Inl ErrReservedFieldNotSupportedYet)
      else case checkSoftwareVersion hdr hdrIntVer of
        (hdrIntVer', Inl e) \<Rightarrow> (hdrIntVer', Inl e)
      | (hdrIntVer', Inr _) \<Rightarrow> (hdrIntVer', checkChainID hdr hdrIntVer'))"

end
