(* ===== verification/SlotConsensusProps.thy ===== *)
theory SlotConsensusProps
  imports SlotConsensus
begin

text \<open>
  Lemmas about the state of a consensus slot: the bitmap the leader generates names exactly the members whose job
  is done, what the start of a slot resets, and the guard of the block processing.
\<close>

section \<open>Groups and jobs\<close>

lemma IsJobDone_iff: "IsJobDone pk s cns \<longleftrightarrow> JobDone pk s (cs_slotConsensus cns) = Inr True"
  by (auto simp: IsJobDone_def split: sum.splits)

lemma JobDone_SetJobDone:
  assumes "SetJobDone key s v rcns = Inr rcns'"
  shows "JobDone k t rcns' = (if k = key \<and> t = s then Inr v else JobDone k t rcns)"
  using assms
  by (cases "k = key") (auto simp: SetJobDone_def JobDone_def state_SetJobDone_def state_JobDone_def split: option.splits)

lemma SetJobDone_frame:
  assumes "SetJobDone key s v rcns = Inr rcns'"
  shows "rc_consensusGroup rcns' = rc_consensusGroup rcns" "rc_electedNodes rcns' = rc_electedNodes rcns"
    "rc_selfPubKey rcns' = rc_selfPubKey rcns" "rc_consensusGroupSize rcns' = rc_consensusGroupSize rcns" "groupOf rcns' = groupOf rcns"
    "dom (rc_validatorSlotStates rcns') = dom (rc_validatorSlotStates rcns)"
  using assms by (auto simp: SetJobDone_def groupOf_def split: option.splits if_splits)

lemma indexOf_Some: "indexOf pk pks = Some i \<Longrightarrow> i < length pks \<and> pks ! i = pk"
  by (induction pks arbitrary: i) (auto split: if_splits)

lemma indexOf_None: "indexOf pk pks = None \<longleftrightarrow> pk \<notin> set pks"
  by (induction pks) auto

lemma indexOf_nth: "distinct pks \<Longrightarrow> i < length pks \<Longrightarrow> indexOf (pks ! i) pks = Some i"
  by (induction pks arbitrary: i) (auto simp: nth_Cons' nth_mem)

section \<open>The generated bitmap\<close>

lemma markMember_length [simp]: "length (markMember s cns i bitmap) = length bitmap"
  by (simp add: markMember_def split: sum.split)

lemma fold_markMember_length [simp]: "length (fold (markMember s cns) is bitmap) = length bitmap"
  by (induction "is" arbitrary: bitmap) auto

lemma GenerateBitmap_length: "length (GenerateBitmap s cns) = bitmapBytes (length (groupOf (cs_slotConsensus cns)))"
  by (simp add: GenerateBitmap_def Let_def)

lemma bitAt_markMember:
  assumes "i div 8 < length bitmap" "j div 8 < length bitmap"
  shows "bitAt (markMember s cns i bitmap) j \<longleftrightarrow>
    bitAt bitmap j \<or> (j = i \<and> IsJobDone (groupOf (cs_slotConsensus cns) ! i) s cns)"
  using assms by (auto simp: markMember_def IsJobDone_iff bitAt_setBit split: sum.split)

lemma bitAt_fold_markMember:
  assumes "\<forall>i\<in>set is. i div 8 < length bitmap" "j div 8 < length bitmap"
  shows "bitAt (fold (markMember s cns) is bitmap) j \<longleftrightarrow>
    bitAt bitmap j \<or> (j \<in> set is \<and> IsJobDone (groupOf (cs_slotConsensus cns) ! j) s cns)"
  using assms by (induction "is" arbitrary: bitmap) (auto simp: bitAt_markMember)

lemma membersOf_GenerateBitmap:
  "membersOf (GenerateBitmap s cns) =
     {i. i < length (groupOf (cs_slotConsensus cns)) \<and> IsJobDone (groupOf (cs_slotConsensus cns) ! i) s cns}"
proof -
  let ?n = "length (groupOf (cs_slotConsensus cns))"
  have "bitAt (GenerateBitmap s cns) j \<longleftrightarrow> j < ?n \<and> IsJobDone (groupOf (cs_slotConsensus cns) ! j) s cns"
    if "j < bitmapBytes ?n * 8" for j
  proof -
    have j: "j div 8 < bitmapBytes ?n" using that by (simp add: div_less_iff_less_mult)
    then have "\<not> bitAt (replicate (bitmapBytes ?n) 0) j" by (simp add: bitAt_bit)
    then show ?thesis using j bitmapBytes_bits(2) [of _ ?n] by (auto simp: GenerateBitmap_def Let_def bitAt_fold_markMember)
  qed
  then show ?thesis
    using bitmapBytes_bits(1) [of ?n] by (auto simp: membersOf_def GenerateBitmap_length)
qed

lemma GenerateBitmap_ones: "onesInBitmap (GenerateBitmap s cns) = ComputeSize s (cs_slotConsensus cns)"
proof -
  let ?g = "groupOf (cs_slotConsensus cns)"
  have "onesInBitmap (GenerateBitmap s cns) = card {i. i < length ?g \<and> IsJobDone (?g ! i) s cns}"
    by (simp add: card_membersOf [symmetric] membersOf_GenerateBitmap)
  then show ?thesis by (simp add: ComputeSize_def length_filter_conv_card IsJobDone_iff)
qed

lemma GenerateBitmap_padding: "\<not> HasPaddingBitsSet (GenerateBitmap s cns) (length (groupOf (cs_slotConsensus cns)))"
  by (auto simp: padding_members membersOf_GenerateBitmap)

section \<open>The start of a slot\<close>

lemma ResetJobsDone_undone [simp]: "\<not> state_JobDone s (ResetJobsDone st)"
  by (simp add: ResetJobsDone_def state_JobDone_def)

lemma resetOne_undone:
  "k = pk \<or> (\<forall>st. states k = Some st \<longrightarrow> \<not> state_JobDone s st) \<Longrightarrow> \<forall>st. resetOne pk states k = Some st \<longrightarrow> \<not> state_JobDone s st"
  by (cases "states pk"; cases "k = pk") (simp_all add: resetOne_def)

lemma fold_resetOne_undone:
  "k \<in> set pks \<or> (\<forall>st. states k = Some st \<longrightarrow> \<not> state_JobDone s st) \<Longrightarrow>
    \<forall>st. fold resetOne pks states k = Some st \<longrightarrow> \<not> state_JobDone s st"
proof (induction pks arbitrary: states)
  case (Cons p pks)
  have "k \<in> set pks \<or> (\<forall>st. resetOne p states k = Some st \<longrightarrow> \<not> state_JobDone s st)"
  proof (cases "k \<in> set pks")
    case False
    with Cons.prems have "k = p \<or> (\<forall>st. states k = Some st \<longrightarrow> \<not> state_JobDone s st)" by simp
    from resetOne_undone [of k p states s, OF this] show ?thesis by (rule disjI2)
  qed simp
  from Cons.IH [of "resetOne p states", OF this] show ?case by simp
qed simp

lemma ResetSlotState_undone: "pk \<in> set (groupOf rcns) \<Longrightarrow> JobDone pk s (ResetSlotState rcns) \<noteq> Inr True"
  using fold_resetOne_undone [of pk "groupOf rcns" "rc_validatorSlotStates rcns" s]
  by (auto simp: JobDone_def ResetSlotState_def split: option.splits)

lemma BeginNewSlot_fields:
  "cs_Data (BeginNewSlot idx ts cns) = None" "cs_Header (BeginNewSlot idx ts cns) = None"
  "cs_SlotIndex (BeginNewSlot idx ts cns) = idx" "\<not> cs_SlotCanceled (BeginNewSlot idx ts cns)"
  "\<not> cs_ExtendedCalled (BeginNewSlot idx ts cns)" "\<not> cs_WaitingAllSignaturesTimeOut (BeginNewSlot idx ts cns)"
  "cs_receivedHeaders (BeginNewSlot idx ts cns) = []" "\<not> IsSubslotFinished s (BeginNewSlot idx ts cns)"
  by (simp_all add: BeginNewSlot_def resetSlot_def resetSlotStateLocked_def IsSubslotFinished_def status_Status_def
      ResetSlotStatus_def split: option.split)

section \<open>The guard of the block processing\<close>

text \<open>A guard that was taken is released by its taker, and by nobody on behalf of another slot.\<close>

lemma guard_released:
  "AcquireProcessingBlock s cns = (cns', acquired) \<Longrightarrow> acquired \<Longrightarrow> \<not> cs_processingBlock (releaseProcessingBlock s acquired cns')"
  by (auto simp: AcquireProcessingBlock_def releaseProcessingBlock_def SetProcessingBlockIfSlot_def split: if_splits)

lemma guard_kept_for_other_slot:
  "cs_processingBlockSlot cns \<noteq> s \<Longrightarrow> cs_processingBlock (releaseProcessingBlock s acquired cns) = cs_processingBlock cns"
  by (simp add: releaseProcessingBlock_def SetProcessingBlockIfSlot_def)

end
