(* ===== verification/HeaderCheckProps.thy ===== *)
theory HeaderCheckProps
  imports HeaderCheck SlotConsensusProps
begin

text \<open>
  What the check of header signatures guarantees. The check of the bitmap is an instance of the contract of
  certificates; with a sound signature scheme two verified headers of the same consensus group were signed by a
  common correct member; shares that verify aggregate to a signature that does. The integrity verifier with its cache of
  versions accepts what the list of versions says.
\<close>

section \<open>The thresholds\<close>

lemma PBFT_two_thirds: "GetPBFTThreshold n \<le> m \<Longrightarrow> 3 * m > 2 * n"
  unfolding GetPBFTThreshold_def by presburger

lemma PBFT_fallback_half: "GetPBFTFallbackThreshold n \<le> m \<Longrightarrow> 2 * m > n"
  unfolding GetPBFTFallbackThreshold_def by presburger

lemma verifyConsensusSize_Inr:
  "verifyConsensusSize hv ks h = Inr () \<longleftrightarrow>
     length (bl_PubKeysBitmap h) = bitmapBytes (length ks) \<and> \<not> HasPaddingBitsSet (bl_PubKeysBitmap h) (length ks) \<and>
     onesInBitmap (bl_PubKeysBitmap h) \<ge>
       (if ShouldApplyFallbackValidation hv (Some h) then GetPBFTFallbackThreshold (length ks) else GetPBFTThreshold (length ks))"
  by (auto simp: verifyConsensusSize_def Let_def)

interpretation header: certificate_check "\<lambda>ks h. verifyConsensusSize hv ks h = Inr ()" "\<lambda>h. membersOf (bl_PubKeysBitmap h)"
  for hv :: "('pk, 'sk) HeaderSigVerifier"
proof unfold_locales
  fix ks h assume ok: "verifyConsensusSize hv ks h = Inr ()"
  then show "membersOf (bl_PubKeysBitmap h) \<subseteq> {..<length ks}" by (simp add: verifyConsensusSize_Inr padding_members)
  show "length ks < 2 * card (membersOf (bl_PubKeysBitmap h))"
    using ok PBFT_two_thirds [of "length ks" "onesInBitmap (bl_PubKeysBitmap h)"] PBFT_fallback_half [of "length ks" "onesInBitmap (bl_PubKeysBitmap h)"]
    by (auto simp: verifyConsensusSize_Inr card_membersOf split: if_splits)
qed

interpretation bft_header: bft_certificate_check
  "\<lambda>ks h. verifyConsensusSize hv ks h = Inr () \<and> \<not> ShouldApplyFallbackValidation hv (Some h)" "\<lambda>h. membersOf (bl_PubKeysBitmap h)"
  for hv :: "('pk, 'sk) HeaderSigVerifier"
proof unfold_locales
  fix ks h assume ok: "verifyConsensusSize hv ks h = Inr () \<and> \<not> ShouldApplyFallbackValidation hv (Some h)"
  then show "membersOf (bl_PubKeysBitmap h) \<subseteq> {..<length ks}" using header.signers_members [of hv ks h] by simp
  show "length ks < 2 * card (membersOf (bl_PubKeysBitmap h))" using ok header.signers_majority [of hv ks h] by simp
  show "2 * length ks < 3 * card (membersOf (bl_PubKeysBitmap h))"
    using ok PBFT_two_thirds [of "length ks" "onesInBitmap (bl_PubKeysBitmap h)"]
    by (auto simp: verifyConsensusSize_Inr card_membersOf)
qed

section \<open>Verified signatures\<close>

abbreviation headerGroup :: "('pk, 'sk) HeaderSigVerifier \<Rightarrow> Block \<Rightarrow> bytes list option" where
  "headerGroup hv h \<equiv> hv_ComputeConsensusGroup hv (GetPrevRandSeed h) (GetSlot h) (signingEpoch h)"

abbreviation hashOfHeader :: "('pk, 'sk) HeaderSigVerifier \<Rightarrow> Block \<Rightarrow> bytes option" where
  "hashOfHeader hv h \<equiv> CalculateHash (hv_marshal hv) (hv_hasher hv) (bl_Header h)"

lemma cryptoE_Inr: "cryptoE r = Inr x \<longleftrightarrow> r = Inr x"
  by (auto simp: cryptoE_def split: sum.splits)

lemma bms_Verify_Inr:
  "bms_Verify ll m (Some bitmap) bms = Inr () \<longleftrightarrow>
     \<not> length bitmap * 8 < length (md_pubKeys bms) \<and> \<not> HasPaddingBitsSet bitmap (length (md_pubKeys bms)) \<and>
     ll_VerifyAggregatedSig ll (selectedKeys bitmap bms) (md_aggSig bms) m"
  by (simp add: bms_Verify_def)

lemma VerifySignature_Inr:
  "VerifySignature hv h = Inr () \<longleftrightarrow> bl_PubKeysBitmap h \<noteq> [] \<and> bitAt (bl_PubKeysBitmap h) 0 \<and>
     (\<exists>ks verifier hash. headerGroup hv h = Some ks \<and> verifyConsensusSize hv ks h = Inr () \<and>
        bms_Create (hv_ll hv) ks 0 (hv_multiSigVerifier hv) = Inr verifier \<and> ll_VerifySigBytes (hv_ll hv) (bl_Signature h) \<and>
        hashOfHeader hv h = Some hash \<and>
        bms_Verify (hv_ll hv) hash (Some (bl_PubKeysBitmap h)) (verifier\<lparr>md_aggSig := Some (bl_Signature h)\<rparr>) = Inr ())"
  by (auto simp: VerifySignature_def Let_def bindE_Inr_iff cryptoE_Inr SetAggregatedSig_def split: option.splits if_splits)

lemma bms_Create_keys:
  "bms_Create ll ks i bms = Inr verifier \<Longrightarrow> convertStringsToPubKeys ll ks = Inr (md_pubKeys verifier)"
  by (auto simp: bms_Create_def NewBLSMultisig_def bindE_Inr_iff split: if_splits)

text \<open>The certificate a header carries: the keys its bitmap names, its signature and its hash.\<close>

definition certificateOf :: "('pk, 'sk) HeaderSigVerifier \<Rightarrow> bytes list \<Rightarrow> Block \<Rightarrow> 'pk certificate" where
  "certificateOf hv ks h =
     (map (\<lambda>i. the (kg_PublicKeyFromByteArray (hv_ll hv) (ks ! i))) (filter (bitAt (bl_PubKeysBitmap h)) [0..<length ks]),
      bl_Signature h, hashOfHeader hv h)"

text \<open>Every member the bitmap of a verified header names has signed its hash.\<close>

lemma verified_signers:
  assumes "VerifySignature hv h = Inr ()" "headerGroup hv h = Some ks" "length ks < 65536" "ll_sound (hv_ll hv) known hasSigned"
    and "certificateOf hv ks h \<in> known" "i \<in> membersOf (bl_PubKeysBitmap h)"
  shows "\<exists>pk hash. kg_PublicKeyFromByteArray (hv_ll hv) (ks ! i) = Some pk \<and> hashOfHeader hv h = Some hash \<and> hasSigned pk hash"
proof -
  obtain verifier hash where v: "bms_Create (hv_ll hv) ks 0 (hv_multiSigVerifier hv) = Inr verifier" "hashOfHeader hv h = Some hash"
    "verifyConsensusSize hv ks h = Inr ()"
    "bms_Verify (hv_ll hv) hash (Some (bl_PubKeysBitmap h)) (verifier\<lparr>md_aggSig := Some (bl_Signature h)\<rparr>) = Inr ()"
    using assms(1,2) by (auto simp: VerifySignature_Inr)
  let ?v = "verifier\<lparr>md_aggSig := Some (bl_Signature h)\<rparr>"
  note keys = bms_Create_keys [OF v(1)]
  have len: "length (md_pubKeys ?v) = length ks" using convertStringsToPubKeys_length [OF keys] by simp
  have i: "i < length ks" "bitAt (bl_PubKeysBitmap h) i"
    using header.signers_members [OF v(3)] assms(6) by (auto simp: membersOf_def)
  have sel: "selectedKeys (bl_PubKeysBitmap h) ?v = fst (certificateOf hv ks h)"
    using convertStringsToPubKeys_nth [OF keys] len assms(3) by (subst selectedKeys_eq) (auto simp: certificateOf_def)
  have "md_pubKeys verifier ! i \<in> set (selectedKeys (bl_PubKeysBitmap h) ?v)"
    using i len assms(3) by (subst selectedKeys_eq) auto
  moreover have "(selectedKeys (bl_PubKeysBitmap h) ?v, bl_Signature h, Some hash) \<in> known"
    using assms(5) v(2) unfolding sel by (simp add: certificateOf_def)
  ultimately have "hasSigned (md_pubKeys verifier ! i) hash" using assms(4) v(4) by (auto simp: ll_sound_def bms_Verify_Inr)
  with convertStringsToPubKeys_nth [OF keys i(1)] v(2) show ?thesis by blast
qed

lemma verified_size:
  "VerifySignature hv h = Inr () \<Longrightarrow> headerGroup hv h = Some ks \<Longrightarrow> verifyConsensusSize hv ks h = Inr ()"
  by (auto simp: VerifySignature_Inr)

lemma no_fallback_after_V7: "hv_FixAuditChangesV7InEpoch hv (GetEpoch h) \<Longrightarrow> \<not> ShouldApplyFallbackValidation hv (Some h)"
  by (simp add: ShouldApplyFallbackValidation_def)

section \<open>Agreement\<close>

text \<open>
  Two headers whose signatures are verified against the same consensus group, in epochs with the fix V7, were both signed by
  a member outside a set \<open>F\<close> of at most a third of the group.
\<close>

lemma verified_common_signer:
  assumes "VerifySignature hv g = Inr ()" "VerifySignature hv h = Inr ()"
    and "headerGroup hv g = Some ks" "headerGroup hv h = Some ks"
    and "hv_FixAuditChangesV7InEpoch hv (GetEpoch g)" "hv_FixAuditChangesV7InEpoch hv (GetEpoch h)"
    and "length ks < 65536" "ll_sound (hv_ll hv) known hasSigned" "finite F" "3 * card F \<le> length ks"
    and "certificateOf hv ks g \<in> known" "certificateOf hv ks h \<in> known"
  obtains i pk dg dh where "i < length ks" "i \<notin> F" "kg_PublicKeyFromByteArray (hv_ll hv) (ks ! i) = Some pk"
    "hashOfHeader hv g = Some dg" "hashOfHeader hv h = Some dh" "hasSigned pk dg" "hasSigned pk dh"
proof -
  have ok: "verifyConsensusSize hv ks g = Inr () \<and> \<not> ShouldApplyFallbackValidation hv (Some g)"
    "verifyConsensusSize hv ks h = Inr () \<and> \<not> ShouldApplyFallbackValidation hv (Some h)"
    using assms(1-6) by (simp_all add: verified_size no_fallback_after_V7)
  obtain i where i: "i \<in> membersOf (bl_PubKeysBitmap g)" "i \<in> membersOf (bl_PubKeysBitmap h)" "i \<notin> F"
    using bft_header.common_correct_signer [OF ok assms(10,9)] by blast
  have "i < length ks" using bft_header.signers_members [OF ok(1)] i(1) by auto
  then show ?thesis
    using that verified_signers [OF assms(1,3,7,8,11) i(1)] verified_signers [OF assms(2,4,7,8,12) i(2)] i(3) by auto
qed

text \<open>
  An instance: a share is the key followed by the message, for any message, and an aggregate the list of the shares. Every
  message has a signature that verifies; soundness holds for the one certificate that exists.
\<close>

definition demo_ll :: "(bytes, bytes) llSigner" where
  "demo_ll = \<lparr>ll_SignShare = (\<lambda>sk m. Some (sk @ m)),
     ll_VerifySigShare = (\<lambda>pk m sig. sig = pk @ m),
     ll_VerifySigBytes = (\<lambda>sig. sig \<noteq> []),
     ll_AggregateSignatures = (\<lambda>sigs pks. if None \<in> set sigs then None else Some (1 # concat (map the sigs))),
     ll_VerifyAggregatedSig = (\<lambda>pks agg m. agg = Some (1 # concat (map (\<lambda>pk. pk @ m) pks))),
     kg_PublicKeyFromByteArray = Some\<rparr>"

lemma demo_ll_sound: "ll_sound demo_ll {([[1]], [1, 1, 7], Some [7])} (\<lambda>pk m. m = [7])"
  by (simp add: ll_sound_def)

lemma demo_ll_signs: "\<exists>agg. ll_VerifyAggregatedSig demo_ll pks (Some agg) m"
  by (simp add: demo_ll_def)

lemma demo_ll_complete: "ll_complete demo_ll"
  unfolding ll_complete_def
proof (intro allI impI)
  fix sigs pks :: "bytes list" and m
  assume all: "list_all2 (\<lambda>sig pk. ll_VerifySigShare demo_ll pk m sig) sigs pks"
  then have "concat sigs = concat (map (\<lambda>pk. pk @ m) pks)"
    by (induction rule: list_all2_induct) (auto simp: demo_ll_def)
  then show "\<exists>agg. ll_AggregateSignatures demo_ll (map Some sigs) pks = Some agg \<and> agg \<noteq> [] \<and> ll_VerifySigBytes demo_ll agg \<and>
      ll_VerifyAggregatedSig demo_ll pks (Some agg) m"
    by (auto simp: demo_ll_def comp_def)
qed

lemmas bitmap_eval =
  bitAt_bit HasPaddingBitsSet_def bitmapBytes_def onesInBitmap_def OnesCount8_def upt_rec

section \<open>Aggregated signatures\<close>

text \<open>Shares that verify one by one aggregate to a signature the verifier accepts.\<close>

lemma aggregated_verifies:
  assumes "ll_complete ll" "length (md_pubKeys bms) < 65536" "length (md_sigShares bms) = length (md_pubKeys bms)"
    and "length bitmap = bitmapBytes (length (md_pubKeys bms))" "\<not> HasPaddingBitsSet bitmap (length (md_pubKeys bms))"
    and "membersOf bitmap \<noteq> {}"
    and shares: "\<forall>i\<in>membersOf bitmap. \<exists>sig. md_sigShares bms ! i = Some sig \<and> ll_VerifySigShare ll (md_pubKeys bms ! i) m sig"
  shows "\<exists>agg. AggregateSigs ll (Some bitmap) bms = Inr agg \<and> agg \<noteq> [] \<and> ll_VerifySigBytes ll agg \<and>
    (\<forall>bms'. md_pubKeys bms' = md_pubKeys bms \<longrightarrow> md_aggSig bms' = Some agg \<longrightarrow> bms_Verify ll m (Some bitmap) bms' = Inr ())"
proof -
  let ?n = "length (md_pubKeys bms)"
  let ?is = "filter (bitAt bitmap) [0..<?n]"
  let ?sig = "\<lambda>i. the (md_sigShares bms ! i)" and ?pk = "\<lambda>i. md_pubKeys bms ! i"
  have size: "\<not> length bitmap * 8 < ?n" using bitmapBytes_bits(1) [of ?n] assms(4) by simp
  have members: "set ?is = membersOf bitmap"
    using assms(5) bitmapBytes_bits(1) [of ?n] assms(4) by (auto simp: padding_members membersOf_def)
  have sigs: "md_sigShares bms ! i = Some (?sig i) \<and> ll_VerifySigShare ll (?pk i) m (?sig i)" if "i \<in> set ?is" for i
  proof -
    from that have "i \<in> membersOf bitmap" unfolding members .
    with shares obtain sig where "md_sigShares bms ! i = Some sig" "ll_VerifySigShare ll (?pk i) m sig" by blast
    then show ?thesis by simp
  qed
  have "?is \<noteq> []" using assms(6) members by (metis set_empty)
  then obtain agg where agg: "ll_AggregateSignatures ll (map Some (map ?sig ?is)) (map ?pk ?is) = Some agg" "agg \<noteq> []"
    "ll_VerifySigBytes ll agg" "ll_VerifyAggregatedSig ll (map ?pk ?is) (Some agg) m"
    using assms(1) [unfolded ll_complete_def, rule_format, of "map ?sig ?is" "map ?pk ?is" m] sigs
    by (auto simp: list_all2_map1 list_all2_map2 list_all2_same)
  have "map fst (selectedShares bitmap bms) = map Some (map ?sig ?is)" "map snd (selectedShares bitmap bms) = map ?pk ?is"
    using sigs by (simp_all add: selectedShares_eq [OF assms(2,3)])
  then have "AggregateSigs ll (Some bitmap) bms = Inr agg" using agg(1) size assms(5) by (simp add: AggregateSigs_def)
  moreover have "bms_Verify ll m (Some bitmap) bms' = Inr ()" if "md_pubKeys bms' = md_pubKeys bms" "md_aggSig bms' = Some agg" for bms'
    using agg(4) size assms(2,5) that by (simp add: bms_Verify_Inr selectedKeys_eq)
  ultimately show ?thesis using agg(2,3) by blast
qed

section \<open>Integrity\<close>

text \<open>The version in force in an epoch is that of the latest entry that has started.\<close>

definition versionInForce :: "int \<Rightarrow> VersionByEpochs list \<Rightarrow> bytes" where
  "versionInForce epoch versions = ve_Version (last (filter (\<lambda>v. ve_StartEpoch v \<le> epoch) versions))"

lemma checkVersions_sorted:
  "checkVersions (Some e) vers = Inr () \<Longrightarrow> sorted_wrt (<) (map ve_StartEpoch vers) \<and> (\<forall>v\<in>set vers. e < ve_StartEpoch v)"
proof (induction vers arbitrary: e)
  case (Cons v vers)
  then have "e < ve_StartEpoch v" "checkVersions (Some (ve_StartEpoch v)) vers = Inr ()" by (auto split: if_splits)
  with Cons.IH [of "ve_StartEpoch v"] show ?case by fastforce
qed simp

lemma prepareVersions_sorted:
  assumes "prepareVersions vs = Inr versions"
  shows "versions \<noteq> []" "sorted_wrt (<) (map ve_StartEpoch versions)" "ve_StartEpoch (hd versions) = 0"
proof -
  from assms have v: "versions = sort_key ve_StartEpoch vs" "checkVersions None versions = Inr ()" "vs \<noteq> []"
    by (auto simp: prepareVersions_def Let_def bindE_Inr_iff split: if_splits)
  then show ne: "versions \<noteq> []" by (metis length_0_conv length_sort)
  then obtain w ws where w: "versions = w # ws" by (cases versions) auto
  with v(2) have "ve_StartEpoch w = 0" "checkVersions (Some (ve_StartEpoch w)) ws = Inr ()" by (auto split: if_splits)
  with checkVersions_sorted [of "ve_StartEpoch w" ws] w
  show "sorted_wrt (<) (map ve_StartEpoch versions)" "ve_StartEpoch (hd versions) = 0" by auto
qed

lemma searchVersion_in_force:
  assumes "sorted_wrt (<) (map ve_StartEpoch versions)" "versions \<noteq> []" "ve_StartEpoch (hd versions) \<le> epoch"
  shows "searchVersion epoch versions = versionInForce epoch versions"
  using assms
proof (induction epoch versions rule: searchVersion.induct)
  case (3 epoch v w vers)
  show ?case
  proof (cases "epoch < ve_StartEpoch w")
    case True
    with 3 have "filter (\<lambda>v. ve_StartEpoch v \<le> epoch) (w # vers) = []" by (auto simp: filter_empty_conv)
    with True 3 show ?thesis by (simp add: versionInForce_def)
  next
    case False
    then have "filter (\<lambda>v. ve_StartEpoch v \<le> epoch) (w # vers) \<noteq> []" by simp
    with False 3 show ?thesis by (simp add: versionInForce_def)
  qed
qed (simp_all add: versionInForce_def)

text \<open>
  A sequence of checks, each leaving the verifier with its cache to the next one. The cache is bounded: after a check it may
  have lost the entries of any epochs.
\<close>

definition evictVersions :: "int list \<Rightarrow> headerIntegrityVerifier \<Rightarrow> headerIntegrityVerifier" where
  "evictVersions epochs v = v\<lparr>hi_versionCache := \<lambda>e. if e \<in> set epochs then None else hi_versionCache v e\<rparr>"

fun verifyAll :: "(Block \<times> int list) list \<Rightarrow> headerIntegrityVerifier \<Rightarrow> headerIntegrityVerifier" where
  "verifyAll [] v = v"
| "verifyAll ((hdr, lost) # hdrs) v = verifyAll hdrs (evictVersions lost (fst (integrity_Verify hdr v)))"

definition versions_cached :: "headerIntegrityVerifier \<Rightarrow> bool" where
  "versions_cached v \<longleftrightarrow> (\<forall>e ver. hi_versionCache v e = Some ver \<longrightarrow> ver = searchVersion e (hi_versions v))"

lemma getMatchingVersion_cached:
  assumes "versions_cached v" "getMatchingVersion epoch v = (v', ver)"
  shows "ver = searchVersion epoch (hi_versions v)" "versions_cached v'" "hi_versions v' = hi_versions v"
    "hi_referenceChainID v' = hi_referenceChainID v"
  using assms by (auto simp: getMatchingVersion_def versions_cached_def Let_def split: option.splits if_splits)

lemma integrity_Verify_cached:
  assumes "versions_cached v"
  shows "versions_cached (fst (integrity_Verify hdr v)) \<and> hi_versions (fst (integrity_Verify hdr v)) = hi_versions v \<and>
    hi_referenceChainID (fst (integrity_Verify hdr v)) = hi_referenceChainID v"
    and "snd (integrity_Verify hdr v) = Inr () \<longleftrightarrow> GetReserved hdr = [] \<and> GetChainID hdr = hi_referenceChainID v \<and>
      checkVersionLength (GetSoftwareVersion hdr) = Inr () \<and>
      searchVersion (GetEpoch hdr) (hi_versions v) \<in> {wildcard, GetSoftwareVersion hdr}"
proof -
  obtain v' ver where m: "getMatchingVersion (GetEpoch hdr) v = (v', ver)" by fastforce
  note c = getMatchingVersion_cached [OF assms m]
  show "versions_cached (fst (integrity_Verify hdr v)) \<and> hi_versions (fst (integrity_Verify hdr v)) = hi_versions v \<and>
    hi_referenceChainID (fst (integrity_Verify hdr v)) = hi_referenceChainID v"
    using c assms by (simp add: integrity_Verify_def checkSoftwareVersion_def m split: sum.split)
  show "snd (integrity_Verify hdr v) = Inr () \<longleftrightarrow> GetReserved hdr = [] \<and> GetChainID hdr = hi_referenceChainID v \<and>
      checkVersionLength (GetSoftwareVersion hdr) = Inr () \<and>
      searchVersion (GetEpoch hdr) (hi_versions v) \<in> {wildcard, GetSoftwareVersion hdr}"
    using c by (auto simp: integrity_Verify_def checkSoftwareVersion_def m checkChainID_def split: sum.splits)
qed

lemma evictVersions_cached:
  "versions_cached v \<Longrightarrow> versions_cached (evictVersions lost v)" "hi_versions (evictVersions lost v) = hi_versions v"
  "hi_referenceChainID (evictVersions lost v) = hi_referenceChainID v"
  by (simp_all add: evictVersions_def versions_cached_def)

lemma verifyAll_cached:
  "versions_cached v \<Longrightarrow> versions_cached (verifyAll hdrs v) \<and> hi_versions (verifyAll hdrs v) = hi_versions v \<and>
    hi_referenceChainID (verifyAll hdrs v) = hi_referenceChainID v"
  by (induction hdrs v rule: verifyAll.induct) (simp_all add: integrity_Verify_cached(1) evictVersions_cached)

text \<open>
  C20: the integrity check does what the configuration says. A verifier that was created with an empty cache, after any checks,
  accepts a header exactly when its reserved field is empty, its chain is the configured one, its software version has between
  one and ten bytes, and the version in force in its epoch is the wildcard or that one; the cache of versions never changes
  the answer, whichever of its entries it has lost.
\<close>

theorem integrity_exact:
  assumes "NewHeaderIntegrityVerifier chainID vs defaultVersion Map.empty = Inr v" "0 \<le> GetEpoch hdr"
  shows "snd (integrity_Verify hdr (verifyAll hdrs v)) = Inr () \<longleftrightarrow> GetReserved hdr = [] \<and> GetChainID hdr = chainID \<and>
    1 \<le> length (GetSoftwareVersion hdr) \<and> length (GetSoftwareVersion hdr) \<le> 10 \<and>
    versionInForce (GetEpoch hdr) (sort_key ve_StartEpoch vs) \<in> {[42], GetSoftwareVersion hdr}"
proof -
  from assms(1) have v: "prepareVersions vs = Inr (hi_versions v)" "hi_referenceChainID v = chainID" "hi_versionCache v = Map.empty"
    by (auto simp: NewHeaderIntegrityVerifier_def bindE_Inr_iff split: if_splits)
  then have vs: "hi_versions v = sort_key ve_StartEpoch vs" by (auto simp: prepareVersions_def Let_def bindE_Inr_iff split: if_splits)
  have "searchVersion (GetEpoch hdr) (hi_versions v) = versionInForce (GetEpoch hdr) (sort_key ve_StartEpoch vs)"
    unfolding vs [symmetric] using prepareVersions_sorted [OF v(1)] assms(2) by (intro searchVersion_in_force) simp_all
  moreover have "versions_cached v" by (simp add: versions_cached_def v(3))
  ultimately show ?thesis
    using verifyAll_cached [of v hdrs] integrity_Verify_cached(2) [of "verifyAll hdrs v" hdr] v(2)
    by (auto simp: checkVersionLength_def errIf_def MaxSoftwareVersionLengthInBytes_def wildcard_def Suc_le_eq)
qed

definition demo_versions :: "VersionByEpochs list" where
  "demo_versions = [\<lparr>ve_StartEpoch = 3, ve_Version = [50]\<rparr>, \<lparr>ve_StartEpoch = 0, ve_Version = [42]\<rparr>]"

definition demo_integrity :: headerIntegrityVerifier where
  "demo_integrity = \<lparr>hi_referenceChainID = [1], hi_versions = rev demo_versions, hi_defaultVersion = [49], hi_versionCache = Map.empty\<rparr>"

definition demo_versioned :: Block where
  "demo_versioned = demo_block\<lparr>bl_Header := map_option (\<lambda>h. h\<lparr>bh_Epoch := 4, bh_SoftwareVersion := [50], bh_ChainID := [1], bh_Reserved := []\<rparr>)
     (bl_Header demo_block)\<rparr>"

theorem integrity_exact_witness:
  "snd (integrity_Verify demo_versioned (verifyAll [(demo_versioned, [4]), (demo_block, [])] demo_integrity)) = Inr ()"
proof -
  have "NewHeaderIntegrityVerifier [1] demo_versions [49] Map.empty = Inr demo_integrity"
    by (simp add: NewHeaderIntegrityVerifier_def prepareVersions_def demo_versions_def demo_integrity_def checkVersionLength_def
        MaxSoftwareVersionLengthInBytes_def)
  from integrity_exact [OF this, of demo_versioned "[(demo_versioned, [4]), (demo_block, [])]"] show ?thesis
    by (simp add: demo_versioned_def demo_block_def block_getters versionInForce_def demo_versions_def)
qed

end
