(* ===== verification/ConsensusMessage.thy ===== *)
theory ConsensusMessage
  imports SlotConsensusProps SafeConverter
begin

text \<open>
  The messages of the consensus topic (\<open>core/consensus/message.go\<close>), what the BLS consensus service says about their
  types (\<open>slot/bls/constants.go\<close>, \<open>slot/bls/blsWorker.go\<close>) and the validator every received message passes before
  anything acts on it (\<open>slot/consensusMessageValidator.go\<close>). A byte field the validator compares with nil is an
  option. The peer signature is checked by a parameter.
\<close>

section \<open>Messages\<close>

record Message =
  cm_BlockHeaderHash :: "bytes option"
  cm_SignatureShare :: "bytes option"
  cm_Header :: "bytes option"
  cm_PubKey :: bytes
  cm_Signature :: bytes
  cm_MsgType :: int
  cm_SlotIndex :: int
  cm_ChainID :: bytes
  cm_PubKeysBitmap :: "bytes option"
  cm_AggregateSignature :: "bytes option"
  cm_LeaderSignature :: "bytes option"
  cm_OriginatorPid :: bytes
  cm_Nonce :: int

definition SrStartSlot :: nat where "SrStartSlot = 0"
definition SrBlock :: nat where "SrBlock = 1"
definition SrSignature :: nat where "SrSignature = 2"
definition SrEndSlot :: nat where "SrEndSlot = 3"

lemmas sr_consts = SrStartSlot_def SrBlock_def SrSignature_def SrEndSlot_def

definition MtUnknown :: int where "MtUnknown = 0"
definition MtBlockHeader :: int where "MtBlockHeader = 1"
definition MtBlockBody :: int where "MtBlockBody = 2"
definition MtBlockBodyAndHeader :: int where "MtBlockBodyAndHeader = 3"
definition MtSignature :: int where "MtSignature = 4"
definition MtBlockHeaderFinalInfo :: int where "MtBlockHeaderFinalInfo = 5"

lemmas mt_consts = MtUnknown_def MtBlockHeader_def MtBlockBody_def MtBlockBodyAndHeader_def MtSignature_def MtBlockHeaderFinalInfo_def

definition NewConsensusMessage ::
  "bytes option \<Rightarrow> bytes option \<Rightarrow> bytes option \<Rightarrow> bytes \<Rightarrow> bytes \<Rightarrow> int \<Rightarrow> int \<Rightarrow> int \<Rightarrow> bytes \<Rightarrow>
     bytes option \<Rightarrow> bytes option \<Rightarrow> bytes option \<Rightarrow> bytes \<Rightarrow> Message"
where
  "NewConsensusMessage blHeaderHash signatureShare header pubKey sig msg slotIndex nonce chainID pubKeysBitmap
     aggregateSignature leaderSignature currentPid =
     \<lparr>cm_BlockHeaderHash = blHeaderHash, cm_SignatureShare = signatureShare, cm_Header = header, cm_PubKey = pubKey,
      cm_Signature = sig, cm_MsgType = msg, cm_SlotIndex = slotIndex, cm_ChainID = chainID, cm_PubKeysBitmap = pubKeysBitmap,
      cm_AggregateSignature = aggregateSignature, cm_LeaderSignature = leaderSignature, cm_OriginatorPid = currentPid,
      cm_Nonce = nonce\<rparr>"

section \<open>The consensus service\<close>

definition IsMessageWithBlockHeader :: "int \<Rightarrow> bool" where
  "IsMessageWithBlockHeader msgType \<longleftrightarrow> msgType = MtBlockHeader"

definition IsMessageWithSignature :: "int \<Rightarrow> bool" where
  "IsMessageWithSignature msgType \<longleftrightarrow> msgType = MtSignature"

definition IsMessageWithFinalInfo :: "int \<Rightarrow> bool" where
  "IsMessageWithFinalInfo msgType \<longleftrightarrow> msgType = MtBlockHeaderFinalInfo"

definition IsMessageTypeValid :: "int \<Rightarrow> bool" where
  "IsMessageTypeValid msgType \<longleftrightarrow> msgType = MtBlockHeader \<or> msgType = MtSignature \<or> msgType = MtBlockHeaderFinalInfo"

definition GetMessageRange :: "int list" where
  "GetMessageRange = [MtBlockHeader..MtBlockHeaderFinalInfo]"

definition CanProceed :: "int \<Rightarrow> ConsensusState \<Rightarrow> bool" where
  "CanProceed msgType cns =
     (if msgType = MtBlockHeader then IsSubslotFinished SrStartSlot cns
      else if msgType = MtSignature then IsSubslotFinished SrBlock cns
      else if msgType = MtBlockHeaderFinalInfo then IsSubslotFinished SrSignature cns
      else False)"

section \<open>The validator\<close>

datatype message_error =
  ErrInvalidChainID | ErrInvalidMessageType | ErrInvalidMessage | ErrInvalidHeaderSize | ErrInvalidSignatureSize
  | ErrInvalidPublicKeyBitmapSize | ErrInvalidHeaderHashSize | ErrInvalidPublicKeySize | ErrNodeIsNotInConsensusGroup
  | ErrMessageForFutureSlot | ErrMessageForPastSlot | ErrMessageTypeLimitReached | ErrInvalidSignature | ErrOriginatorMismatch

record consensusMessageValidator =
  mv_signatureSize :: nat
  mv_publicKeySize :: nat
  mv_publicKeyBitmapSize :: nat
  mv_hasherSize :: nat
  mv_chainID :: bytes
  mv_mapPkConsensusMessages :: "bytes \<rightharpoonup> (int \<rightharpoonup> int)"

definition MaxNumOfMessageTypeAccepted :: int where
  "MaxNumOfMessageTypeAccepted = 1"

definition MegabyteSize :: nat where
  "MegabyteSize = 1024 * 1024"

definition getPublicKeyBitmapSize :: "ConsensusState \<Rightarrow> nat" where
  "getPublicKeyBitmapSize cns = bitmapBytes (rc_consensusGroupSize (cs_slotConsensus cns))"

definition NewConsensusMessageValidator :: "ConsensusState \<Rightarrow> nat \<Rightarrow> nat \<Rightarrow> nat \<Rightarrow> bytes \<Rightarrow> consensusMessageValidator" where
  "NewConsensusMessageValidator cns signatureSize publicKeySize hasherSize chainID =
     \<lparr>mv_signatureSize = signatureSize, mv_publicKeySize = publicKeySize, mv_publicKeyBitmapSize = getPublicKeyBitmapSize cns,
      mv_hasherSize = hasherSize, mv_chainID = chainID, mv_mapPkConsensusMessages = Map.empty\<rparr>"

definition isBlockHeaderHashSizeValid :: "Message \<Rightarrow> consensusMessageValidator \<Rightarrow> bool" where
  "isBlockHeaderHashSizeValid cnsMsg cmv \<longleftrightarrow> length (bytesOf (cm_BlockHeaderHash cnsMsg)) = mv_hasherSize cmv"

definition checkMessageWithBlockHeaderValidity :: "Message \<Rightarrow> message_error + unit" where
  "checkMessageWithBlockHeaderValidity cnsMsg =
     (if cm_SignatureShare cnsMsg \<noteq> None \<or> cm_PubKeysBitmap cnsMsg \<noteq> None \<or> cm_AggregateSignature cnsMsg \<noteq> None
         \<or> cm_LeaderSignature cnsMsg \<noteq> None
      then Inl ErrInvalidMessage
      else
        let headerLen = length (bytesOf (cm_Header cnsMsg)) in
        errIf (headerLen = 0 \<or> headerLen > MegabyteSize) ErrInvalidHeaderSize)"

definition checkMessageWithSignatureValidity :: "Message \<Rightarrow> consensusMessageValidator \<Rightarrow> message_error + unit" where
  "checkMessageWithSignatureValidity cnsMsg cmv =
     (if cm_Header cnsMsg \<noteq> None \<or> cm_PubKeysBitmap cnsMsg \<noteq> None \<or> cm_AggregateSignature cnsMsg \<noteq> None
         \<or> cm_LeaderSignature cnsMsg \<noteq> None
      then Inl ErrInvalidMessage
      else errIf (length (bytesOf (cm_SignatureShare cnsMsg)) \<noteq> mv_signatureSize cmv) ErrInvalidSignatureSize)"

definition checkMessageWithFinalInfoValidity ::
  "ConsensusState \<Rightarrow> Message \<Rightarrow> consensusMessageValidator \<Rightarrow> message_error + unit"
where
  "checkMessageWithFinalInfoValidity cns cnsMsg cmv =
     (if cm_Header cnsMsg \<noteq> None \<or> cm_SignatureShare cnsMsg \<noteq> None then Inl ErrInvalidMessage
      else if length (bytesOf (cm_PubKeysBitmap cnsMsg)) \<noteq> mv_publicKeyBitmapSize cmv then Inl ErrInvalidPublicKeyBitmapSize
      else if HasPaddingBitsSet (bytesOf (cm_PubKeysBitmap cnsMsg)) (rc_consensusGroupSize (cs_slotConsensus cns))
      then Inl ErrInvalidPublicKeyBitmapSize
      else if length (bytesOf (cm_AggregateSignature cnsMsg)) \<noteq> mv_signatureSize cmv then Inl ErrInvalidSignatureSize
      else errIf (length (bytesOf (cm_LeaderSignature cnsMsg)) \<noteq> mv_signatureSize cmv) ErrInvalidSignatureSize)"

definition checkConsensusMessageValidityForMessageType ::
  "ConsensusState \<Rightarrow> Message \<Rightarrow> consensusMessageValidator \<Rightarrow> message_error + unit"
where
  "checkConsensusMessageValidityForMessageType cns cnsMsg cmv =
     (let msgType = cm_MsgType cnsMsg in
      if IsMessageWithBlockHeader msgType then checkMessageWithBlockHeaderValidity cnsMsg
      else if IsMessageWithSignature msgType then checkMessageWithSignatureValidity cnsMsg cmv
      else if IsMessageWithFinalInfo msgType then checkMessageWithFinalInfoValidity cns cnsMsg cmv
      else Inl ErrInvalidMessageType)"

text \<open>The key of the counters, \<open>"%s_%d"\<close> of the public key and the slot.\<close>

definition limitKey :: "bytes \<Rightarrow> int \<Rightarrow> bytes" where
  "limitKey pk slot = pk @ [95] @ FormatInt slot"

definition isMessageTypeLimitReached :: "bytes \<Rightarrow> int \<Rightarrow> int \<Rightarrow> consensusMessageValidator \<Rightarrow> bool" where
  "isMessageTypeLimitReached pk slot msgType cmv =
     (case mv_mapPkConsensusMessages cmv (limitKey pk slot) of
        None \<Rightarrow> False
      | Some mapMsgType \<Rightarrow> (case mapMsgType msgType of None \<Rightarrow> False | Some n \<Rightarrow> n \<ge> MaxNumOfMessageTypeAccepted))"

definition addMessageTypeToPublicKey :: "bytes \<Rightarrow> int \<Rightarrow> int \<Rightarrow> consensusMessageValidator \<Rightarrow> consensusMessageValidator" where
  "addMessageTypeToPublicKey pk slot msgType cmv =
     (let key = limitKey pk slot;
          mapMsgType = (case mv_mapPkConsensusMessages cmv key of None \<Rightarrow> Map.empty | Some m \<Rightarrow> m);
          n = (case mapMsgType msgType of None \<Rightarrow> 0 | Some n \<Rightarrow> n) in
      cmv\<lparr>mv_mapPkConsensusMessages := (mv_mapPkConsensusMessages cmv)(key \<mapsto> mapMsgType(msgType \<mapsto> u32 (n + 1)))\<rparr>)"

definition resetConsensusMessages :: "consensusMessageValidator \<Rightarrow> consensusMessageValidator" where
  "resetConsensusMessages cmv = cmv\<lparr>mv_mapPkConsensusMessages := Map.empty\<rparr>"

text \<open>
  The check reads the counters under one lock and writes them later under another, with the verification of the peer
  signature in between, while other messages are being validated: \<open>seen\<close> is the validator when the limit was looked up, \<open>cmv\<close> the
  validator when the message is counted.
\<close>

definition checkConsensusMessageValidity ::
  "(bytes \<Rightarrow> bytes \<Rightarrow> bytes \<Rightarrow> bool) \<Rightarrow> ConsensusState \<Rightarrow> Message \<Rightarrow> bytes \<Rightarrow> consensusMessageValidator \<Rightarrow>
     consensusMessageValidator \<Rightarrow> consensusMessageValidator \<times> (message_error + unit)"
where
  "checkConsensusMessageValidity verifyPeerSignature cns cnsMsg originator seen cmv =
     (if cm_ChainID cnsMsg \<noteq> mv_chainID cmv then (cmv, Inl ErrInvalidChainID)
      else case checkConsensusMessageValidityForMessageType cns cnsMsg cmv of
        Inl e \<Rightarrow> (cmv, Inl e)
      | Inr _ \<Rightarrow>
        if \<not> isBlockHeaderHashSizeValid cnsMsg cmv then (cmv, Inl ErrInvalidHeaderHashSize)
        else if length (cm_PubKey cnsMsg) \<noteq> mv_publicKeySize cmv then (cmv, Inl ErrInvalidPublicKeySize)
        else if length (cm_Signature cnsMsg) \<noteq> mv_signatureSize cmv then (cmv, Inl ErrInvalidSignatureSize)
        else if \<not> IsNodeInConsensusGroup (cm_PubKey cnsMsg) (cs_slotConsensus cns) then (cmv, Inl ErrNodeIsNotInConsensusGroup)
        else if i64 (cs_SlotIndex cns + 1) < cm_SlotIndex cnsMsg then (cmv, Inl ErrMessageForFutureSlot)
        else if cs_SlotIndex cns > cm_SlotIndex cnsMsg then (cmv, Inl ErrMessageForPastSlot)
        else if isMessageTypeLimitReached (cm_PubKey cnsMsg) (cm_SlotIndex cnsMsg) (cm_MsgType cnsMsg) seen
        then (cmv, Inl ErrMessageTypeLimitReached)
        else if \<not> verifyPeerSignature (cm_PubKey cnsMsg) (cm_OriginatorPid cnsMsg) (cm_Signature cnsMsg)
        then (cmv, Inl ErrInvalidSignature)
        else if cm_OriginatorPid cnsMsg \<noteq> originator then (cmv, Inl ErrOriginatorMismatch)
        else (addMessageTypeToPublicKey (cm_PubKey cnsMsg) (cm_SlotIndex cnsMsg) (cm_MsgType cnsMsg) cmv, Inr ()))"

section \<open>The limit per member, slot and type\<close>

text \<open>
  Validations that overlap: \<open>Begin\<close> starts one, unless \<open>workers\<close> are running, and looks up the limit; \<open>Finish i\<close> ends the
  one at position \<open>i\<close> and counts its message if it is accepted.
\<close>

datatype validation_event = Begin ConsensusState Message bytes | Finish nat

record validations =
  va_cmv :: consensusMessageValidator
  va_running :: "(consensusMessageValidator \<times> ConsensusState \<times> Message \<times> bytes) list"
  va_accepted :: "Message list"

fun validationStep ::
  "(bytes \<Rightarrow> bytes \<Rightarrow> bytes \<Rightarrow> bool) \<Rightarrow> nat \<Rightarrow> validation_event \<Rightarrow> validations \<Rightarrow> validations"
where
  "validationStep v workers (Begin cns m originator) st =
     (if length (va_running st) < workers
      then st\<lparr>va_running := va_running st @ [(va_cmv st, cns, m, originator)]\<rparr> else st)"
| "validationStep v workers (Finish i) st =
     (if i < length (va_running st)
      then case va_running st ! i of (seen, cns, m, originator) \<Rightarrow>
        let rest = take i (va_running st) @ drop (Suc i) (va_running st) in
        case checkConsensusMessageValidity v cns m originator seen (va_cmv st) of
          (cmv, Inl _) \<Rightarrow> st\<lparr>va_cmv := cmv, va_running := rest\<rparr>
        | (cmv, Inr _) \<Rightarrow> st\<lparr>va_cmv := cmv, va_running := rest, va_accepted := m # va_accepted st\<rparr>
      else st)"

definition validateAll ::
  "(bytes \<Rightarrow> bytes \<Rightarrow> bytes \<Rightarrow> bool) \<Rightarrow> nat \<Rightarrow> validation_event list \<Rightarrow> validations \<Rightarrow> validations"
where
  "validateAll v workers evs st = fold (validationStep v workers) evs st"

definition msgId :: "Message \<Rightarrow> bytes \<times> int \<times> int" where
  "msgId m = (cm_PubKey m, cm_SlotIndex m, cm_MsgType m)"

text \<open>The counter of a message and its value in a validator.\<close>

definition counterOf :: "Message \<Rightarrow> bytes \<times> int" where
  "counterOf m = (limitKey (cm_PubKey m) (cm_SlotIndex m), cm_MsgType m)"

definition counted :: "bytes \<times> int \<Rightarrow> consensusMessageValidator \<Rightarrow> int" where
  "counted c cmv = (case mv_mapPkConsensusMessages cmv (fst c) of
     None \<Rightarrow> 0 | Some m \<Rightarrow> (case m (snd c) of None \<Rightarrow> 0 | Some n \<Rightarrow> n))"

lemma limit_counted: "isMessageTypeLimitReached (cm_PubKey m) (cm_SlotIndex m) (cm_MsgType m) cmv \<longleftrightarrow> 1 \<le> counted (counterOf m) cmv"
  by (auto simp: isMessageTypeLimitReached_def counted_def counterOf_def MaxNumOfMessageTypeAccepted_def split: option.splits)

lemma counted_add:
  "counted c (addMessageTypeToPublicKey (cm_PubKey m) (cm_SlotIndex m) (cm_MsgType m) cmv) =
     (if c = counterOf m then u32 (counted c cmv + 1) else counted c cmv)"
  by (cases c) (auto simp: counted_def counterOf_def addMessageTypeToPublicKey_def Let_def split: option.splits)

lemma check_cases:
  "checkConsensusMessageValidity v cns m originator seen cmv = (cmv', r) \<Longrightarrow>
     (r = Inr () \<and> counted (counterOf m) seen < 1 \<and>
       cmv' = addMessageTypeToPublicKey (cm_PubKey m) (cm_SlotIndex m) (cm_MsgType m) cmv) \<or> (\<exists>e. r = Inl e \<and> cmv' = cmv)"
  by (cases r; cases "checkConsensusMessageValidityForMessageType cns m cmv")
    (auto simp: checkConsensusMessageValidity_def limit_counted split: if_splits)

text \<open>
  For a counter: the messages accepted, and the validations running that have passed the limit or will. Once a message
  is counted no new validation passes, so that the sum no longer grows.
\<close>

definition acceptedFor :: "bytes \<times> int \<Rightarrow> validations \<Rightarrow> nat" where
  "acceptedFor c st = length (filter (\<lambda>m. counterOf m = c) (va_accepted st))"

definition passes :: "bytes \<times> int \<Rightarrow> consensusMessageValidator \<times> ConsensusState \<times> Message \<times> bytes \<Rightarrow> bool" where
  "passes c = (\<lambda>(seen, cns, m, originator). counterOf m = c \<and> counted c seen < 1)"

definition passing :: "bytes \<times> int \<Rightarrow> validations \<Rightarrow> nat" where
  "passing c st = length (filter (passes c) (va_running st))"

definition limit_inv :: "nat \<Rightarrow> bytes \<times> int \<Rightarrow> validations \<Rightarrow> bool" where
  "limit_inv workers c st \<longleftrightarrow> length (va_running st) \<le> workers \<and> counted c (va_cmv st) = int (acceptedFor c st) \<and>
     (acceptedFor c st = 0 \<or> acceptedFor c st + passing c st \<le> workers)"

lemma passing_bound: "passing c st \<le> length (va_running st)"
  by (simp add: passing_def)

lemma filter_remove_nth:
  assumes "i < length xs"
  shows "length (filter P xs) = length (filter P (take i xs @ drop (Suc i) xs)) + (if P (xs ! i) then 1 else 0)"
  by (subst id_take_nth_drop [OF assms]) simp

lemma validationStep_inv:
  assumes inv: "limit_inv workers c st" and "int workers < 4294967296"
  shows "limit_inv workers c (validationStep v workers ev st)"
proof (cases ev)
  case (Begin cns m originator)
  then show ?thesis
    using inv passing_bound [of c st] by (auto simp: limit_inv_def acceptedFor_def passing_def passes_def)
next
  case (Finish i)
  show ?thesis
  proof (cases "i < length (va_running st)")
    case i: True
    obtain seen cns m originator where run: "va_running st ! i = (seen, cns, m, originator)" by (metis prod_cases4)
    let ?rest = "take i (va_running st) @ drop (Suc i) (va_running st)"
    obtain cmv r where chk: "checkConsensusMessageValidity v cns m originator seen (va_cmv st) = (cmv, r)" by fastforce
    have len: "length ?rest < length (va_running st)" using i by simp
    have pass: "passing c st = length (filter (passes c) ?rest) + (if counterOf m = c \<and> counted c seen < 1 then 1 else 0)"
      using filter_remove_nth [OF i, of "passes c"] by (simp add: passing_def run passes_def)
    from check_cases [OF chk] show ?thesis
    proof (elim disjE conjE exE)
      fix e
      assume "r = Inl e" "cmv = va_cmv st"
      then show ?thesis
        using inv i len pass Finish run chk by (auto simp: limit_inv_def acceptedFor_def passing_def)
    next
      assume r: "r = Inr ()" "counted (counterOf m) seen < 1"
        "cmv = addMessageTypeToPublicKey (cm_PubKey m) (cm_SlotIndex m) (cm_MsgType m) (va_cmv st)"
      have st': "validationStep v workers ev st = st\<lparr>va_cmv := cmv, va_running := ?rest, va_accepted := m # va_accepted st\<rparr>"
        using i Finish run chk r(1) by simp
      show ?thesis
      proof (cases "counterOf m = c")
        case True
        then have "passing c st = Suc (length (filter (passes c) ?rest))" using pass r(2) by simp
        then show ?thesis
          using inv passing_bound [of c st] assms(2) len True unfolding st'
          by (auto simp: limit_inv_def acceptedFor_def passing_def r(3) counted_add u32_def)
      next
        case False
        then show ?thesis
          using inv len pass unfolding st' by (auto simp: limit_inv_def acceptedFor_def passing_def r(3) counted_add)
      qed
    qed
  qed (use inv Finish in simp)
qed

text \<open>
  C19: between two resets the validator accepts at most as many messages of a type from a member in a slot as validations
  run at once, in whatever order they start and end and in whatever states and from whatever peers the messages arrive, and also
  when validations were running at the reset. Messages validated one after another are thus accepted once; since the limit is
  looked up and counted under separate locks, messages that overlap can all be accepted.
\<close>

theorem message_limit:
  assumes "int workers < 4294967296" and "length running \<le> workers"
  shows "length (filter (\<lambda>m. msgId m = i)
    (va_accepted (validateAll v workers evs \<lparr>va_cmv = resetConsensusMessages cmv, va_running = running, va_accepted = []\<rparr>))) \<le> workers"
proof -
  let ?st = "\<lparr>va_cmv = resetConsensusMessages cmv, va_running = running, va_accepted = []\<rparr>"
  let ?c = "case i of (pk, slot, t) \<Rightarrow> (limitKey pk slot, t)"
  have "limit_inv workers ?c ?st"
    using assms(2) by (simp add: limit_inv_def acceptedFor_def counted_def resetConsensusMessages_def)
  then have "limit_inv workers ?c (fold (validationStep v workers) evs st)" if "st = ?st" for st
    unfolding that by (induction evs rule: rev_induct) (simp_all add: validationStep_inv [OF _ assms(1)] del: validationStep.simps)
  then have "acceptedFor ?c (validateAll v workers evs ?st) \<le> workers"
    by (auto simp: validateAll_def limit_inv_def)
  moreover have "length (filter (\<lambda>m. msgId m = i) ms) \<le> length (filter (\<lambda>m. counterOf m = ?c) ms)" for ms
    by (induction ms) (auto simp: msgId_def counterOf_def)
  ultimately show ?thesis unfolding acceptedFor_def by (meson le_trans)
qed

definition demo_state :: ConsensusState where
  "demo_state = NewConsensusState 0 (SetConsensusGroup [[1], [2]] (NewSlotConsensus {} 2 [1])) NewSlotThreshold NewSlotStatus"

definition demo_message :: Message where
  "demo_message = NewConsensusMessage (Some [7]) (Some [8]) None [2] [9] MtSignature 0 1 [5] None None None [6]"

definition demo_validations :: validations where
  "demo_validations = \<lparr>va_cmv = resetConsensusMessages (NewConsensusMessageValidator demo_state 1 1 1 [5]), va_running = [], va_accepted = []\<rparr>"

abbreviation demo_begin :: validation_event where
  "demo_begin \<equiv> Begin demo_state demo_message [6]"

lemmas demo_message_eval = demo_state_def demo_message_def NewConsensusMessage_def NewConsensusMessageValidator_def resetConsensusMessages_def
    checkConsensusMessageValidity_def checkConsensusMessageValidityForMessageType_def checkMessageWithSignatureValidity_def
    IsMessageWithBlockHeader_def IsMessageWithSignature_def mt_consts isBlockHeaderHashSizeValid_def bytesOf_def errIf_def
    NewConsensusState_def ResetConsensusState_def resetSlot_def resetSlotStateLocked_def SetConsensusGroup_def ResetSlotState_def
    IsNodeInConsensusGroup_def isMessageTypeLimitReached_def addMessageTypeToPublicKey_def i64_def u32_def
    MaxNumOfMessageTypeAccepted_def Let_def demo_validations_def validateAll_def

text \<open>A message that is sent twice is accepted once when the validations follow each other, and twice when they overlap.\<close>

theorem message_limit_witness:
  "length (filter (\<lambda>m. msgId m = msgId demo_message)
      (va_accepted (validateAll (\<lambda>_ _ _. True) 1 [demo_begin, Finish 0, demo_begin, Finish 0] demo_validations))) \<le> 1 \<and>
   va_accepted (validateAll (\<lambda>_ _ _. True) 1 [demo_begin, Finish 0, demo_begin, Finish 0] demo_validations) = [demo_message] \<and>
   va_accepted (validateAll (\<lambda>_ _ _. True) 2 [demo_begin, demo_begin, Finish 0, Finish 0] demo_validations) = [demo_message, demo_message]"
proof (intro conjI)
  show "length (filter (\<lambda>m. msgId m = msgId demo_message)
      (va_accepted (validateAll (\<lambda>_ _ _. True) 1 [demo_begin, Finish 0, demo_begin, Finish 0] demo_validations))) \<le> 1"
    unfolding demo_validations_def by (rule message_limit) simp_all
qed (simp_all add: demo_message_eval)

end
