(* ===== verification/ConsensusBls.thy ===== *)
theory ConsensusBls
  imports HeaderCheckProps ConsensusMessage
begin

text \<open>
  The four subslots of the BLS consensus (\<open>core/consensus/slot/bls\<close>): the job, the check and the message handler of
  each, as functions on the state of a node. What a handler asks of the components around the consensus - the block
  processor, the codec, the clock, the network, the signer of single messages - is the record \<open>Env\<close>; what it asks them to
  do is an entry of the log. A handler runs as one step.
\<close>

section \<open>The node and its environment\<close>

datatype event =
  EvBroadcast Message | EvBroadcastBlock Block | EvBroadcastBlockData Block | EvPrepareBlockData "Block option" | EvPrepareHeader Block
  | EvPropose Block | EvProcess Block bool | EvSign bytes | EvCommit Block bool | EvScore bytes int | EvRevert "Block option"

text \<open>
  The slot index of the chronology is \<open>nd_Index\<close>. The log holds the newest entry first, each with the slot index at which
  it was made.
\<close>

record ('pk, 'sk) Node =
  nd_cs :: ConsensusState
  nd_ms :: "('pk, 'sk) blsMultiSigData"
  nd_mv :: consensusMessageValidator
  nd_Index :: int
  nd_log :: "(int \<times> event) list"

record ('pk, 'sk) Env =
  ev_Timestamp :: int
  ev_TimestampUnix :: int
  ev_IndexAfterProcess :: int
  ev_outOfTime :: bool
  ev_synchronized :: bool
  ev_redundancyMainActive :: bool
  ev_FixAuditChangesV4 :: bool
  ev_hv :: "('pk, 'sk) HeaderSigVerifier"
  ev_IntegrityVerify :: "Block \<Rightarrow> bool"
  ev_marshalBlock :: "Block \<Rightarrow> bytes option"
  ev_DecodeBlockHeader :: "bytes \<Rightarrow> Block option"
  ev_CreateBlock :: "Block \<Rightarrow> Block option"
  ev_ProcessBlock :: "Block \<Rightarrow> bool"
  ev_CommitBlock :: "Block \<Rightarrow> bool"
  ev_Marshalized :: "Block option \<Rightarrow> bool"
  ev_Sign :: "bytes \<Rightarrow> bytes option"
  ev_Broadcast :: "Message \<Rightarrow> bool"
  ev_CurrentBlockHeader :: "Block option"
  ev_CurrentBlockHeaderHash :: bytes
  ev_GenesisHeader :: "Block option"
  ev_GenesisHeaderHash :: bytes
  ev_ChainID :: bytes
  ev_Pid :: bytes

definition logE :: "event \<Rightarrow> ('pk, 'sk) Node \<Rightarrow> ('pk, 'sk) Node" where
  "logE e nd = nd\<lparr>nd_log := (nd_Index nd, e) # nd_log nd\<rparr>"

definition updCs :: "(ConsensusState \<Rightarrow> ConsensusState) \<Rightarrow> ('pk, 'sk) Node \<Rightarrow> ('pk, 'sk) Node" where
  "updCs f nd = nd\<lparr>nd_cs := f (nd_cs nd)\<rparr>"

definition setJob :: "bytes \<Rightarrow> nat \<Rightarrow> ('pk, 'sk) Node \<Rightarrow> ('pk, 'sk) Node \<times> bool" where
  "setJob node subslotId nd =
     (case SetJobDone node subslotId True (cs_slotConsensus (nd_cs nd)) of
        Inl _ \<Rightarrow> (nd, False)
      | Inr rcns \<Rightarrow> (updCs (\<lambda>cns. cns\<lparr>cs_slotConsensus := rcns\<rparr>) nd, True))"

abbreviation selfKey :: "('pk, 'sk) Node \<Rightarrow> bytes" where
  "selfKey nd \<equiv> rc_selfPubKey (cs_slotConsensus (nd_cs nd))"

definition LeaderPeerHonestyIncreaseFactor :: int where "LeaderPeerHonestyIncreaseFactor = 2"
definition ValidatorPeerHonestyIncreaseFactor :: int where "ValidatorPeerHonestyIncreaseFactor = 1"
definition LeaderPeerHonestyDecreaseFactor :: int where "LeaderPeerHonestyDecreaseFactor = - 4"
definition ValidatorPeerHonestyDecreaseFactor :: int where "ValidatorPeerHonestyDecreaseFactor = - 2"

text \<open>\<open>factory.initConsensusThreshold\<close>.\<close>

definition initConsensusThreshold :: "ConsensusState \<Rightarrow> ConsensusState" where
  "initConsensusThreshold cns =
     (let pBFTThreshold = GetPBFTThreshold (rc_consensusGroupSize (cs_slotConsensus cns));
          pBFTFallbackThreshold = GetPBFTFallbackThreshold (rc_consensusGroupSize (cs_slotConsensus cns)) in
      cns\<lparr>cs_slotThreshold :=
        SetFallbackThreshold SrSignature pBFTFallbackThreshold (SetFallbackThreshold SrBlock 1
          (SetThreshold SrSignature pBFTThreshold (SetThreshold SrBlock 1 (cs_slotThreshold cns))))\<rparr>)"

section \<open>Start of the slot\<close>

definition doStartSlotJob :: "('pk, 'sk) Env \<Rightarrow> ('pk, 'sk) Node \<Rightarrow> ('pk, 'sk) Node \<times> bool" where
  "doStartSlotJob env nd =
     ((updCs (BeginNewSlot (nd_Index nd) (ev_Timestamp env)) nd)\<lparr>nd_mv := resetConsensusMessages (nd_mv nd)\<rparr>, True)"

definition GetNextConsensusGroup :: "('pk, 'sk) Env \<Rightarrow> bytes \<Rightarrow> int \<Rightarrow> int \<Rightarrow> bytes list option" where
  "GetNextConsensusGroup env randomSource slot epoch = hv_ComputeConsensusGroup (ev_hv env) randomSource slot epoch"

definition generateNextConsensusGroup :: "('pk, 'sk) Env \<Rightarrow> ('pk, 'sk) Node \<Rightarrow> ('pk, 'sk) Node \<times> bool" where
  "generateNextConsensusGroup env nd =
     (case (case ev_CurrentBlockHeader env of Some h \<Rightarrow> Some h | None \<Rightarrow> ev_GenesisHeader env) of
        None \<Rightarrow> (nd, False)
      | Some currentHeader \<Rightarrow>
        case GetNextConsensusGroup env (GetRandSeed currentHeader) (SafeI64ToU64 (cs_SlotIndex (nd_cs nd))) (GetEpoch currentHeader) of
          None \<Rightarrow> (nd, False)
        | Some nextConsensusGroup \<Rightarrow>
          (updCs (\<lambda>cns. cns\<lparr>cs_slotConsensus := SetConsensusGroup nextConsensusGroup (cs_slotConsensus cns)\<rparr>) nd, True))"

definition cancelSlot :: "('pk, 'sk) Node \<Rightarrow> ('pk, 'sk) Node \<times> bool" where
  "cancelSlot nd = (updCs (SetSlotCanceled True) nd, False)"

text \<open>The multi-signer of a member is reset for its group; a node outside the group keeps its own.\<close>

definition resetMultiSigner :: "('pk, 'sk) Env \<Rightarrow> ('pk, 'sk) Node \<Rightarrow> ('pk, 'sk) Node \<times> bool" where
  "resetMultiSigner env nd =
     (case SelfConsensusGroupIndex (cs_slotConsensus (nd_cs nd)) of
        Inl _ \<Rightarrow> (nd, True)
      | Inr selfIndex \<Rightarrow>
        case bms_Reset (hv_ll (ev_hv env)) (rc_consensusGroup (cs_slotConsensus (nd_cs nd))) (u16 selfIndex) (nd_ms nd) of
          Inl _ \<Rightarrow> (nd, False)
        | Inr ms \<Rightarrow> (nd\<lparr>nd_ms := ms\<rparr>, True))"

definition initCurrentSlot :: "('pk, 'sk) Env \<Rightarrow> ('pk, 'sk) Node \<Rightarrow> ('pk, 'sk) Node \<times> bool" where
  "initCurrentSlot env nd =
     (if \<not> ev_synchronized env then (nd, False)
      else case generateNextConsensusGroup env nd of
        (nd1, False) \<Rightarrow> cancelSlot nd1
      | (nd1, True) \<Rightarrow>
        if ev_redundancyMainActive env then (nd1, False)
        else case GetLeader (nd_cs nd1) of
          Inl _ \<Rightarrow> cancelSlot nd1
        | Inr leader \<Rightarrow>
          case resetMultiSigner env nd1 of
            (nd2, False) \<Rightarrow> cancelSlot nd2
          | (nd2, True) \<Rightarrow>
            if ev_outOfTime env then cancelSlot nd2
            else (updCs (SetStatus SrStartSlot SsFinished) nd2, True))"

definition doStartSlotConsensusCheck :: "('pk, 'sk) Env \<Rightarrow> ('pk, 'sk) Node \<Rightarrow> ('pk, 'sk) Node \<times> bool" where
  "doStartSlotConsensusCheck env nd =
     (if cs_SlotCanceled (nd_cs nd) then (nd, False)
      else if IsSubslotFinished SrStartSlot (nd_cs nd) then (nd, True)
      else initCurrentSlot env nd)"

section \<open>Block\<close>

text \<open>\<open>metaProcessor.CreateNewHeader\<close>: every field but the slot and the nonce has its zero value.\<close>

definition CreateNewHeader :: "int \<Rightarrow> int \<Rightarrow> Block" where
  "CreateNewHeader slot nonce =
     \<lparr>bl_Header = Some \<lparr>bh_Nonce = nonce, bh_ParentHash = [], bh_Timestamp = 0, bh_Slot = slot, bh_Epoch = 0, bh_IsEpochStart = False,
        bh_PrevEpochStartSlot = 0, bh_TxRootHash = None, bh_TrieRoot = [], bh_ValidatorsTrieRoot = [], bh_KAppsTrieRoot = [],
        bh_PrevRandSeed = [], bh_RandSeed = [], bh_TxCount = 0, bh_TxFees = 0, bh_TxBurnedFees = 0, bh_KAppFees = 0,
        bh_BlockRewards = 0, bh_StakingRewards = 0, bh_SoftwareVersion = [], bh_ChainID = [], bh_BurnedUnclaimed = 0,
        bh_Reserved = []\<rparr>,
      bl_TxHashes = [], bl_ProducerSignature = [], bl_PubKeysBitmap = [], bl_Signature = [], bl_TxResults = []\<rparr>"

text \<open>\<open>None\<close> is the error of the signer; the panic of a missing genesis header too.\<close>

definition createHeader :: "('pk, 'sk) Env \<Rightarrow> ('pk, 'sk) Node \<Rightarrow> Block option" where
  "createHeader env nd =
     (case (case ev_CurrentBlockHeader env of
              None \<Rightarrow> map_option (\<lambda>g. (u64 (GetNonce g + 1), ev_GenesisHeaderHash env, GetRandSeed g)) (ev_GenesisHeader env)
            | Some currentHeader \<Rightarrow>
              Some (u64 (GetNonce currentHeader + 1), ev_CurrentBlockHeaderHash env, GetRandSeed currentHeader)) of
        None \<Rightarrow> None
      | Some (nonce, prevHash, prevRandSeed) \<Rightarrow>
        Option.bind (SetParentHash prevHash (CreateNewHeader (SafeI64ToU64 (nd_Index nd)) nonce)) (\<lambda>hdr.
        Option.bind (ev_Sign env prevRandSeed) (\<lambda>randSeed.
        Option.bind (SetTimestamp (ev_TimestampUnix env) hdr) (\<lambda>hdr.
        Option.bind (SetPrevRandSeed prevRandSeed hdr) (\<lambda>hdr.
        Option.bind (SetRandSeed randSeed hdr) (SetChainID (ev_ChainID env)))))))"

definition sendBlockHeader ::
  "('pk, 'sk) Env \<Rightarrow> Block \<Rightarrow> bytes \<Rightarrow> bytes \<Rightarrow> ('pk, 'sk) Node \<Rightarrow> ('pk, 'sk) Node \<times> bool"
where
  "sendBlockHeader env header headerHash marshalizedHeader nd =
     (let cnsMsg = NewConsensusMessage (Some headerHash) None (Some marshalizedHeader) (selfKey nd) [] MtBlockHeader (nd_Index nd)
        (GetNonce header) (ev_ChainID env) None None None (ev_Pid env) in
      if \<not> ev_Broadcast env cnsMsg then (nd, False)
      else (logE (EvPropose header)
             (updCs (\<lambda>cns. cns\<lparr>cs_Data := Some headerHash, cs_Header := Some header\<rparr>) (logE (EvBroadcast cnsMsg) nd)), True))"

definition sendBlock :: "('pk, 'sk) Env \<Rightarrow> Block \<Rightarrow> ('pk, 'sk) Node \<Rightarrow> ('pk, 'sk) Node \<times> bool" where
  "sendBlock env header nd =
     (case CalculateHash (hv_marshal (ev_hv env)) (hv_hasher (ev_hv env)) (bl_Header header) of
        None \<Rightarrow> (nd, False)
      | Some headerHash \<Rightarrow>
        case ev_marshalBlock env header of
          None \<Rightarrow> (nd, False)
        | Some marshalizedData \<Rightarrow> sendBlockHeader env header headerHash marshalizedData nd)"

definition getSlotInLastCommittedBlock :: "('pk, 'sk) Env \<Rightarrow> int" where
  "getSlotInLastCommittedBlock env =
     (case ev_CurrentBlockHeader env of None \<Rightarrow> 0 | Some currentHeader \<Rightarrow> SafeU64ToI64 (GetSlot currentHeader))"

definition doBlockJob :: "('pk, 'sk) Env \<Rightarrow> ('pk, 'sk) Node \<Rightarrow> ('pk, 'sk) Node \<times> bool" where
  "doBlockJob env nd =
     (if \<not> IsSelfLeaderInCurrentSlot (nd_cs nd) then (nd, False)
      else if nd_Index nd \<le> getSlotInLastCommittedBlock env then (nd, False)
      else if IsSelfJobDone SrBlock (nd_cs nd) then (nd, False)
      else if IsSubslotFinished SrBlock (nd_cs nd) then (nd, False)
      else case createHeader env nd of
        None \<Rightarrow> (nd, False)
      | Some header \<Rightarrow>
        case ev_CreateBlock env header of
          None \<Rightarrow> (nd, False)
        | Some finalHeader \<Rightarrow>
          case sendBlock env finalHeader nd of
            (nd1, False) \<Rightarrow> (nd1, False)
          | (nd1, True) \<Rightarrow> setJob (selfKey nd1) SrBlock nd1)"

definition isHeaderSlotBoundToMessage :: "('pk, 'sk) Env \<Rightarrow> Block \<Rightarrow> Message \<Rightarrow> bool" where
  "isHeaderSlotBoundToMessage env header cnsDta =
     (if \<not> ev_FixAuditChangesV4 env then True else GetSlot header = SafeI64ToU64 (cm_SlotIndex cnsDta))"

text \<open>The part of \<open>processReceivedBlock\<close> between the acquisition and the release of the guard.\<close>

definition processGuarded :: "('pk, 'sk) Env \<Rightarrow> Message \<Rightarrow> Block \<Rightarrow> ('pk, 'sk) Node \<Rightarrow> ('pk, 'sk) Node \<times> bool" where
  "processGuarded env cnsDta header nd =
     (if cs_ExtendedCalled (nd_cs nd) \<or> cm_SlotIndex cnsDta < nd_Index nd then (nd, False)
      else
        let ok = ev_ProcessBlock env header;
            nd1 = logE (EvProcess header ok) nd in
        if cm_SlotIndex cnsDta < ev_IndexAfterProcess env then (nd1, False)
        else if \<not> ok then cancelSlot nd1
        else setJob (cm_PubKey cnsDta) SrBlock nd1)"

definition guarded :: "int \<Rightarrow> (('pk, 'sk) Node \<Rightarrow> ('pk, 'sk) Node \<times> bool) \<Rightarrow> ('pk, 'sk) Node \<Rightarrow> ('pk, 'sk) Node \<times> bool" where
  "guarded spawnSlot body nd =
     (case AcquireProcessingBlock spawnSlot (nd_cs nd) of
        (cns, acquired) \<Rightarrow>
          (case body (nd\<lparr>nd_cs := cns\<rparr>) of
             (nd', r) \<Rightarrow> (updCs (releaseProcessingBlock spawnSlot acquired) nd', r)))"

definition processReceivedBlock :: "('pk, 'sk) Env \<Rightarrow> Message \<Rightarrow> ('pk, 'sk) Node \<Rightarrow> ('pk, 'sk) Node \<times> bool" where
  "processReceivedBlock env cnsDta nd =
     (case cs_Header (nd_cs nd) of
        None \<Rightarrow> (nd, False)
      | Some header \<Rightarrow> guarded (cm_SlotIndex cnsDta) (processGuarded env cnsDta header) nd)"

definition receivedBlockHeader :: "('pk, 'sk) Env \<Rightarrow> Message \<Rightarrow> ('pk, 'sk) Node \<Rightarrow> ('pk, 'sk) Node \<times> bool" where
  "receivedBlockHeader env cnsDta nd =
     (let node = cm_PubKey cnsDta in
      if IsConsensusDataSet (nd_cs nd) then (nd, False)
      else if \<not> IsNodeLeaderInCurrentSlot node (nd_cs nd) then (logE (EvScore node LeaderPeerHonestyDecreaseFactor) nd, False)
      else if IsHeaderAlreadyReceived (nd_cs nd) then (nd, False)
      else if \<not> CanProcessReceivedMessage node (cm_SlotIndex cnsDta) (nd_Index nd) SrBlock (nd_cs nd) then (nd, False)
      else case (cm_BlockHeaderHash cnsDta, ev_DecodeBlockHeader env (bytesOf (cm_Header cnsDta))) of
        (Some headerHash, Some decodedHeader) \<Rightarrow>
          if \<not> isHeaderSlotBoundToMessage env decodedHeader cnsDta then (nd, False)
          else
            (case processReceivedBlock env cnsDta
                    (updCs (\<lambda>cns. cns\<lparr>cs_Data := Some headerHash, cs_Header := Some decodedHeader\<rparr>) nd) of
               (nd1, processed) \<Rightarrow> (logE (EvScore node LeaderPeerHonestyIncreaseFactor) nd1, processed))
      | _ \<Rightarrow> (nd, False))"

definition jobsDone :: "nat \<Rightarrow> ConsensusState \<Rightarrow> nat" where
  "jobsDone subslotId cns =
     length (filter (\<lambda>node. JobDone node subslotId (cs_slotConsensus cns) = Inr True) (groupOf (cs_slotConsensus cns)))"

definition isBlockReceived :: "nat \<Rightarrow> ConsensusState \<Rightarrow> bool" where
  "isBlockReceived threshold cns \<longleftrightarrow> jobsDone SrBlock cns \<ge> threshold"

definition doBlockConsensusCheck :: "('pk, 'sk) Node \<Rightarrow> ('pk, 'sk) Node \<times> bool" where
  "doBlockConsensusCheck nd =
     (if cs_SlotCanceled (nd_cs nd) then (nd, False)
      else if IsSubslotFinished SrBlock (nd_cs nd) then (nd, True)
      else if isBlockReceived (Threshold SrBlock (cs_slotThreshold (nd_cs nd))) (nd_cs nd)
      then (updCs (SetStatus SrBlock SsFinished) nd, True)
      else (nd, False))"

end
