(* ===== verification/ConsensusEnd.thy ===== *)
theory ConsensusEnd
  imports ConsensusBls
begin

text \<open>
  The subslots of the signatures and of the end of the slot (\<open>slot/bls/subslotSignature.go\<close>,
  \<open>slot/bls/subslotEndSlot.go\<close>): the members sign the header they processed, the leader collects the shares,
  aggregates them and commits the block, the others commit the block they processed once they have the
  aggregated signature.
\<close>

section \<open>Signatures\<close>

text \<open>The panic of a missing header, which cannot be nil once the data is set, ends the job.\<close>

definition doSignatureJob :: "('pk, 'sk) Env \<Rightarrow> ('pk, 'sk) Node \<Rightarrow> ('pk, 'sk) Node \<times> bool" where
  "doSignatureJob env nd =
     (if \<not> IsNodeInConsensusGroup (selfKey nd) (cs_slotConsensus (nd_cs nd)) then (nd, False)
      else if \<not> CanDoSubslotJob SrSignature (nd_cs nd) then (nd, False)
      else
        let data = bytesOf (cs_Data (nd_cs nd)) in
        case CreateSignatureShare (hv_ll (ev_hv env)) data (nd_ms nd) of
          Inl _ \<Rightarrow> (nd, False)
        | Inr (ms, signatureShare) \<Rightarrow>
          let nd1 = logE (EvSign data) (nd\<lparr>nd_ms := ms\<rparr>) in
          if IsSelfLeaderInCurrentSlot (nd_cs nd1) then setJob (selfKey nd1) SrSignature nd1
          else case cs_Header (nd_cs nd1) of
            None \<Rightarrow> (nd1, False)
          | Some header \<Rightarrow>
            let cnsMsg = NewConsensusMessage (Some data) (Some signatureShare) None (selfKey nd1) [] MtSignature (nd_Index nd1)
                  (GetNonce header) (ev_ChainID env) None None None (ev_Pid env) in
            if \<not> ev_Broadcast env cnsMsg then (nd1, False)
            else setJob (selfKey nd1) SrSignature (logE (EvBroadcast cnsMsg) nd1))"

definition receivedSignature :: "('pk, 'sk) Env \<Rightarrow> Message \<Rightarrow> ('pk, 'sk) Node \<Rightarrow> ('pk, 'sk) Node \<times> bool" where
  "receivedSignature env cnsDta nd =
     (let node = cm_PubKey cnsDta in
      if \<not> IsConsensusDataSet (nd_cs nd) then (nd, False)
      else if \<not> IsNodeInConsensusGroup node (cs_slotConsensus (nd_cs nd))
      then (logE (EvScore node ValidatorPeerHonestyDecreaseFactor) nd, False)
      else if \<not> IsSelfLeaderInCurrentSlot (nd_cs nd) then (nd, False)
      else if \<not> IsConsensusDataEqual (cm_BlockHeaderHash cnsDta) (nd_cs nd) then (nd, False)
      else if \<not> CanProcessReceivedMessage node (cm_SlotIndex cnsDta) (nd_Index nd) SrSignature (nd_cs nd) then (nd, False)
      else case ConsensusGroupIndex node (cs_slotConsensus (nd_cs nd)) of
        Inl _ \<Rightarrow> (nd, False)
      | Inr index \<Rightarrow>
        case VerifySignatureShare (hv_ll (ev_hv env)) (u16 index) (cm_SignatureShare cnsDta) (bytesOf (cs_Data (nd_cs nd))) (nd_ms nd) of
          Inl _ \<Rightarrow> (nd, False)
        | Inr _ \<Rightarrow>
          case StoreSignatureShare (hv_ll (ev_hv env)) (u16 index) (bytesOf (cm_SignatureShare cnsDta)) (nd_ms nd) of
            Inl _ \<Rightarrow> (nd, False)
          | Inr ms \<Rightarrow>
            case setJob node SrSignature (nd\<lparr>nd_ms := ms\<rparr>) of
              (nd1, False) \<Rightarrow> (nd1, False)
            | (nd1, True) \<Rightarrow> (logE (EvScore node ValidatorPeerHonestyIncreaseFactor) nd1, True))"

definition areSignaturesCollected :: "nat \<Rightarrow> ConsensusState \<Rightarrow> bool \<times> nat" where
  "areSignaturesCollected threshold cns = (let n = jobsDone SrSignature cns in (n \<ge> threshold, n))"

definition doSignatureConsensusCheck :: "('pk, 'sk) Env \<Rightarrow> ('pk, 'sk) Node \<Rightarrow> ('pk, 'sk) Node \<times> bool" where
  "doSignatureConsensusCheck env nd =
     (let cns = nd_cs nd in
      if cs_SlotCanceled cns then (nd, False)
      else if IsSubslotFinished SrSignature cns then (nd, True)
      else
        let isSelfLeader = IsSelfLeaderInCurrentSlot cns;
            isSelfInConsensusGroup = IsNodeInConsensusGroup (selfKey nd) (cs_slotConsensus cns);
            threshold = (if ShouldApplyFallbackValidation (ev_hv env) (cs_Header cns)
                         then FallbackThreshold SrSignature (cs_slotThreshold cns)
                         else Threshold SrSignature (cs_slotThreshold cns)) in
        case areSignaturesCollected threshold cns of
          (collected, numSigs) \<Rightarrow>
            let areAllSignaturesCollected = (numSigs = rc_consensusGroupSize (cs_slotConsensus cns));
                isJobDoneByLeader =
                  (isSelfLeader \<and> (areAllSignaturesCollected \<or> (collected \<and> cs_WaitingAllSignaturesTimeOut cns)));
                isJobDoneByConsensusNode =
                  (\<not> isSelfLeader \<and> isSelfInConsensusGroup \<and> IsSelfJobDone SrSignature cns) in
            if \<not> isSelfInConsensusGroup \<or> isJobDoneByConsensusNode \<or> isJobDoneByLeader
            then (updCs (SetStatus SrSignature SsFinished) nd, True)
            else (nd, False))"

text \<open>\<open>waitAllSignatures\<close> when its timer fires.\<close>

definition waitAllSignaturesTimeout :: "int \<Rightarrow> ('pk, 'sk) Node \<Rightarrow> ('pk, 'sk) Node" where
  "waitAllSignaturesTimeout spawnSlot nd =
     (if IsSubslotFinished SrSignature (nd_cs nd) then nd
      else updCs (\<lambda>cns. fst (SetWaitingAllSignaturesTimeOutIfSlot spawnSlot True cns)) nd)"

section \<open>End of the slot\<close>

definition cloneWithSignatures :: "Block \<Rightarrow> bytes \<Rightarrow> bytes \<Rightarrow> bytes \<Rightarrow> Block" where
  "cloneWithSignatures header pubKeysBitmap signature producerSignature =
     SetProducerSignature producerSignature (SetSignature signature (SetPubKeysBitmap pubKeysBitmap header))"

definition messageHeader :: "Block \<Rightarrow> Message \<Rightarrow> Block" where
  "messageHeader currentHeader cnsDta =
     cloneWithSignatures currentHeader (bytesOf (cm_PubKeysBitmap cnsDta)) (bytesOf (cm_AggregateSignature cnsDta))
       (bytesOf (cm_LeaderSignature cnsDta))"

definition isBlockHeaderFinalInfoValid :: "('pk, 'sk) Env \<Rightarrow> Message \<Rightarrow> ('pk, 'sk) Node \<Rightarrow> bool" where
  "isBlockHeaderFinalInfoValid env cnsDta nd =
     (case cs_Header (nd_cs nd) of
        None \<Rightarrow> False
      | Some currentHeader \<Rightarrow>
        let header = messageHeader currentHeader cnsDta in
        if VerifyLeaderSignature (ev_hv env) header \<noteq> Inr () then False
        else if VerifySignature (ev_hv env) header \<noteq> Inr () then False
        else True)"

definition isHeaderSlotInTheFuture :: "('pk, 'sk) Env \<Rightarrow> Block \<Rightarrow> ('pk, 'sk) Node \<Rightarrow> bool" where
  "isHeaderSlotInTheFuture env header nd =
     (if \<not> ev_FixAuditChangesV4 env then False
      else if GetSlot header \<le> SafeI64ToU64 (nd_Index nd) then False
      else True)"

text \<open>The loop over the received headers stops at the first whose hash cannot be computed or matches.\<close>

fun findReceived :: "(Block \<Rightarrow> bytes option) \<Rightarrow> bytes \<Rightarrow> Block list \<Rightarrow> Block option" where
  "findReceived hash consensusHeaderHash [] = None"
| "findReceived hash consensusHeaderHash (received # rest) =
     (case hash received of
        None \<Rightarrow> None
      | Some receivedHeaderHash \<Rightarrow>
        if receivedHeaderHash = consensusHeaderHash then Some received else findReceived hash consensusHeaderHash rest)"

definition isConsensusHeaderReceived :: "('pk, 'sk) Env \<Rightarrow> ('pk, 'sk) Node \<Rightarrow> Block option" where
  "isConsensusHeaderReceived env nd =
     (case cs_Header (nd_cs nd) of
        None \<Rightarrow> None
      | Some currentHeader \<Rightarrow>
        case hashOfHeader (ev_hv env) currentHeader of
          None \<Rightarrow> None
        | Some consensusHeaderHash \<Rightarrow>
          map_option (\<lambda>received. cloneWithSignatures currentHeader (bl_PubKeysBitmap received) (bl_Signature received) (bl_ProducerSignature received))
            (findReceived (hashOfHeader (ev_hv env)) consensusHeaderHash (cs_receivedHeaders (nd_cs nd))))"

definition haveConsensusHeaderWithFullInfo :: "('pk, 'sk) Env \<Rightarrow> Message option \<Rightarrow> ('pk, 'sk) Node \<Rightarrow> Block option" where
  "haveConsensusHeaderWithFullInfo env cnsDta nd =
     (case cnsDta of
        None \<Rightarrow> isConsensusHeaderReceived env nd
      | Some m \<Rightarrow> map_option (\<lambda>currentHeader. messageHeader currentHeader m) (cs_Header (nd_cs nd)))"

definition isOutOfTime :: "('pk, 'sk) Env \<Rightarrow> ('pk, 'sk) Node \<Rightarrow> ('pk, 'sk) Node \<times> bool" where
  "isOutOfTime env nd = (if ev_outOfTime env then (updCs (SetSlotCanceled True) nd, True) else (nd, False))"

definition setHeaderForValidator :: "('pk, 'sk) Env \<Rightarrow> Block \<Rightarrow> ('pk, 'sk) Node \<Rightarrow> ('pk, 'sk) Node" where
  "setHeaderForValidator env header nd =
     (case SelfConsensusGroupIndex (cs_slotConsensus (nd_cs nd)) of
        Inl _ \<Rightarrow> nd
      | Inr _ \<Rightarrow> if ev_Marshalized env (cs_Header (nd_cs nd)) then logE (EvPrepareHeader header) nd else nd)"

definition prepareBroadcastBlockDataForValidator :: "('pk, 'sk) Env \<Rightarrow> ('pk, 'sk) Node \<Rightarrow> ('pk, 'sk) Node" where
  "prepareBroadcastBlockDataForValidator env nd =
     (case SelfConsensusGroupIndex (cs_slotConsensus (nd_cs nd)) of
        Inl _ \<Rightarrow> nd
      | Inr _ \<Rightarrow>
        if ev_Marshalized env (cs_Header (nd_cs nd)) then logE (EvPrepareBlockData (cs_Header (nd_cs nd))) nd else nd)"

text \<open>The part of \<open>doEndSlotJobByParticipant\<close> between the acquisition and the release of the guard.\<close>

definition participantCommit :: "('pk, 'sk) Env \<Rightarrow> Block \<Rightarrow> ('pk, 'sk) Node \<Rightarrow> ('pk, 'sk) Node \<times> bool" where
  "participantCommit env header nd =
     (if cs_ExtendedCalled (nd_cs nd) \<or> GetSlot header < SafeI64ToU64 (nd_Index nd) \<or> isHeaderSlotInTheFuture env header nd
      then (nd, False)
      else case isOutOfTime env nd of
        (nd1, True) \<Rightarrow> (nd1, False)
      | (nd1, False) \<Rightarrow>
        let ok = ev_CommitBlock env header;
            nd2 = logE (EvCommit header ok) nd1 in
        if \<not> ok then cancelSlot nd2
        else
          let nd3 = updCs (SetStatus SrEndSlot SsFinished) nd2 in
          (if IsNodeInConsensusGroup (selfKey nd3) (cs_slotConsensus (nd_cs nd3)) then setHeaderForValidator env header nd3 else nd3,
           True))"

definition doEndSlotJobByParticipant :: "('pk, 'sk) Env \<Rightarrow> Message option \<Rightarrow> ('pk, 'sk) Node \<Rightarrow> ('pk, 'sk) Node \<times> bool" where
  "doEndSlotJobByParticipant env cnsDta nd =
     (if cs_SlotCanceled (nd_cs nd) then (nd, False)
      else if cs_Data (nd_cs nd) = None then (nd, False)
      else if \<not> IsSubslotFinished SrSignature (nd_cs nd) then (nd, False)
      else if IsSubslotFinished SrEndSlot (nd_cs nd) then (nd, False)
      else case haveConsensusHeaderWithFullInfo env cnsDta nd of
        None \<Rightarrow> (nd, False)
      | Some header \<Rightarrow> guarded (SafeU64ToI64 (GetSlot header)) (participantCommit env header) nd)"

definition receivedBlockHeaderFinalInfo :: "('pk, 'sk) Env \<Rightarrow> Message \<Rightarrow> ('pk, 'sk) Node \<Rightarrow> ('pk, 'sk) Node \<times> bool" where
  "receivedBlockHeaderFinalInfo env cnsDta nd =
     (let node = cm_PubKey cnsDta in
      if \<not> IsConsensusDataSet (nd_cs nd) then (nd, False)
      else if \<not> IsNodeLeaderInCurrentSlot node (nd_cs nd) then (logE (EvScore node LeaderPeerHonestyDecreaseFactor) nd, False)
      else if IsSelfLeaderInCurrentSlot (nd_cs nd) then (nd, False)
      else if \<not> IsConsensusDataEqual (cm_BlockHeaderHash cnsDta) (nd_cs nd) then (nd, False)
      else if \<not> CanProcessReceivedMessage node (cm_SlotIndex cnsDta) (nd_Index nd) SrEndSlot (nd_cs nd) then (nd, False)
      else if \<not> isBlockHeaderFinalInfoValid env cnsDta nd then (nd, False)
      else doEndSlotJobByParticipant env (Some cnsDta) (logE (EvScore node LeaderPeerHonestyIncreaseFactor) nd))"

definition receivedHeader :: "('pk, 'sk) Env \<Rightarrow> Block \<Rightarrow> ('pk, 'sk) Node \<Rightarrow> ('pk, 'sk) Node" where
  "receivedHeader env header nd =
     (if rc_consensusGroup (cs_slotConsensus (nd_cs nd)) = None \<or> IsSelfLeaderInCurrentSlot (nd_cs nd) then nd
      else fst (doEndSlotJobByParticipant env None (updCs (AddReceivedHeader header) nd)))"

definition checkShare :: "('pk, 'sk) Env \<Rightarrow> bytes \<Rightarrow> ('pk, 'sk) Node \<Rightarrow> nat \<Rightarrow> bool" where
  "checkShare env bitmap nd i =
     (if \<not> bitAt bitmap i then True
      else case JobDone (groupOf (cs_slotConsensus (nd_cs nd)) ! i) SrSignature (cs_slotConsensus (nd_cs nd)) of
        Inl _ \<Rightarrow> False
      | Inr isSigJobDone \<Rightarrow>
        if \<not> isSigJobDone then False
        else case SignatureShare (u16 i) (nd_ms nd) of
          Inl _ \<Rightarrow> False
        | Inr signature \<Rightarrow>
          VerifySignatureShare (hv_ll (ev_hv env)) (u16 i) (Some signature) (bytesOf (cs_Data (nd_cs nd))) (nd_ms nd) = Inr ())"

definition checkSignaturesValidity :: "('pk, 'sk) Env \<Rightarrow> bytes \<Rightarrow> ('pk, 'sk) Node \<Rightarrow> bool" where
  "checkSignaturesValidity env bitmap nd =
     (let nbBitsBitmap = length bitmap * 8;
          consensusGroupSize = length (groupOf (cs_slotConsensus (nd_cs nd)));
          sz = (if consensusGroupSize > nbBitsBitmap then nbBitsBitmap else consensusGroupSize) in
      list_all (checkShare env bitmap nd) [0..<sz])"

definition signBlockHeader :: "('pk, 'sk) Env \<Rightarrow> Block \<Rightarrow> bytes option" where
  "signBlockHeader env header = Option.bind (hv_marshal (ev_hv env) (bl_Header header)) (ev_Sign env)"

definition createAndBroadcastHeaderFinalInfo :: "('pk, 'sk) Env \<Rightarrow> Block \<Rightarrow> ('pk, 'sk) Node \<Rightarrow> ('pk, 'sk) Node" where
  "createAndBroadcastHeaderFinalInfo env header nd =
     (let cnsMsg = NewConsensusMessage (cs_Data (nd_cs nd)) None None (selfKey nd) [] MtBlockHeaderFinalInfo (nd_Index nd)
        (GetNonce header) (ev_ChainID env) (Some (bl_PubKeysBitmap header)) (Some (bl_Signature header))
        (Some (bl_ProducerSignature header)) (ev_Pid env) in
      if \<not> ev_Broadcast env cnsMsg then nd else logE (EvBroadcast cnsMsg) nd)"

text \<open>The part of \<open>doEndSlotJobByLeader\<close> between the acquisition and the release of the guard.\<close>

definition leaderCommit :: "('pk, 'sk) Env \<Rightarrow> Block \<Rightarrow> ('pk, 'sk) Node \<Rightarrow> ('pk, 'sk) Node \<times> bool" where
  "leaderCommit env header nd =
     (if cs_ExtendedCalled (nd_cs nd) \<or> GetSlot header < SafeI64ToU64 (nd_Index nd) then (nd, False)
      else case isOutOfTime env nd of
        (nd1, True) \<Rightarrow> (nd1, False)
      | (nd1, False) \<Rightarrow>
        let nd2 = logE (EvBroadcastBlock header) (createAndBroadcastHeaderFinalInfo env header nd1);
            ok = ev_CommitBlock env header;
            nd3 = logE (EvCommit header ok) nd2 in
        if \<not> ok then (nd3, False)
        else
          let nd4 = updCs (SetStatus SrEndSlot SsFinished) nd3 in
          (if ev_Marshalized env (Some header) then logE (EvBroadcastBlockData header) nd4 else nd4, True))"

text \<open>The header the leader completes is the one of the consensus state: the setters write to it.\<close>

definition doEndSlotJobByLeader :: "('pk, 'sk) Env \<Rightarrow> ('pk, 'sk) Node \<Rightarrow> ('pk, 'sk) Node \<times> bool" where
  "doEndSlotJobByLeader env nd =
     (let bitmap = GenerateBitmap SrSignature (nd_cs nd) in
      if \<not> checkSignaturesValidity env bitmap nd then (nd, False)
      else case AggregateSigs (hv_ll (ev_hv env)) (Some bitmap) (nd_ms nd) of
        Inl _ \<Rightarrow> (nd, False)
      | Inr sig \<Rightarrow>
        case cs_Header (nd_cs nd) of
          None \<Rightarrow> (nd, False)
        | Some header0 \<Rightarrow>
          if isHeaderSlotInTheFuture env header0 nd then (nd, False)
          else
            let header1 = SetSignature sig (SetPubKeysBitmap bitmap header0) in
            case signBlockHeader env header1 of
              None \<Rightarrow> (updCs (\<lambda>cns. cns\<lparr>cs_Header := Some header1\<rparr>) nd, False)
            | Some leaderSignature \<Rightarrow>
              let header = SetProducerSignature leaderSignature header1;
                  nd1 = updCs (\<lambda>cns. cns\<lparr>cs_Header := Some header\<rparr>) nd in
              if length (bl_Signature header) = 0 \<or> length (bl_ProducerSignature header) = 0 \<or> length (bl_PubKeysBitmap header) = 0
              then (nd1, False)
              else guarded (SafeU64ToI64 (GetSlot header)) (leaderCommit env header) nd1)"

definition doEndSlotJob :: "('pk, 'sk) Env \<Rightarrow> ('pk, 'sk) Node \<Rightarrow> ('pk, 'sk) Node \<times> bool" where
  "doEndSlotJob env nd =
     (if \<not> IsSelfLeaderInCurrentSlot (nd_cs nd) then
        doEndSlotJobByParticipant env None
          (if IsNodeInConsensusGroup (selfKey nd) (cs_slotConsensus (nd_cs nd)) then prepareBroadcastBlockDataForValidator env nd else nd)
      else doEndSlotJobByLeader env nd)"

definition doEndSlotConsensusCheck :: "('pk, 'sk) Node \<Rightarrow> ('pk, 'sk) Node \<times> bool" where
  "doEndSlotConsensusCheck nd =
     (if cs_SlotCanceled (nd_cs nd) then (nd, False)
      else if IsSubslotFinished SrEndSlot (nd_cs nd) then (nd, True)
      else (nd, False))"

end
