(* ===== verification/ConsensusRun.thy ===== *)
theory ConsensusRun
  imports ConsensusEnd
begin

text \<open>
  The worker (\<open>core/consensus/slot/worker.go\<close>), which validates, stores and dispatches the messages of the consensus
  topic, the chronology (\<open>core/consensus/chronology/chronology.go\<close>, \<open>slot/subslot.go\<close>), which drives the subslots, and the
  step relation of a node: the chronology, the worker and the timers interleave in any order, each action being one step.
\<close>

section \<open>The worker\<close>

type_synonym stored = "int \<Rightarrow> Message option list"

definition InitReceivedMessages :: stored where
  "InitReceivedMessages = (\<lambda>_. [])"

definition storeMessage :: "Message \<Rightarrow> stored \<Rightarrow> stored" where
  "storeMessage cnsDta received = received(cm_MsgType cnsDta := received (cm_MsgType cnsDta) @ [Some cnsDta])"

definition getCleanedList :: "int \<Rightarrow> Message option list \<Rightarrow> Message option list" where
  "getCleanedList slotIndex cnsDataList =
     filter (\<lambda>e. case e of None \<Rightarrow> False | Some m \<Rightarrow> \<not> slotIndex > cm_SlotIndex m) cnsDataList"

definition canExecute :: "ConsensusState \<Rightarrow> Message \<Rightarrow> bool" where
  "canExecute cns cnsDta \<longleftrightarrow> cs_SlotIndex cns = cm_SlotIndex cnsDta \<and> CanProceed (cm_MsgType cnsDta) cns"

text \<open>A message that is sent to the channel leaves a nil entry behind.\<close>

fun executeMessage :: "ConsensusState \<Rightarrow> Message option list \<Rightarrow> Message option list \<times> Message list" where
  "executeMessage cns [] = ([], [])"
| "executeMessage cns (None # rest) = (case executeMessage cns rest of (l, out) \<Rightarrow> (None # l, out))"
| "executeMessage cns (Some cnsDta # rest) =
     (case executeMessage cns rest of
        (l, out) \<Rightarrow> if canExecute cns cnsDta then (None # l, cnsDta # out) else (Some cnsDta # l, out))"

definition executeType :: "ConsensusState \<Rightarrow> int \<Rightarrow> int \<Rightarrow> stored \<times> Message list \<Rightarrow> stored \<times> Message list" where
  "executeType cns slotIndex i = (\<lambda>(received, out).
     if received i = [] then (received, out)
     else case executeMessage cns (received i) of
       (l, out') \<Rightarrow> (received(i := getCleanedList slotIndex l), out @ out'))"

definition executeStoredMessages :: "ConsensusState \<Rightarrow> int \<Rightarrow> stored \<Rightarrow> stored \<times> Message list" where
  "executeStoredMessages cns slotIndex received = fold (executeType cns slotIndex) GetMessageRange (received, [])"

datatype worker_error =
  ErrMessage message_error | ErrInvalidHeader | ErrComputeHash | ErrHeaderHashNotMatch | ErrIntegrity | ErrRandSeed
  | ErrMessageFromItself | ErrSlotCanceled

definition validateMessageWithHeader :: "('pk, 'sk) Env \<Rightarrow> Message \<Rightarrow> worker_error + Block" where
  "validateMessageWithHeader env cnsMsg =
     (case (cm_BlockHeaderHash cnsMsg, ev_DecodeBlockHeader env (bytesOf (cm_Header cnsMsg))) of
        (Some headerHash, Some header) \<Rightarrow>
          (case hashOfHeader (ev_hv env) header of
             None \<Rightarrow> Inl ErrComputeHash
           | Some hash \<Rightarrow>
             if headerHash \<noteq> hash then Inl ErrHeaderHashNotMatch
             else if \<not> ev_IntegrityVerify env header then Inl ErrIntegrity
             else if VerifyRandSeed (ev_hv env) header \<noteq> Inr () then Inl ErrRandSeed
             else Inr header)
      | _ \<Rightarrow> Inl ErrInvalidHeader)"

definition checkSelfState :: "Message \<Rightarrow> ConsensusState \<Rightarrow> worker_error + unit" where
  "checkSelfState cnsDta cns =
     (if rc_selfPubKey (cs_slotConsensus cns) = cm_PubKey cnsDta then Inl ErrMessageFromItself
      else errIf (cs_SlotCanceled cns \<and> cs_SlotIndex cns = cm_SlotIndex cnsDta) ErrSlotCanceled)"

section \<open>The machine\<close>

text \<open>
  A node with its stored messages, the messages sent to the channel and not yet consumed, and the chronology: the current
  subslot, none before a slot starts, and whether its job is still to be done.
\<close>

record ('pk, 'sk) Machine =
  mc_node :: "('pk, 'sk) Node"
  mc_received :: stored
  mc_queue :: "Message list"
  mc_subslot :: "nat option"
  mc_pending :: bool

definition executeReceivedMessages :: "Message \<Rightarrow> ('pk, 'sk) Machine \<Rightarrow> ('pk, 'sk) Machine" where
  "executeReceivedMessages cnsDta mc =
     (case executeStoredMessages (nd_cs (mc_node mc)) (nd_Index (mc_node mc)) (storeMessage cnsDta (mc_received mc)) of
        (received, out) \<Rightarrow> mc\<lparr>mc_received := received, mc_queue := mc_queue mc @ out\<rparr>)"

definition ExecuteStoredMessages :: "('pk, 'sk) Machine \<Rightarrow> ('pk, 'sk) Machine" where
  "ExecuteStoredMessages mc =
     (case executeStoredMessages (nd_cs (mc_node mc)) (nd_Index (mc_node mc)) (mc_received mc) of
        (received, out) \<Rightarrow> mc\<lparr>mc_received := received, mc_queue := mc_queue mc @ out\<rparr>)"

text \<open>
  \<open>ProcessReceivedMessage\<close>, from the decoded message on: the checks of the peer before it and the bookkeeping of the
  fork detector and the requests for missing transactions do not touch the state of the consensus. Messages are validated
  concurrently: \<open>seen\<close> is the validator at the time the limit of messages was looked up.
\<close>

definition ProcessReceivedMessage ::
  "('pk, 'sk) Env \<Rightarrow> (bytes \<Rightarrow> bytes \<Rightarrow> bytes \<Rightarrow> bool) \<Rightarrow> consensusMessageValidator \<Rightarrow> Message \<Rightarrow> bytes \<Rightarrow> ('pk, 'sk) Machine \<Rightarrow>
     ('pk, 'sk) Machine \<times> (worker_error + unit)"
where
  "ProcessReceivedMessage env verifyPeerSignature seen cnsMsg originator mc =
     (if \<not> ev_synchronized env then (mc, Inr ())
      else
        let nd = mc_node mc; cns = nd_cs nd in
        case checkConsensusMessageValidity verifyPeerSignature cns cnsMsg originator seen (nd_mv nd) of
          (mv, Inl e) \<Rightarrow> (mc\<lparr>mc_node := nd\<lparr>nd_mv := mv\<rparr>\<rparr>, Inl (ErrMessage e))
        | (mv, Inr _) \<Rightarrow>
          let mc1 = mc\<lparr>mc_node := nd\<lparr>nd_mv := mv\<rparr>\<rparr>;
              headerChecked = (if IsMessageWithBlockHeader (cm_MsgType cnsMsg)
                               then map_sum id (\<lambda>_. ()) (validateMessageWithHeader env cnsMsg) else Inr ()) in
          case headerChecked of
            Inl e \<Rightarrow> (mc1, Inl e)
          | Inr _ \<Rightarrow>
            if cm_SlotIndex cnsMsg > cs_SlotIndex cns then (mc1\<lparr>mc_received := storeMessage cnsMsg (mc_received mc1)\<rparr>, Inr ())
            else case checkSelfState cnsMsg cns of
              Inl _ \<Rightarrow> (mc1, Inr ())
            | Inr _ \<Rightarrow> (executeReceivedMessages cnsMsg mc1, Inr ()))"

text \<open>The handlers the factory registers for the three types of messages.\<close>

definition callReceivedMessage :: "('pk, 'sk) Env \<Rightarrow> Message \<Rightarrow> ('pk, 'sk) Node \<Rightarrow> ('pk, 'sk) Node \<times> bool" where
  "callReceivedMessage env rcvDta nd =
     (if cm_MsgType rcvDta = MtBlockHeader then receivedBlockHeader env rcvDta nd
      else if cm_MsgType rcvDta = MtSignature then receivedSignature env rcvDta nd
      else if cm_MsgType rcvDta = MtBlockHeaderFinalInfo then receivedBlockHeaderFinalInfo env rcvDta nd
      else (nd, False))"

definition checkChannels :: "('pk, 'sk) Env \<Rightarrow> ('pk, 'sk) Machine \<Rightarrow> ('pk, 'sk) Machine" where
  "checkChannels env mc =
     (case mc_queue mc of
        [] \<Rightarrow> mc
      | rcvDta # rest \<Rightarrow> mc\<lparr>mc_queue := rest, mc_node := fst (callReceivedMessage env rcvDta (mc_node mc))\<rparr>)"

definition ReceivedHeader :: "('pk, 'sk) Env \<Rightarrow> Block \<Rightarrow> ('pk, 'sk) Machine \<Rightarrow> ('pk, 'sk) Machine" where
  "ReceivedHeader env header mc =
     (if GetSlot header \<noteq> SafeI64ToU64 (nd_Index (mc_node mc)) then mc
      else mc\<lparr>mc_node := receivedHeader env header (mc_node mc)\<rparr>)"

text \<open>\<open>Extend\<close>; it waits for the guard of the block processing, which no step holds at its end.\<close>

definition Extend :: "nat \<Rightarrow> ('pk, 'sk) Node \<Rightarrow> ('pk, 'sk) Node" where
  "Extend subslotId nd =
     (let nd1 = updCs (SetExtendedCalled True) nd in
      if subslotId = SrStartSlot then nd1 else logE (EvRevert (cs_Header (nd_cs nd1))) nd1)"

section \<open>The chronology\<close>

definition Job :: "nat \<Rightarrow> ('pk, 'sk) Env \<Rightarrow> ('pk, 'sk) Node \<Rightarrow> ('pk, 'sk) Node \<times> bool" where
  "Job k env nd =
     (if k = SrStartSlot then doStartSlotJob env nd
      else if k = SrBlock then doBlockJob env nd
      else if k = SrSignature then doSignatureJob env nd
      else doEndSlotJob env nd)"

definition Check :: "nat \<Rightarrow> ('pk, 'sk) Env \<Rightarrow> ('pk, 'sk) Node \<Rightarrow> ('pk, 'sk) Node \<times> bool" where
  "Check k env nd =
     (if k = SrStartSlot then doStartSlotConsensusCheck env nd
      else if k = SrBlock then doBlockConsensusCheck nd
      else if k = SrSignature then doSignatureConsensusCheck env nd
      else doEndSlotConsensusCheck nd)"

definition nextSubslot :: "nat \<Rightarrow> nat option" where
  "nextSubslot k = (if k = SrEndSlot then None else Some (k + 1))"

text \<open>A new slot index of the clock: the chronology is at the first subslot.\<close>

definition updateSlot :: "int \<Rightarrow> ('pk, 'sk) Machine \<Rightarrow> ('pk, 'sk) Machine" where
  "updateSlot index mc =
     mc\<lparr>mc_node := (mc_node mc)\<lparr>nd_Index := index\<rparr>, mc_subslot := Some SrStartSlot, mc_pending := True\<rparr>"

definition doJob :: "nat \<Rightarrow> ('pk, 'sk) Env \<Rightarrow> ('pk, 'sk) Machine \<Rightarrow> ('pk, 'sk) Machine" where
  "doJob k env mc = mc\<lparr>mc_node := fst (Job k env (mc_node mc)), mc_pending := False\<rparr>"

definition doCheck :: "nat \<Rightarrow> ('pk, 'sk) Env \<Rightarrow> ('pk, 'sk) Machine \<Rightarrow> ('pk, 'sk) Machine" where
  "doCheck k env mc =
     (case Check k env (mc_node mc) of
        (nd, True) \<Rightarrow> mc\<lparr>mc_node := nd, mc_subslot := nextSubslot k, mc_pending := (nextSubslot k \<noteq> None)\<rparr>
      | (nd, False) \<Rightarrow> mc\<lparr>mc_node := nd\<rparr>)"

definition doTimeout :: "nat \<Rightarrow> ('pk, 'sk) Machine \<Rightarrow> ('pk, 'sk) Machine" where
  "doTimeout k mc = mc\<lparr>mc_node := Extend k (updCs (SetSlotCanceled True) (mc_node mc)), mc_subslot := None\<rparr>"

text \<open>
  The steps of a node whose environments satisfy \<open>P\<close>. The clock moves forward: the index of a new slot is beyond the
  old one. The first job of a slot follows the update of the index at once. The validator a message meets when its limit is
  looked up may be any, so that validations overlap in every way.
\<close>

inductive step :: "(('pk, 'sk) Env \<Rightarrow> bool) \<Rightarrow> ('pk, 'sk) Machine \<Rightarrow> ('pk, 'sk) Machine \<Rightarrow> bool" for P where
  slot: "P env \<Longrightarrow> mc_subslot mc = None \<Longrightarrow> index > nd_Index (mc_node mc) \<Longrightarrow> step P mc (doJob SrStartSlot env (updateSlot index mc))"
| job: "P env \<Longrightarrow> mc_subslot mc = Some k \<Longrightarrow> mc_pending mc \<Longrightarrow> step P mc (doJob k env mc)"
| check: "P env \<Longrightarrow> mc_subslot mc = Some k \<Longrightarrow> \<not> mc_pending mc \<Longrightarrow> step P mc (doCheck k env mc)"
| timeout: "mc_subslot mc = Some k \<Longrightarrow> \<not> mc_pending mc \<Longrightarrow> step P mc (doTimeout k mc)"
| message: "P env \<Longrightarrow> step P mc (fst (ProcessReceivedMessage env verify seen m originator mc))"
| stored: "step P mc (ExecuteStoredMessages mc)"
| consume: "P env \<Longrightarrow> step P mc (checkChannels env mc)"
| header: "P env \<Longrightarrow> step P mc (ReceivedHeader env h mc)"
| signatures: "step P mc (mc\<lparr>mc_node := waitAllSignaturesTimeout spawnSlot (mc_node mc)\<rparr>)"

inductive_cases step_cases: "step P mc mc'"

text \<open>A node as the factory builds it: thresholds set, no slot started, nothing logged.\<close>

definition NewMachine ::
  "int \<Rightarrow> bytes set \<Rightarrow> nat \<Rightarrow> bytes \<Rightarrow> ('pk, 'sk) blsMultiSigData \<Rightarrow> consensusMessageValidator \<Rightarrow> ('pk, 'sk) Machine"
where
  "NewMachine index electedNodes consensusGroupSize selfId ms mv =
     \<lparr>mc_node =
        \<lparr>nd_cs = initConsensusThreshold
           (NewConsensusState 0 (NewSlotConsensus electedNodes consensusGroupSize selfId) NewSlotThreshold NewSlotStatus),
         nd_ms = ms, nd_mv = mv, nd_Index = index, nd_log = []\<rparr>,
      mc_received = InitReceivedMessages, mc_queue = [], mc_subslot = None, mc_pending = False\<rparr>"

inductive reachable :: "(('pk, 'sk) Env \<Rightarrow> bool) \<Rightarrow> ('pk, 'sk) Machine \<Rightarrow> bool" for P where
  start: "reachable P (NewMachine index electedNodes consensusGroupSize selfId ms mv)"
| step: "reachable P mc \<Longrightarrow> step P mc mc' \<Longrightarrow> reachable P mc'"

end
