(* ===== verification/ConsensusInv.thy ===== *)
theory ConsensusInv
  imports ConsensusRun
begin

text \<open>
  The invariant of a node during consensus and how the primitive updates the handlers are made of preserve it. The part about the
  log says what was signed and committed in every slot; the part about the state ties the header, the jobs and
  the finished subslots of the current slot to the log. The hash of an inner header is \<open>hh\<close>; \<open>v4\<close> tells that the
  fix V4, which binds blocks to their slot, is active.
\<close>

section \<open>The log\<close>

definition same_body :: "Block \<Rightarrow> Block \<Rightarrow> bool" where
  "same_body b c \<longleftrightarrow> bl_Header b = bl_Header c \<and> bl_TxHashes b = bl_TxHashes c \<and> bl_TxResults b = bl_TxResults c"

lemma same_body_refl [simp]: "same_body b b"
  by (simp add: same_body_def)

lemma same_body_trans: "same_body a b \<Longrightarrow> same_body b c \<Longrightarrow> same_body a c"
  by (simp add: same_body_def)

text \<open>A block is accepted in a slot when the node proposed it or processed it with success.\<close>

definition acceptedAt :: "int \<Rightarrow> (int \<times> event) list \<Rightarrow> Block \<Rightarrow> bool" where
  "acceptedAt s log h \<longleftrightarrow> (s, EvPropose h) \<in> set log \<or> (s, EvProcess h True) \<in> set log"

fun isSign :: "event \<Rightarrow> bool" where
  "isSign (EvSign d) = True"
| "isSign _ = False"

fun isCommit :: "event \<Rightarrow> bool" where
  "isCommit (EvCommit b ok) = True"
| "isCommit _ = False"

definition signsAt :: "int \<Rightarrow> (int \<times> event) list \<Rightarrow> (int \<times> event) list" where
  "signsAt s log = filter (\<lambda>(t, e). t = s \<and> isSign e) log"

definition commitsAt :: "int \<Rightarrow> (int \<times> event) list \<Rightarrow> (int \<times> event) list" where
  "commitsAt s log = filter (\<lambda>(t, e). t = s \<and> isCommit e) log"

lemma signsAt_Cons [simp]: "signsAt s ((t, e) # log) = (if t = s \<and> isSign e then (t, e) # signsAt s log else signsAt s log)"
  by (simp add: signsAt_def)

lemma commitsAt_Cons [simp]: "commitsAt s ((t, e) # log) = (if t = s \<and> isCommit e then (t, e) # commitsAt s log else commitsAt s log)"
  by (simp add: commitsAt_def)

lemma acceptedAt_Cons: "acceptedAt s log h \<Longrightarrow> acceptedAt s (x # log) h"
  by (auto simp: acceptedAt_def)

definition log_inv :: "(BlockHeader option \<Rightarrow> bytes option) \<Rightarrow> bool \<Rightarrow> int \<Rightarrow> (int \<times> event) list \<Rightarrow> bool" where
  "log_inv hh v4 idx log \<longleftrightarrow>
     (\<forall>s e. (s, e) \<in> set log \<longrightarrow> s \<le> idx) \<and>
     (\<forall>s d. (s, EvSign d) \<in> set log \<longrightarrow> (\<exists>h. hh (bl_Header h) = Some d \<and> acceptedAt s log h)) \<and>
     (\<forall>s b ok. (s, EvCommit b ok) \<in> set log \<longrightarrow>
        (\<exists>h. same_body b h \<and> acceptedAt s log h) \<and> (v4 \<longrightarrow> GetSlot b = SafeI64ToU64 s)) \<and>
     (\<forall>s. length (signsAt s log) \<le> 1) \<and> (\<forall>s. length (commitsAt s log) \<le> 1)"

lemma log_inv_Nil: "log_inv hh v4 idx []"
  by (simp add: log_inv_def signsAt_def commitsAt_def)

lemma log_inv_index: "log_inv hh v4 idx log \<Longrightarrow> idx \<le> idx' \<Longrightarrow> log_inv hh v4 idx' log"
  unfolding log_inv_def by (meson order_trans)

lemma log_inv_bound: "log_inv hh v4 idx log \<Longrightarrow> (s, e) \<in> set log \<Longrightarrow> s \<le> idx"
  unfolding log_inv_def by blast

lemma log_inv_sign:
  "log_inv hh v4 idx log \<Longrightarrow> (s, EvSign d) \<in> set log \<Longrightarrow> \<exists>h. hh (bl_Header h) = Some d \<and> acceptedAt s log h"
  unfolding log_inv_def by blast

lemma log_inv_commit:
  assumes "log_inv hh v4 idx log" "(s, EvCommit b ok) \<in> set log"
  shows "\<exists>h. same_body b h \<and> acceptedAt s log h" "v4 \<Longrightarrow> GetSlot b = SafeI64ToU64 s"
proof -
  have "(\<exists>h. same_body b h \<and> acceptedAt s log h) \<and> (v4 \<longrightarrow> GetSlot b = SafeI64ToU64 s)"
    using assms unfolding log_inv_def by blast
  then show "\<exists>h. same_body b h \<and> acceptedAt s log h" "v4 \<Longrightarrow> GetSlot b = SafeI64ToU64 s" by simp_all
qed

lemma log_inv_Cons:
  assumes "log_inv hh v4 idx log"
    and sign: "\<And>d. e = EvSign d \<Longrightarrow> signsAt idx log = [] \<and> (\<exists>h. hh (bl_Header h) = Some d \<and> acceptedAt idx log h)"
    and commit: "\<And>b ok. e = EvCommit b ok \<Longrightarrow>
      commitsAt idx log = [] \<and> (\<exists>h. same_body b h \<and> acceptedAt idx log h) \<and> (v4 \<longrightarrow> GetSlot b = SafeI64ToU64 idx)"
  shows "log_inv hh v4 idx ((idx, e) # log)"
  unfolding log_inv_def
proof (intro conjI allI impI)
  fix s d assume "(s, EvSign d) \<in> set ((idx, e) # log)"
  then have "\<exists>h. hh (bl_Header h) = Some d \<and> acceptedAt s log h"
    using log_inv_sign [OF assms(1), of s d] sign [of d] by auto
  then show "\<exists>h. hh (bl_Header h) = Some d \<and> acceptedAt s ((idx, e) # log) h" by (blast intro: acceptedAt_Cons)
next
  fix s b ok assume c: "(s, EvCommit b ok) \<in> set ((idx, e) # log)"
  then have "\<exists>h. same_body b h \<and> acceptedAt s log h"
    using log_inv_commit(1) [OF assms(1), of s b ok] commit [of b ok] by auto
  then show "\<exists>h. same_body b h \<and> acceptedAt s ((idx, e) # log) h" by (blast intro: acceptedAt_Cons)
  show "v4 \<Longrightarrow> GetSlot b = SafeI64ToU64 s" using log_inv_commit(2) [OF assms(1), of s b ok] commit [of b ok] c by auto
next
  fix s show "length (signsAt s ((idx, e) # log)) \<le> 1"
    using assms(1) sign by (cases e) (auto simp: log_inv_def)
  show "length (commitsAt s ((idx, e) # log)) \<le> 1"
    using assms(1) commit by (cases e) (auto simp: log_inv_def)
qed (use assms(1) in \<open>auto simp: log_inv_def\<close>)

lemma commitsAt_future: "log_inv hh v4 idx log \<Longrightarrow> idx < s \<Longrightarrow> commitsAt s log = [] \<and> signsAt s log = []"
  by (fastforce simp: log_inv_def commitsAt_def signsAt_def filter_empty_conv)

section \<open>The state\<close>

definition acceptedNow :: "ConsensusState \<Rightarrow> int \<Rightarrow> (int \<times> event) list \<Rightarrow> bool" where
  "acceptedNow cns idx log \<longleftrightarrow> (\<exists>h h'. cs_Header cns = Some h \<and> same_body h h' \<and> acceptedAt idx log h')"

definition state_inv :: "(BlockHeader option \<Rightarrow> bytes option) \<Rightarrow> ConsensusState \<Rightarrow> int \<Rightarrow> (int \<times> event) list \<Rightarrow> bool" where
  "state_inv hh cns idx log \<longleftrightarrow>
     th_threshold (cs_slotThreshold cns) SrBlock = Some 1 \<and>
     dom (rc_validatorSlotStates (cs_slotConsensus cns)) \<subseteq> set (groupOf (cs_slotConsensus cns)) \<and>
     (\<forall>k. IsSubslotFinished k cns \<longrightarrow> cs_SlotIndex cns = idx) \<and>
     (cs_Data cns \<noteq> None \<longrightarrow> IsSubslotFinished SrStartSlot cns) \<and>
     (IsSubslotFinished SrBlock cns \<longrightarrow> IsSubslotFinished SrStartSlot cns) \<and>
     (IsSubslotFinished SrSignature cns \<longrightarrow> IsSubslotFinished SrBlock cns) \<and>
     (cs_Data cns = None \<longrightarrow> cs_Header cns = None) \<and>
     (\<forall>d. cs_Data cns = Some d \<longrightarrow> (\<exists>h. cs_Header cns = Some h \<and> hh (bl_Header h) = Some d)) \<and>
     ((\<exists>pk. IsJobDone pk SrBlock cns) \<or> IsSubslotFinished SrBlock cns \<longrightarrow> acceptedNow cns idx log) \<and>
     (commitsAt idx log \<noteq> [] \<longrightarrow> IsSubslotFinished SrStartSlot cns \<and>
        (IsSubslotFinished SrEndSlot cns \<or> cs_SlotCanceled cns \<or> IsSelfLeaderInCurrentSlot cns))"

definition node_inv :: "(BlockHeader option \<Rightarrow> bytes option) \<Rightarrow> bool \<Rightarrow> ('pk, 'sk) Node \<Rightarrow> bool" where
  "node_inv hh v4 nd \<longleftrightarrow> log_inv hh v4 (nd_Index nd) (nd_log nd) \<and> state_inv hh (nd_cs nd) (nd_Index nd) (nd_log nd)"

text \<open>
  What an action leaves alone: the index, the group, what is finished; with \<open>a\<close> also the signatures of the slot, and with \<open>b\<close> the
  commits of a leader.
\<close>

definition ext :: "bool \<Rightarrow> bool \<Rightarrow> ('pk, 'sk) Node \<Rightarrow> ('pk, 'sk) Node \<Rightarrow> bool" where
  "ext a b nd nd' \<longleftrightarrow>
     nd_Index nd' = nd_Index nd \<and> cs_SlotIndex (nd_cs nd') = cs_SlotIndex (nd_cs nd) \<and>
     (\<forall>k. IsSubslotFinished k (nd_cs nd) \<longrightarrow> IsSubslotFinished k (nd_cs nd')) \<and>
     rc_consensusGroup (cs_slotConsensus (nd_cs nd')) = rc_consensusGroup (cs_slotConsensus (nd_cs nd)) \<and>
     selfKey nd' = selfKey nd \<and>
     (a \<longrightarrow> signsAt (nd_Index nd) (nd_log nd') = signsAt (nd_Index nd) (nd_log nd)) \<and>
     (b \<longrightarrow> IsSelfLeaderInCurrentSlot (nd_cs nd) \<longrightarrow> commitsAt (nd_Index nd) (nd_log nd') = commitsAt (nd_Index nd) (nd_log nd))"

lemma leader_cong:
  "rc_consensusGroup (cs_slotConsensus cns') = rc_consensusGroup (cs_slotConsensus cns) \<Longrightarrow>
   rc_selfPubKey (cs_slotConsensus cns') = rc_selfPubKey (cs_slotConsensus cns) \<Longrightarrow>
   IsSelfLeaderInCurrentSlot cns' = IsSelfLeaderInCurrentSlot cns"
  by (simp add: IsSelfLeaderInCurrentSlot_def IsNodeLeaderInCurrentSlot_def GetLeader_def)

lemma ext_refl [simp]: "ext a b nd nd"
  by (simp add: ext_def)

lemma ext_trans: "ext a b x y \<Longrightarrow> ext a b y z \<Longrightarrow> ext a b x z"
  unfolding ext_def by (auto simp: leader_cong [of "nd_cs y" "nd_cs x"])

lemma ext_weaken: "ext True True x y \<Longrightarrow> ext a b x y"
  by (simp add: ext_def)

definition keeps :: "(BlockHeader option \<Rightarrow> bytes option) \<Rightarrow> bool \<Rightarrow> bool \<Rightarrow> bool \<Rightarrow> ('pk, 'sk) Node \<Rightarrow> ('pk, 'sk) Node \<Rightarrow> bool" where
  "keeps hh v4 a b nd nd' \<longleftrightarrow> node_inv hh v4 nd' \<and> ext a b nd nd'"

lemma keeps_refl: "node_inv hh v4 nd \<Longrightarrow> keeps hh v4 a b nd nd"
  by (simp add: keeps_def)

lemma keeps_trans: "keeps hh v4 a b x y \<Longrightarrow> (node_inv hh v4 y \<Longrightarrow> keeps hh v4 a b y z) \<Longrightarrow> keeps hh v4 a b x z"
  unfolding keeps_def by (blast intro: ext_trans)

lemma keeps_weaken: "keeps hh v4 True True x y \<Longrightarrow> keeps hh v4 a b x y"
  unfolding keeps_def by (blast intro: ext_weaken)

end
