(* ===== verification/ConsensusKeep.thy ===== *)
theory ConsensusKeep
  imports ConsensusInv
begin

text \<open>
  Every job, check and message handler of the consensus keeps the invariant of a node. The primitive updates come first:
  a log entry, a change outside the part of the state the invariant reads, a finished subslot, a job done.
\<close>

section \<open>Primitive updates\<close>

definition same_core :: "ConsensusState \<Rightarrow> ConsensusState \<Rightarrow> bool" where
  "same_core cns cns' \<longleftrightarrow>
     cs_Data cns' = cs_Data cns \<and> cs_Header cns' = cs_Header cns \<and> cs_SlotIndex cns' = cs_SlotIndex cns \<and>
     cs_slotConsensus cns' = cs_slotConsensus cns \<and> cs_slotThreshold cns' = cs_slotThreshold cns \<and>
     cs_slotStatus cns' = cs_slotStatus cns"

lemma same_core_eq:
  assumes "same_core cns cns'"
  shows "cs_Data cns' = cs_Data cns" "cs_Header cns' = cs_Header cns" "cs_SlotIndex cns' = cs_SlotIndex cns"
    "cs_slotConsensus cns' = cs_slotConsensus cns" "cs_slotThreshold cns' = cs_slotThreshold cns"
    "IsSubslotFinished k cns' = IsSubslotFinished k cns" "IsJobDone pk k cns' = IsJobDone pk k cns"
    "IsSelfLeaderInCurrentSlot cns' = IsSelfLeaderInCurrentSlot cns" "acceptedNow cns' idx log = acceptedNow cns idx log"
  using assms
  by (simp_all add: same_core_def IsSubslotFinished_def IsJobDone_def acceptedNow_def IsSelfLeaderInCurrentSlot_def
      IsNodeLeaderInCurrentSlot_def GetLeader_def)

lemma same_core_refl [simp]: "same_core cns cns"
  by (simp add: same_core_def)

lemma state_inv_core:
  assumes "same_core cns cns'" "cs_SlotCanceled cns \<longrightarrow> cs_SlotCanceled cns'" "state_inv hh cns idx log"
  shows "state_inv hh cns' idx log"
  using assms(2,3) unfolding state_inv_def same_core_eq [OF assms(1)] by blast

lemma node_fields [simp]:
  "nd_log (updCs f nd) = nd_log nd" "nd_Index (updCs f nd) = nd_Index nd" "nd_cs (updCs f nd) = f (nd_cs nd)"
  "nd_ms (updCs f nd) = nd_ms nd" "nd_mv (updCs f nd) = nd_mv nd"
  "nd_log (logE e nd) = (nd_Index nd, e) # nd_log nd" "nd_Index (logE e nd) = nd_Index nd" "nd_cs (logE e nd) = nd_cs nd"
  "nd_ms (logE e nd) = nd_ms nd" "nd_mv (logE e nd) = nd_mv nd"
  by (simp_all add: updCs_def logE_def)

text \<open>Changes of the multi-signer or the validator do not matter.\<close>

lemma keeps_cong:
  "nd_log x = nd_log x' \<Longrightarrow> nd_Index x = nd_Index x' \<Longrightarrow> nd_cs x = nd_cs x' \<Longrightarrow> keeps hh v4 a b x y \<Longrightarrow> keeps hh v4 a b x' y"
  by (simp add: keeps_def ext_def)

lemma node_inv_cong:
  "nd_log x = nd_log x' \<Longrightarrow> nd_Index x = nd_Index x' \<Longrightarrow> nd_cs x = nd_cs x' \<Longrightarrow> node_inv hh v4 x = node_inv hh v4 x'"
  by (simp add: node_inv_def)

lemma keeps_core:
  assumes "node_inv hh v4 nd" "same_core (nd_cs nd) (nd_cs nd')" "cs_SlotCanceled (nd_cs nd) \<longrightarrow> cs_SlotCanceled (nd_cs nd')"
    and "nd_log nd' = nd_log nd" "nd_Index nd' = nd_Index nd"
  shows "keeps hh v4 a b nd nd'"
  using assms state_inv_core [OF assms(2,3)] by (simp add: keeps_def node_inv_def ext_def same_core_eq [OF assms(2)])

lemma acceptedNow_Cons: "acceptedNow cns idx log \<Longrightarrow> acceptedNow cns idx (x # log)"
  unfolding acceptedNow_def by (blast intro: acceptedAt_Cons)

lemma state_inv_log:
  "state_inv hh cns idx log \<Longrightarrow> \<not> isCommit e \<Longrightarrow> state_inv hh cns idx ((s, e) # log)"
  unfolding state_inv_def by (auto intro: acceptedNow_Cons)

lemma keeps_log:
  assumes "node_inv hh v4 nd" "\<not> isSign e" "\<not> isCommit e"
  shows "keeps hh v4 a b nd (logE e nd)"
proof -
  have "log_inv hh v4 (nd_Index nd) ((nd_Index nd, e) # nd_log nd)"
    by (rule log_inv_Cons) (use assms in \<open>auto simp: node_inv_def\<close>)
  then show ?thesis
    using assms state_inv_log [of hh "nd_cs nd" "nd_Index nd" "nd_log nd" e "nd_Index nd"] by (simp add: keeps_def node_inv_def ext_def)
qed

lemma node_inv_state: "node_inv hh v4 nd \<Longrightarrow> state_inv hh (nd_cs nd) (nd_Index nd) (nd_log nd)"
  by (simp add: node_inv_def)

lemma node_inv_log: "node_inv hh v4 nd \<Longrightarrow> log_inv hh v4 (nd_Index nd) (nd_log nd)"
  by (simp add: node_inv_def)

lemma state_inv_facts:
  assumes "state_inv hh cns idx log"
  shows "IsSubslotFinished k cns \<Longrightarrow> cs_SlotIndex cns = idx"
    and "cs_Data cns \<noteq> None \<Longrightarrow> IsSubslotFinished SrStartSlot cns"
    and "IsSubslotFinished SrBlock cns \<Longrightarrow> IsSubslotFinished SrStartSlot cns"
    and "IsSubslotFinished SrSignature cns \<Longrightarrow> IsSubslotFinished SrBlock cns"
    and "cs_Data cns = None \<Longrightarrow> cs_Header cns = None"
    and "cs_Data cns = Some d \<Longrightarrow> \<exists>h. cs_Header cns = Some h \<and> hh (bl_Header h) = Some d"
    and "IsJobDone pk SrBlock cns \<Longrightarrow> acceptedNow cns idx log"
    and "IsSubslotFinished SrBlock cns \<Longrightarrow> acceptedNow cns idx log"
    and "commitsAt idx log \<noteq> [] \<Longrightarrow> IsSubslotFinished SrStartSlot cns"
    and "commitsAt idx log \<noteq> [] \<Longrightarrow> IsSubslotFinished SrEndSlot cns \<or> cs_SlotCanceled cns \<or> IsSelfLeaderInCurrentSlot cns"
    and "Threshold SrBlock (cs_slotThreshold cns) = 1"
    and "dom (rc_validatorSlotStates (cs_slotConsensus cns)) \<subseteq> set (groupOf (cs_slotConsensus cns))"
  using assms unfolding state_inv_def by (blast | simp add: Threshold_def)+

lemma finished_SetStatus [simp]: "IsSubslotFinished j (SetStatus k SsFinished cns) \<longleftrightarrow> j = k \<or> IsSubslotFinished j cns"
  by (simp add: IsSubslotFinished_def SetStatus_def status_Status_def status_SetStatus_def)

lemma SetStatus_fields [simp]:
  "cs_Data (SetStatus k s cns) = cs_Data cns" "cs_Header (SetStatus k s cns) = cs_Header cns"
  "cs_SlotIndex (SetStatus k s cns) = cs_SlotIndex cns" "cs_slotConsensus (SetStatus k s cns) = cs_slotConsensus cns"
  "cs_slotThreshold (SetStatus k s cns) = cs_slotThreshold cns" "cs_SlotCanceled (SetStatus k s cns) = cs_SlotCanceled cns"
  "IsJobDone pk j (SetStatus k s cns) = IsJobDone pk j cns" "acceptedNow (SetStatus k s cns) idx log = acceptedNow cns idx log"
  "IsSelfLeaderInCurrentSlot (SetStatus k s cns) = IsSelfLeaderInCurrentSlot cns"
  by (simp_all add: SetStatus_def IsJobDone_def acceptedNow_def IsSelfLeaderInCurrentSlot_def IsNodeLeaderInCurrentSlot_def GetLeader_def)

lemma state_inv_status:
  assumes "state_inv hh cns idx log" "cs_SlotIndex cns = idx"
    and "k = SrBlock \<Longrightarrow> IsSubslotFinished SrStartSlot cns \<and> acceptedNow cns idx log"
    and "k = SrSignature \<Longrightarrow> IsSubslotFinished SrBlock cns"
  shows "state_inv hh (SetStatus k SsFinished cns) idx log"
  using assms unfolding state_inv_def by (auto simp: sr_consts)

lemma keeps_status:
  assumes "node_inv hh v4 nd" "cs_SlotIndex (nd_cs nd) = nd_Index nd"
    and "k = SrBlock \<Longrightarrow> IsSubslotFinished SrStartSlot (nd_cs nd) \<and> acceptedNow (nd_cs nd) (nd_Index nd) (nd_log nd)"
    and "k = SrSignature \<Longrightarrow> IsSubslotFinished SrBlock (nd_cs nd)"
  shows "keeps hh v4 a b nd (updCs (SetStatus k SsFinished) nd)"
  using assms state_inv_status [of hh "nd_cs nd" "nd_Index nd" "nd_log nd" k] by (simp add: keeps_def node_inv_def ext_def)

lemma setJob_cases:
  obtains "setJob pk k nd = (nd, False)"
  | rcns where "SetJobDone pk k True (cs_slotConsensus (nd_cs nd)) = Inr rcns"
      "setJob pk k nd = (updCs (\<lambda>cns. cns\<lparr>cs_slotConsensus := rcns\<rparr>) nd, True)"
  by (cases "SetJobDone pk k True (cs_slotConsensus (nd_cs nd))") (auto simp: setJob_def)

lemma state_inv_job:
  assumes "state_inv hh cns idx log" "SetJobDone pk k True (cs_slotConsensus cns) = Inr rcns"
    and "k = SrBlock \<Longrightarrow> acceptedNow cns idx log"
  shows "state_inv hh (cns\<lparr>cs_slotConsensus := rcns\<rparr>) idx log"
proof -
  let ?cns = "cns\<lparr>cs_slotConsensus := rcns\<rparr>"
  note frame = SetJobDone_frame [OF assms(2)]
  have fin: "IsSubslotFinished j ?cns = IsSubslotFinished j cns" for j by (simp add: IsSubslotFinished_def)
  have acc: "acceptedNow ?cns idx log = acceptedNow cns idx log" by (simp add: acceptedNow_def)
  have leader: "IsSelfLeaderInCurrentSlot ?cns = IsSelfLeaderInCurrentSlot cns"
    by (rule leader_cong) (simp_all add: frame)
  have job: "acceptedNow cns idx log" if "IsJobDone q SrBlock ?cns" for q
    using that assms(3) state_inv_facts(7) [OF assms(1), of q] JobDone_SetJobDone [OF assms(2), of q SrBlock]
    by (auto simp: IsJobDone_iff split: if_splits)
  then have "(\<exists>q. IsJobDone q SrBlock ?cns) \<or> IsSubslotFinished SrBlock cns \<longrightarrow> acceptedNow cns idx log"
    using state_inv_facts(8) [OF assms(1)] by blast
  then show ?thesis
    using assms(1) unfolding state_inv_def fin acc leader by (simp add: frame)
qed

lemma keeps_job:
  assumes "node_inv hh v4 nd" "k = SrBlock \<Longrightarrow> acceptedNow (nd_cs nd) (nd_Index nd) (nd_log nd)"
  shows "keeps hh v4 a b nd (fst (setJob pk k nd))"
proof (cases rule: setJob_cases [of pk k nd])
  case 1
  then show ?thesis using assms(1) by (simp add: keeps_refl)
next
  case (2 rcns)
  then show ?thesis
    using assms(1) state_inv_job [OF node_inv_state [OF assms(1)] 2(1) assms(2)] SetJobDone_frame [OF 2(1)]
    by (simp add: keeps_def node_inv_def ext_def IsSubslotFinished_def)
qed

lemma guard_core:
  "same_core cns (fst (AcquireProcessingBlock s cns))" "cs_SlotCanceled (fst (AcquireProcessingBlock s cns)) = cs_SlotCanceled cns"
  "same_core cns (releaseProcessingBlock s acquired cns)" "cs_SlotCanceled (releaseProcessingBlock s acquired cns) = cs_SlotCanceled cns"
  by (simp_all add: same_core_def AcquireProcessingBlock_def releaseProcessingBlock_def SetProcessingBlockIfSlot_def)

lemma guarded_keeps:
  assumes "node_inv hh v4 nd"
    and body: "\<And>cns. same_core (nd_cs nd) cns \<Longrightarrow> cs_SlotCanceled cns = cs_SlotCanceled (nd_cs nd) \<Longrightarrow>
      node_inv hh v4 (nd\<lparr>nd_cs := cns\<rparr>) \<Longrightarrow> keeps hh v4 a b (nd\<lparr>nd_cs := cns\<rparr>) (fst (body (nd\<lparr>nd_cs := cns\<rparr>)))"
  shows "keeps hh v4 a b nd (fst (guarded s body nd))"
proof -
  obtain cns acquired where acq: "AcquireProcessingBlock s (nd_cs nd) = (cns, acquired)" by fastforce
  let ?nd = "nd\<lparr>nd_cs := cns\<rparr>"
  obtain nd' r where b: "body ?nd = (nd', r)" by fastforce
  have core: "same_core (nd_cs nd) cns" "cs_SlotCanceled cns = cs_SlotCanceled (nd_cs nd)"
    using guard_core(1) [of "nd_cs nd" s] guard_core(2) [of s "nd_cs nd"] acq by simp_all
  have 1: "keeps hh v4 a b nd ?nd" by (rule keeps_core [OF assms(1)]) (simp_all add: core)
  have 2: "keeps hh v4 a b ?nd nd'" if "node_inv hh v4 ?nd" using body [OF core that] b by simp
  have 3: "keeps hh v4 a b nd' (updCs (releaseProcessingBlock s acquired) nd')" if "node_inv hh v4 nd'"
    by (rule keeps_core [OF that]) (simp_all add: guard_core)
  have "fst (guarded s body nd) = updCs (releaseProcessingBlock s acquired) nd'" by (simp add: guarded_def acq b)
  with keeps_trans [OF keeps_trans [OF 1 2] 3] show ?thesis by simp
qed

lemma canceled_core [simp]: "same_core cns (SetSlotCanceled True cns)" "cs_SlotCanceled (SetSlotCanceled True cns)"
  by (simp_all add: same_core_def SetSlotCanceled_def)

lemma keeps_cancel: "node_inv hh v4 nd \<Longrightarrow> keeps hh v4 a b nd (updCs (SetSlotCanceled True) nd)"
  by (rule keeps_core) simp_all

lemma keeps_cancelSlot: "node_inv hh v4 nd \<Longrightarrow> keeps hh v4 a b nd (fst (cancelSlot nd))"
  by (simp add: cancelSlot_def keeps_cancel)

section \<open>Block\<close>

lemma processGuarded_keeps:
  assumes "node_inv hh v4 nd" "cs_Header (nd_cs nd) = Some header"
  shows "keeps hh v4 a b nd (fst (processGuarded env cnsDta header nd))"
proof -
  let ?nd1 = "logE (EvProcess header (ev_ProcessBlock env header)) nd"
  have 1: "keeps hh v4 a b nd ?nd1" by (rule keeps_log [OF assms(1)]) simp_all
  then have inv: "node_inv hh v4 ?nd1" by (simp add: keeps_def)
  have acc: "acceptedNow (nd_cs ?nd1) (nd_Index ?nd1) (nd_log ?nd1)" if "ev_ProcessBlock env header"
    using that assms(2) by (auto simp: acceptedNow_def acceptedAt_def intro: exI [of _ header])
  have 2: "keeps hh v4 a b nd (fst (setJob pk SrBlock ?nd1))" if "ev_ProcessBlock env header" for pk
    by (rule keeps_trans [OF 1]) (rule keeps_job [OF inv acc [OF that]])
  have 3: "keeps hh v4 a b nd (fst (cancelSlot ?nd1))" by (rule keeps_trans [OF 1]) (rule keeps_cancelSlot)
  show ?thesis using 1 2 3 assms(1) by (cases "ev_ProcessBlock env header") (simp_all add: processGuarded_def Let_def keeps_refl)
qed

text \<open>The header of the slot is set when there is none; nobody has done the block job then.\<close>

lemma keeps_set_header:
  assumes "node_inv hh v4 nd" "cs_Data (nd_cs nd) = None" "IsSubslotFinished SrStartSlot (nd_cs nd)" "hh (bl_Header h) = Some d"
  shows "keeps hh v4 a b nd (updCs (\<lambda>cns. cns\<lparr>cs_Data := Some d, cs_Header := Some h\<rparr>) nd)"
proof -
  note inv = node_inv_state [OF assms(1)]
  let ?cns = "(nd_cs nd)\<lparr>cs_Data := Some d, cs_Header := Some h\<rparr>"
  have "cs_Header (nd_cs nd) = None" by (rule state_inv_facts(5) [OF inv assms(2)])
  then have none: "\<not> acceptedNow (nd_cs nd) (nd_Index nd) (nd_log nd)" by (simp add: acceptedNow_def)
  have fin: "IsSubslotFinished j ?cns = IsSubslotFinished j (nd_cs nd)" for j by (simp add: IsSubslotFinished_def)
  have job: "IsJobDone q j ?cns = IsJobDone q j (nd_cs nd)" for q j by (simp add: IsJobDone_def)
  have leader: "IsSelfLeaderInCurrentSlot ?cns = IsSelfLeaderInCurrentSlot (nd_cs nd)" by (rule leader_cong) simp_all
  have "state_inv hh ?cns (nd_Index nd) (nd_log nd)"
    using inv assms(3,4) none unfolding state_inv_def fin job leader by auto
  then show ?thesis using assms(1) by (simp add: keeps_def node_inv_def ext_def fin)
qed

lemma receivedBlockHeader_keeps:
  assumes "node_inv hh v4 nd" "cm_SlotIndex m = nd_Index nd \<Longrightarrow> IsSubslotFinished SrStartSlot (nd_cs nd)"
    and "\<And>d h. cm_BlockHeaderHash m = Some d \<Longrightarrow> ev_DecodeBlockHeader env (bytesOf (cm_Header m)) = Some h \<Longrightarrow> hh (bl_Header h) = Some d"
  shows "keeps hh v4 a b nd (fst (receivedBlockHeader env m nd))"
proof -
  have score: "keeps hh v4 a b nd (logE (EvScore pk i) nd)" for pk i by (rule keeps_log [OF assms(1)]) simp_all
  have set: "keeps hh v4 a b nd (logE (EvScore pk i) (fst (processReceivedBlock env m
      (updCs (\<lambda>cns. cns\<lparr>cs_Data := Some d, cs_Header := Some h\<rparr>) nd))))" (is "keeps hh v4 a b nd (logE _ (fst (processReceivedBlock env m ?nd)))")
    if "cs_Data (nd_cs nd) = None" "cm_SlotIndex m = nd_Index nd" "hh (bl_Header h) = Some d" for d h pk i
  proof -
    have 1: "keeps hh v4 a b nd ?nd" by (rule keeps_set_header [OF assms(1) that(1) assms(2) [OF that(2)] that(3)])
    have 2: "keeps hh v4 a b ?nd (fst (processReceivedBlock env m ?nd))" if "node_inv hh v4 ?nd"
      unfolding processReceivedBlock_def
      by (simp, rule guarded_keeps [OF that]) (rule processGuarded_keeps, assumption, simp add: same_core_eq)
    show ?thesis by (rule keeps_trans [OF keeps_trans [OF 1 2]]) (assumption, rule keeps_log, simp_all)
  qed
  show ?thesis
    unfolding receivedBlockHeader_def Let_def
    using assms(1,3) score set
    by (auto simp: keeps_refl IsConsensusDataSet_def CanProcessReceivedMessage_def case_prod_beta split: option.split if_splits)
qed

lemma keeps_propose:
  assumes "node_inv hh v4 nd" "IsSubslotFinished SrStartSlot (nd_cs nd)" "hh (bl_Header h) = Some d"
  shows "keeps hh v4 a b nd (logE (EvPropose h) (updCs (\<lambda>cns. cns\<lparr>cs_Data := Some d, cs_Header := Some h\<rparr>) nd))"
proof -
  note inv = node_inv_state [OF assms(1)]
  let ?cns = "(nd_cs nd)\<lparr>cs_Data := Some d, cs_Header := Some h\<rparr>"
  let ?log = "(nd_Index nd, EvPropose h) # nd_log nd"
  have acc: "acceptedNow ?cns (nd_Index nd) ?log" by (auto simp: acceptedNow_def acceptedAt_def intro: exI [of _ h])
  have fin: "IsSubslotFinished j ?cns = IsSubslotFinished j (nd_cs nd)" for j by (simp add: IsSubslotFinished_def)
  have leader: "IsSelfLeaderInCurrentSlot ?cns = IsSelfLeaderInCurrentSlot (nd_cs nd)" by (rule leader_cong) simp_all
  have "state_inv hh ?cns (nd_Index nd) ?log"
    using inv assms(2,3) acc unfolding state_inv_def fin leader by simp
  moreover have "log_inv hh v4 (nd_Index nd) ?log"
    by (rule log_inv_Cons) (use assms in \<open>auto simp: node_inv_def\<close>)
  ultimately show ?thesis by (simp add: keeps_def node_inv_def ext_def fin)
qed

lemma sendBlock_keeps:
  assumes "node_inv hh v4 nd" "IsSubslotFinished SrStartSlot (nd_cs nd)"
    and "CalculateHash (hv_marshal (ev_hv env)) (hv_hasher (ev_hv env)) = hh"
  shows "keeps hh v4 a b nd (fst (sendBlock env header nd))"
    and "snd (sendBlock env header nd) \<Longrightarrow>
      acceptedNow (nd_cs (fst (sendBlock env header nd))) (nd_Index (fst (sendBlock env header nd))) (nd_log (fst (sendBlock env header nd)))"
proof -
  let ?set = "\<lambda>d cns. cns\<lparr>cs_Data := Some d, cs_Header := Some header\<rparr>"
  have send: "keeps hh v4 a b nd (logE (EvPropose header) (updCs (?set d) (logE (EvBroadcast m) nd)))"
    if "hh (bl_Header header) = Some d" for d m
    by (rule keeps_trans [OF keeps_log [OF assms(1), of "EvBroadcast m"]]) (simp_all add: keeps_propose assms(2) that)
  show "keeps hh v4 a b nd (fst (sendBlock env header nd))"
    using send assms(1) by (auto simp: sendBlock_def sendBlockHeader_def Let_def assms(3) keeps_refl split: option.split)
  show "acceptedNow (nd_cs (fst (sendBlock env header nd))) (nd_Index (fst (sendBlock env header nd))) (nd_log (fst (sendBlock env header nd)))"
    if "snd (sendBlock env header nd)"
    using that by (auto simp: sendBlock_def sendBlockHeader_def Let_def acceptedNow_def acceptedAt_def split: option.splits if_splits
        intro: exI [of _ header])
qed

lemma doBlockJob_keeps:
  assumes "node_inv hh v4 nd" "IsSubslotFinished SrStartSlot (nd_cs nd)"
    and "CalculateHash (hv_marshal (ev_hv env)) (hv_hasher (ev_hv env)) = hh"
  shows "keeps hh v4 a b nd (fst (doBlockJob env nd))"
proof -
  note send = sendBlock_keeps [OF assms]
  have "keeps hh v4 a b nd (fst (case sendBlock env h nd of (nd1, False) \<Rightarrow> (nd1, False) | (nd1, True) \<Rightarrow> setJob (selfKey nd1) SrBlock nd1))" for h
  proof -
    obtain nd1 r where s: "sendBlock env h nd = (nd1, r)" by fastforce
    have 1: "keeps hh v4 a b nd nd1" using send(1) [where header = h and a = a and b = b] by (simp add: s)
    have "keeps hh v4 a b nd (fst (setJob pk SrBlock nd1))" if "r" for pk
      by (rule keeps_trans [OF 1], rule keeps_job) (use send(2) [of h] s that in simp_all)
    then show ?thesis using 1 s by (cases r) simp_all
  qed
  then show ?thesis using assms(1) unfolding doBlockJob_def by (simp add: keeps_refl split: option.split)
qed

lemma doBlockConsensusCheck_keeps:
  assumes "node_inv hh v4 nd" "IsSubslotFinished SrStartSlot (nd_cs nd)"
  shows "keeps hh v4 a b nd (fst (doBlockConsensusCheck nd))"
    and "snd (doBlockConsensusCheck nd) \<Longrightarrow> IsSubslotFinished SrBlock (nd_cs (fst (doBlockConsensusCheck nd)))"
proof -
  note inv = node_inv_state [OF assms(1)]
  have acc: "acceptedNow (nd_cs nd) (nd_Index nd) (nd_log nd)" if "isBlockReceived 1 (nd_cs nd)"
  proof -
    from that have "filter (\<lambda>node. JobDone node SrBlock (cs_slotConsensus (nd_cs nd)) = Inr True) (groupOf (cs_slotConsensus (nd_cs nd))) \<noteq> []"
      by (auto simp: isBlockReceived_def jobsDone_def)
    then obtain pk where "IsJobDone pk SrBlock (nd_cs nd)" by (auto simp: filter_empty_conv IsJobDone_iff)
    then show ?thesis by (rule state_inv_facts(7) [OF inv])
  qed
  have "keeps hh v4 a b nd (updCs (SetStatus SrBlock SsFinished) nd)" if "isBlockReceived 1 (nd_cs nd)"
    using acc [OF that] by (intro keeps_status [OF assms(1) state_inv_facts(1) [OF inv assms(2)]]) (use assms(2) in \<open>simp_all add: sr_consts\<close>)
  then show "keeps hh v4 a b nd (fst (doBlockConsensusCheck nd))"
    using assms(1) by (simp add: doBlockConsensusCheck_def keeps_refl state_inv_facts(11) [OF inv])
  show "IsSubslotFinished SrBlock (nd_cs (fst (doBlockConsensusCheck nd)))" if "snd (doBlockConsensusCheck nd)"
    using that by (auto simp: doBlockConsensusCheck_def split: if_splits)
qed

section \<open>Signatures\<close>

lemma keeps_sign:
  assumes "node_inv hh v4 nd" "signsAt (nd_Index nd) (nd_log nd) = []" "IsSubslotFinished SrBlock (nd_cs nd)" "cs_Data (nd_cs nd) = Some d"
  shows "keeps hh v4 False b nd (logE (EvSign d) nd)"
proof -
  note inv = node_inv_state [OF assms(1)]
  obtain h h' where h: "cs_Header (nd_cs nd) = Some h" "same_body h h'" "acceptedAt (nd_Index nd) (nd_log nd) h'"
    using state_inv_facts(8) [OF inv assms(3)] by (auto simp: acceptedNow_def)
  have "hh (bl_Header h) = Some d" using state_inv_facts(6) [OF inv assms(4)] h(1) by simp
  then have "hh (bl_Header h') = Some d" using h(2) by (simp add: same_body_def)
  then have "log_inv hh v4 (nd_Index nd) ((nd_Index nd, EvSign d) # nd_log nd)"
    by (intro log_inv_Cons [OF node_inv_log [OF assms(1)]]) (use assms(2) h(3) in auto)
  then show ?thesis
    using state_inv_log [OF inv, of "EvSign d" "nd_Index nd"] by (simp add: keeps_def node_inv_def ext_def)
qed

lemma keeps_ms: "node_inv hh v4 nd \<Longrightarrow> keeps hh v4 a b nd (nd\<lparr>nd_ms := ms\<rparr>)"
  by (rule keeps_core) simp_all

lemma doSignatureJob_keeps:
  assumes "node_inv hh v4 nd" "signsAt (nd_Index nd) (nd_log nd) = []" "IsSubslotFinished SrBlock (nd_cs nd)"
  shows "keeps hh v4 False b nd (fst (doSignatureJob env nd))"
proof -
  let ?nd1 = "\<lambda>ms d. logE (EvSign d) (nd\<lparr>nd_ms := ms\<rparr>)"
  have 1: "keeps hh v4 False b nd (?nd1 ms d)" if "cs_Data (nd_cs nd) = Some d" for ms d
    by (rule keeps_trans [OF keeps_ms [OF assms(1)]]) (rule keeps_sign, simp_all add: assms that)
  have 2: "keeps hh v4 False b nd (fst (setJob pk SrSignature (?nd1 ms d)))" if "cs_Data (nd_cs nd) = Some d" for ms d pk
    by (rule keeps_trans [OF 1 [OF that]], rule keeps_job) (simp_all add: sr_consts)
  have 3: "keeps hh v4 False b nd (fst (setJob pk SrSignature (logE (EvBroadcast m) (?nd1 ms d))))"
    if "cs_Data (nd_cs nd) = Some d" for ms d pk m
  proof -
    have "keeps hh v4 False b nd (logE (EvBroadcast m) (?nd1 ms d))" by (rule keeps_trans [OF 1 [OF that] keeps_log]) simp_all
    then show ?thesis by (rule keeps_trans) (rule keeps_job, simp_all add: sr_consts)
  qed
  show ?thesis
  proof (cases "cs_Data (nd_cs nd)")
    case None
    then show ?thesis using assms(1) by (simp add: doSignatureJob_def CanDoSubslotJob_def IsConsensusDataSet_def keeps_refl)
  next
    case (Some d)
    then show ?thesis
      using assms(1) 1 2 3 by (auto simp: doSignatureJob_def Let_def bytesOf_def keeps_refl split: sum.split option.split)
  qed
qed

lemma receivedSignature_keeps:
  assumes "node_inv hh v4 nd"
  shows "keeps hh v4 a b nd (fst (receivedSignature env m nd))"
proof -
  have score: "keeps hh v4 a b nd (logE (EvScore pk i) nd)" for pk i by (rule keeps_log [OF assms]) simp_all
  have job: "keeps hh v4 a b nd (fst (setJob pk SrSignature (nd\<lparr>nd_ms := ms\<rparr>)))" for pk ms
    by (rule keeps_trans [OF keeps_ms [OF assms]], rule keeps_job) (simp_all add: sr_consts)
  have "keeps hh v4 a b nd (fst (case setJob pk SrSignature (nd\<lparr>nd_ms := ms\<rparr>) of
      (nd1, False) \<Rightarrow> (nd1, False) | (nd1, True) \<Rightarrow> (logE (EvScore pk i) nd1, True)))" for pk ms i
  proof -
    obtain nd1 r where s: "setJob pk SrSignature (nd\<lparr>nd_ms := ms\<rparr>) = (nd1, r)" by fastforce
    have 1: "keeps hh v4 a b nd nd1" using job [of pk ms] by (simp add: s)
    have "keeps hh v4 a b nd (logE (EvScore pk i) nd1)" by (rule keeps_trans [OF 1 keeps_log]) simp_all
    then show ?thesis using 1 s by (cases r) simp_all
  qed
  then show ?thesis
    using score assms unfolding receivedSignature_def Let_def by (simp add: keeps_refl split: sum.split)
qed

lemma doSignatureConsensusCheck_keeps:
  assumes "node_inv hh v4 nd" "IsSubslotFinished SrBlock (nd_cs nd)"
  shows "keeps hh v4 a b nd (fst (doSignatureConsensusCheck env nd))"
    and "snd (doSignatureConsensusCheck env nd) \<Longrightarrow> IsSubslotFinished SrSignature (nd_cs (fst (doSignatureConsensusCheck env nd)))"
proof -
  note inv = node_inv_state [OF assms(1)]
  have "keeps hh v4 a b nd (updCs (SetStatus SrSignature SsFinished) nd)"
    by (rule keeps_status [OF assms(1) state_inv_facts(1) [OF inv assms(2)]]) (use assms(2) in \<open>simp_all add: sr_consts\<close>)
  then show "keeps hh v4 a b nd (fst (doSignatureConsensusCheck env nd))"
    using assms(1) by (simp add: doSignatureConsensusCheck_def Let_def keeps_refl split: prod.split)
  show "IsSubslotFinished SrSignature (nd_cs (fst (doSignatureConsensusCheck env nd)))" if "snd (doSignatureConsensusCheck env nd)"
    using that by (auto simp: doSignatureConsensusCheck_def Let_def split: prod.splits if_splits)
qed

end
