(* ===== verification/ConsensusKeepEnd.thy ===== *)
theory ConsensusKeepEnd
  imports ConsensusKeep
begin

text \<open>
  The end of a slot and its start keep the invariant of a node: a commit is of a block the node accepted and happens
  once, and a new slot starts from a state without header, jobs or finished subslots.
\<close>

section \<open>Commits\<close>

lemma state_inv_commit:
  "state_inv hh cns idx log \<Longrightarrow> IsSubslotFinished SrStartSlot cns \<Longrightarrow>
   IsSubslotFinished SrEndSlot cns \<or> cs_SlotCanceled cns \<or> IsSelfLeaderInCurrentSlot cns \<Longrightarrow> state_inv hh cns idx ((s, EvCommit h ok) # log)"
  unfolding state_inv_def by (auto intro: acceptedNow_Cons)

text \<open>The node is about to commit \<open>h\<close>.\<close>

definition may_commit :: "bool \<Rightarrow> Block \<Rightarrow> ('pk, 'sk) Node \<Rightarrow> bool" where
  "may_commit v4 h nd \<longleftrightarrow>
     commitsAt (nd_Index nd) (nd_log nd) = [] \<and> IsSubslotFinished SrStartSlot (nd_cs nd) \<and>
     (\<exists>h'. same_body h h' \<and> acceptedAt (nd_Index nd) (nd_log nd) h') \<and> (v4 \<longrightarrow> GetSlot h = SafeI64ToU64 (nd_Index nd))"

lemma may_commitI:
  assumes "node_inv hh v4 nd" "IsSubslotFinished SrSignature (nd_cs nd)" "cs_Header (nd_cs nd) = Some h0" "same_body h h0"
    and "commitsAt (nd_Index nd) (nd_log nd) = []" "v4 \<Longrightarrow> GetSlot h = SafeI64ToU64 (nd_Index nd)"
  shows "may_commit v4 h nd"
proof -
  note inv = node_inv_state [OF assms(1)]
  have block: "IsSubslotFinished SrBlock (nd_cs nd)" by (rule state_inv_facts(4) [OF inv assms(2)])
  then have "\<exists>h'. same_body h h' \<and> acceptedAt (nd_Index nd) (nd_log nd) h'"
    using state_inv_facts(8) [OF inv] assms(3,4) by (auto simp: acceptedNow_def intro: same_body_trans)
  then show ?thesis using assms(5,6) state_inv_facts(3) [OF inv block] by (simp add: may_commit_def)
qed

lemma may_commit_log: "may_commit v4 h nd \<Longrightarrow> \<not> isCommit e \<Longrightarrow> may_commit v4 h (logE e nd)"
  by (auto simp: may_commit_def intro: acceptedAt_Cons)

lemma keeps_commit:
  assumes "node_inv hh v4 nd" "may_commit v4 h nd"
    and "IsSubslotFinished SrEndSlot (nd_cs nd) \<or> cs_SlotCanceled (nd_cs nd) \<or> IsSelfLeaderInCurrentSlot (nd_cs nd)"
    and "b \<Longrightarrow> \<not> IsSelfLeaderInCurrentSlot (nd_cs nd)"
  shows "keeps hh v4 a b nd (logE (EvCommit h ok) nd)"
proof -
  have "log_inv hh v4 (nd_Index nd) ((nd_Index nd, EvCommit h ok) # nd_log nd)"
    by (rule log_inv_Cons [OF node_inv_log [OF assms(1)]]) (use assms(2) in \<open>auto simp: may_commit_def\<close>)
  moreover have "state_inv hh (nd_cs nd) (nd_Index nd) ((nd_Index nd, EvCommit h ok) # nd_log nd)"
    by (rule state_inv_commit [OF node_inv_state [OF assms(1)] _ assms(3)]) (use assms(2) in \<open>simp add: may_commit_def\<close>)
  ultimately show ?thesis using assms(4) by (auto simp: keeps_def node_inv_def ext_def)
qed

lemma logE_updCs: "updCs f (logE e nd) = logE e (updCs f nd)"
  by (simp add: logE_def updCs_def)

text \<open>A commit that ends the slot and one that cancels it.\<close>

lemma keeps_commit_end:
  assumes "node_inv hh v4 nd" "may_commit v4 h nd" "b \<Longrightarrow> \<not> IsSelfLeaderInCurrentSlot (nd_cs nd)"
  shows "keeps hh v4 a b nd (updCs (SetStatus SrEndSlot SsFinished) (logE (EvCommit h ok) nd))"
proof -
  let ?nd = "updCs (SetStatus SrEndSlot SsFinished) nd"
  have "cs_SlotIndex (nd_cs nd) = nd_Index nd"
    by (rule state_inv_facts(1) [OF node_inv_state [OF assms(1)], of SrStartSlot]) (use assms(2) in \<open>simp add: may_commit_def\<close>)
  then have 1: "keeps hh v4 a b nd ?nd" by (intro keeps_status [OF assms(1)]) (simp_all add: sr_consts)
  have "may_commit v4 h ?nd" using assms(2) by (simp add: may_commit_def)
  then show ?thesis unfolding logE_updCs by (intro keeps_trans [OF 1] keeps_commit) (simp_all add: assms(3))
qed

lemma keeps_commit_cancel:
  assumes "node_inv hh v4 nd" "may_commit v4 h nd" "b \<Longrightarrow> \<not> IsSelfLeaderInCurrentSlot (nd_cs nd)"
  shows "keeps hh v4 a b nd (updCs (SetSlotCanceled True) (logE (EvCommit h ok) nd))"
proof -
  have "may_commit v4 h (updCs (SetSlotCanceled True) nd)"
    using assms(2) by (simp add: may_commit_def same_core_eq [OF canceled_core(1)])
  then show ?thesis
    unfolding logE_updCs
    by (intro keeps_trans [OF keeps_cancel [OF assms(1)]] keeps_commit) (simp_all add: assms(3) same_core_eq [OF canceled_core(1)])
qed

section \<open>The participant\<close>

lemma logs_keep:
  assumes "node_inv hh v4 nd"
  shows "keeps hh v4 a b nd (setHeaderForValidator env header nd)"
    and "keeps hh v4 a b nd (prepareBroadcastBlockDataForValidator env nd)"
    and "keeps hh v4 a b nd (createAndBroadcastHeaderFinalInfo env header nd)"
  using assms
  by (auto simp: setHeaderForValidator_def prepareBroadcastBlockDataForValidator_def createAndBroadcastHeaderFinalInfo_def Let_def
      keeps_refl intro: keeps_log split: sum.split)

lemma participantCommit_keeps:
  assumes "node_inv hh v4 nd" "IsSubslotFinished SrSignature (nd_cs nd)" "cs_Header (nd_cs nd) = Some h0" "same_body h h0"
    and "\<not> cs_SlotCanceled (nd_cs nd)" "\<not> IsSubslotFinished SrEndSlot (nd_cs nd)" "\<not> IsSelfLeaderInCurrentSlot (nd_cs nd)"
    and "v4 \<longrightarrow> ev_FixAuditChangesV4 env"
  shows "keeps hh v4 a b nd (fst (participantCommit env h nd))"
proof -
  let ?nd3 = "updCs (SetStatus SrEndSlot SsFinished) (logE (EvCommit h True) nd)"
  have may: "may_commit v4 h nd" if "\<not> GetSlot h < SafeI64ToU64 (nd_Index nd)" "\<not> isHeaderSlotInTheFuture env h nd"
    by (rule may_commitI [OF assms(1-4)])
      (use that assms(5-8) state_inv_facts(10) [OF node_inv_state [OF assms(1)]] in \<open>auto simp: isHeaderSlotInTheFuture_def split: if_splits\<close>)
  have 1: "keeps hh v4 a b nd ?nd3" if "may_commit v4 h nd" by (rule keeps_commit_end [OF assms(1) that]) (use assms(7) in simp)
  have 2: "keeps hh v4 a b nd (setHeaderForValidator env h ?nd3)" if "may_commit v4 h nd"
    by (rule keeps_trans [OF 1 [OF that]]) (rule logs_keep(1))
  have 3: "keeps hh v4 a b nd (fst (cancelSlot (logE (EvCommit h False) nd)))" if "may_commit v4 h nd"
    using keeps_commit_cancel [OF assms(1) that] assms(7) by (simp add: cancelSlot_def)
  show ?thesis
    using may 1 2 3 assms(1) keeps_cancel [OF assms(1)]
    by (cases "ev_CommitBlock env h") (auto simp: participantCommit_def isOutOfTime_def Let_def keeps_refl)
qed

lemma fullInfo_body:
  assumes "haveConsensusHeaderWithFullInfo env cnsDta nd = Some h"
  shows "\<exists>h0. cs_Header (nd_cs nd) = Some h0 \<and> same_body h h0"
  using assms
  by (auto simp: haveConsensusHeaderWithFullInfo_def isConsensusHeaderReceived_def messageHeader_def cloneWithSignatures_def same_body_def
      SetSignature_def SetPubKeysBitmap_def SetProducerSignature_def split: option.splits)

lemma doEndSlotJobByParticipant_keeps:
  assumes "node_inv hh v4 nd" "\<not> IsSelfLeaderInCurrentSlot (nd_cs nd)" "v4 \<longrightarrow> ev_FixAuditChangesV4 env"
  shows "keeps hh v4 a b nd (fst (doEndSlotJobByParticipant env cnsDta nd))"
proof -
  have "keeps hh v4 a b nd (fst (guarded s (participantCommit env h) nd))"
    if "\<not> cs_SlotCanceled (nd_cs nd)" "IsSubslotFinished SrSignature (nd_cs nd)" "\<not> IsSubslotFinished SrEndSlot (nd_cs nd)"
      "haveConsensusHeaderWithFullInfo env cnsDta nd = Some h" for s h
  proof (rule guarded_keeps [OF assms(1)])
    fix cns assume c: "same_core (nd_cs nd) cns" "cs_SlotCanceled cns = cs_SlotCanceled (nd_cs nd)" "node_inv hh v4 (nd\<lparr>nd_cs := cns\<rparr>)"
    from fullInfo_body [OF that(4)] obtain h0 where "cs_Header (nd_cs nd) = Some h0" "same_body h h0" by blast
    then show "keeps hh v4 a b (nd\<lparr>nd_cs := cns\<rparr>) (fst (participantCommit env h (nd\<lparr>nd_cs := cns\<rparr>)))"
      using participantCommit_keeps [OF c(3), of h0 h] that(1-3) c(2) assms(2,3) by (simp add: same_core_eq [OF c(1)])
  qed
  then show ?thesis using assms(1) by (simp add: doEndSlotJobByParticipant_def keeps_refl split: option.split)
qed

lemma receivedBlockHeaderFinalInfo_keeps:
  assumes "node_inv hh v4 nd" "v4 \<longrightarrow> ev_FixAuditChangesV4 env"
  shows "keeps hh v4 a b nd (fst (receivedBlockHeaderFinalInfo env m nd))"
proof -
  have score: "keeps hh v4 a b nd (logE (EvScore pk i) nd)" for pk i by (rule keeps_log [OF assms(1)]) simp_all
  have "keeps hh v4 a b nd (fst (doEndSlotJobByParticipant env (Some m) (logE (EvScore pk i) nd)))"
    if "\<not> IsSelfLeaderInCurrentSlot (nd_cs nd)" for pk i
    by (rule keeps_trans [OF score]) (rule doEndSlotJobByParticipant_keeps, simp_all add: that assms(2))
  then show ?thesis using assms(1) score by (simp add: receivedBlockHeaderFinalInfo_def Let_def keeps_refl)
qed

lemma receivedHeader_keeps:
  assumes "node_inv hh v4 nd" "v4 \<longrightarrow> ev_FixAuditChangesV4 env"
  shows "keeps hh v4 a b nd (receivedHeader env h nd)"
proof -
  have core: "same_core cns (AddReceivedHeader h cns)" "cs_SlotCanceled (AddReceivedHeader h cns) = cs_SlotCanceled cns" for cns
    by (simp_all add: same_core_def AddReceivedHeader_def)
  have 1: "keeps hh v4 a b nd (updCs (AddReceivedHeader h) nd)" by (rule keeps_core [OF assms(1)]) (simp_all add: core)
  have "keeps hh v4 a b nd (fst (doEndSlotJobByParticipant env None (updCs (AddReceivedHeader h) nd)))"
    if "\<not> IsSelfLeaderInCurrentSlot (nd_cs nd)"
    by (rule keeps_trans [OF 1]) (rule doEndSlotJobByParticipant_keeps, simp_all add: that assms(2) same_core_eq [OF core(1)])
  then show ?thesis using assms(1) by (simp add: receivedHeader_def keeps_refl)
qed

section \<open>The leader\<close>

lemma keeps_header:
  assumes "node_inv hh v4 nd" "cs_Header (nd_cs nd) = Some h0" "same_body h h0"
  shows "keeps hh v4 a b nd (updCs (\<lambda>cns. cns\<lparr>cs_Header := Some h\<rparr>) nd)"
proof -
  note inv = node_inv_state [OF assms(1)]
  let ?cns = "(nd_cs nd)\<lparr>cs_Header := Some h\<rparr>"
  have fin: "IsSubslotFinished j ?cns = IsSubslotFinished j (nd_cs nd)" for j by (simp add: IsSubslotFinished_def)
  have job: "IsJobDone q j ?cns = IsJobDone q j (nd_cs nd)" for q j by (simp add: IsJobDone_def)
  have leader: "IsSelfLeaderInCurrentSlot ?cns = IsSelfLeaderInCurrentSlot (nd_cs nd)" by (rule leader_cong) simp_all
  have acc: "acceptedNow (nd_cs nd) i l \<longrightarrow> acceptedNow ?cns i l" for i l
    using assms(2,3) by (auto simp: acceptedNow_def intro: same_body_trans)
  have "bl_Header h = bl_Header h0" using assms(3) by (simp add: same_body_def)
  then have "state_inv hh ?cns (nd_Index nd) (nd_log nd)"
    using inv assms(2) acc unfolding state_inv_def fin job leader by auto
  then show ?thesis using assms(1) by (simp add: keeps_def node_inv_def ext_def fin)
qed

lemma leaderCommit_keeps:
  assumes "node_inv hh v4 nd" "may_commit v4 h nd" "IsSelfLeaderInCurrentSlot (nd_cs nd)"
  shows "keeps hh v4 a False nd (fst (leaderCommit env h nd))"
proof -
  let ?nd2 = "logE (EvBroadcastBlock h) (createAndBroadcastHeaderFinalInfo env h nd)"
  have 2: "keeps hh v4 a False nd ?nd2"
    by (rule keeps_trans [OF logs_keep(3) [OF assms(1)]]) (rule keeps_log, simp_all)
  have inv: "node_inv hh v4 ?nd2" using 2 by (simp add: keeps_def)
  have same: "nd_cs ?nd2 = nd_cs nd" by (simp add: createAndBroadcastHeaderFinalInfo_def Let_def)
  have may: "may_commit v4 h ?nd2"
    using assms(2) by (simp add: createAndBroadcastHeaderFinalInfo_def Let_def may_commit_log)
  have 3: "keeps hh v4 a False nd (logE (EvCommit h ok) ?nd2)" for ok
    by (rule keeps_trans [OF 2], rule keeps_commit [OF inv may]) (simp_all add: same assms(3) del: node_fields)
  have 4: "keeps hh v4 a False nd (updCs (SetStatus SrEndSlot SsFinished) (logE (EvCommit h ok) ?nd2))" for ok
    by (rule keeps_trans [OF 2], rule keeps_commit_end [OF inv may]) simp
  have 5: "keeps hh v4 a False nd (logE (EvBroadcastBlockData h) (updCs (SetStatus SrEndSlot SsFinished) (logE (EvCommit h ok) ?nd2)))" for ok
    by (rule keeps_trans [OF 4 keeps_log]) simp_all
  show ?thesis
    using 3 4 5 assms(1) keeps_cancel [OF assms(1)]
    by (simp add: leaderCommit_def isOutOfTime_def Let_def keeps_refl)
qed

lemma doEndSlotJobByLeader_keeps:
  assumes "node_inv hh v4 nd" "IsSelfLeaderInCurrentSlot (nd_cs nd)" "IsSubslotFinished SrSignature (nd_cs nd)"
    and "commitsAt (nd_Index nd) (nd_log nd) = []" "v4 \<longrightarrow> ev_FixAuditChangesV4 env"
  shows "keeps hh v4 a False nd (fst (doEndSlotJobByLeader env nd))"
proof -
  let ?set = "\<lambda>h. updCs (\<lambda>cns. cns\<lparr>cs_Header := Some h\<rparr>) nd"
  have set: "keeps hh v4 a False nd (?set h)" if "cs_Header (nd_cs nd) = Some h0" "same_body h h0" for h h0
    by (rule keeps_header [OF assms(1) that])
  have commit: "keeps hh v4 a False nd (fst (guarded s (leaderCommit env h) (?set h)))"
    if "cs_Header (nd_cs nd) = Some h0" "same_body h h0" "\<not> isHeaderSlotInTheFuture env h0 nd" for h h0 s
  proof (rule keeps_trans [OF set [OF that(1,2)]], rule guarded_keeps, assumption)
    fix cns assume c: "same_core (nd_cs (?set h)) cns" "cs_SlotCanceled cns = cs_SlotCanceled (nd_cs (?set h))"
      "node_inv hh v4 ((?set h)\<lparr>nd_cs := cns\<rparr>)"
    let ?nd = "(?set h)\<lparr>nd_cs := cns\<rparr>"
    have fin: "IsSubslotFinished j (nd_cs ?nd) = IsSubslotFinished j (nd_cs nd)" for j
      using same_core_eq(6) [OF c(1)] by (simp add: IsSubslotFinished_def)
    have leader: "IsSelfLeaderInCurrentSlot (nd_cs ?nd)"
      using assms(2) same_core_eq(8) [OF c(1)] by (simp add: IsSelfLeaderInCurrentSlot_def IsNodeLeaderInCurrentSlot_def GetLeader_def)
    have "keeps hh v4 a False ?nd (fst (leaderCommit env h ?nd))" if "\<not> GetSlot h < SafeI64ToU64 (nd_Index nd)"
    proof (rule leaderCommit_keeps [OF c(3) may_commitI [OF c(3), where h0 = h] leader])
      show "v4 \<Longrightarrow> GetSlot h = SafeI64ToU64 (nd_Index ?nd)"
        using that \<open>same_body h h0\<close> \<open>\<not> isHeaderSlotInTheFuture env h0 nd\<close> assms(5)
        by (auto simp: isHeaderSlotInTheFuture_def same_body_def GetSlot_def headerField_def split: if_splits)
      show "same_body h h" by (rule same_body_refl)
    qed (use assms(3,4) fin same_core_eq(2) [OF c(1)] in simp_all)
    moreover have "fst (leaderCommit env h ?nd) = ?nd" if "GetSlot h < SafeI64ToU64 (nd_Index nd)"
      using that by (simp add: leaderCommit_def)
    ultimately show "keeps hh v4 a False ?nd (fst (leaderCommit env h ?nd))" using keeps_refl [OF c(3)] by fastforce
  qed
  have body: "same_body (SetSignature x (SetPubKeysBitmap y h0)) h0" "same_body (SetProducerSignature z h0) h0" for x y z h0
    by (simp_all add: same_body_def SetSignature_def SetPubKeysBitmap_def SetProducerSignature_def)
  note body3 = same_body_trans [OF body(2) body(1)]
  show ?thesis
    using assms(1) set [OF _ body(1)] set [OF _ body3] commit [OF _ body3]
    by (auto simp: doEndSlotJobByLeader_def Let_def keeps_refl split: sum.split option.split)
qed

lemma doEndSlotJob_keeps:
  assumes "node_inv hh v4 nd" "IsSubslotFinished SrSignature (nd_cs nd)"
    and "IsSelfLeaderInCurrentSlot (nd_cs nd) \<Longrightarrow> commitsAt (nd_Index nd) (nd_log nd) = []" "v4 \<longrightarrow> ev_FixAuditChangesV4 env"
  shows "keeps hh v4 a False nd (fst (doEndSlotJob env nd))"
proof (cases "IsSelfLeaderInCurrentSlot (nd_cs nd)")
  case True
  then show ?thesis using doEndSlotJobByLeader_keeps [OF assms(1) _ assms(2)] assms(3,4) by (simp add: doEndSlotJob_def)
next
  case False
  have same: "nd_cs (prepareBroadcastBlockDataForValidator env nd) = nd_cs nd"
    by (simp add: prepareBroadcastBlockDataForValidator_def split: sum.split)
  have "keeps hh v4 a False nd (fst (doEndSlotJobByParticipant env None (prepareBroadcastBlockDataForValidator env nd)))"
    by (rule keeps_trans [OF logs_keep(2) [OF assms(1)]], rule doEndSlotJobByParticipant_keeps) (simp_all add: same False assms(4))
  with False show ?thesis using doEndSlotJobByParticipant_keeps [OF assms(1) False assms(4)] by (simp add: doEndSlotJob_def)
qed

lemma waitAllSignaturesTimeout_keeps:
  assumes "node_inv hh v4 nd"
  shows "keeps hh v4 a b nd (waitAllSignaturesTimeout s nd)"
proof -
  have "same_core cns (fst (SetWaitingAllSignaturesTimeOutIfSlot s True cns))"
    "cs_SlotCanceled (fst (SetWaitingAllSignaturesTimeOutIfSlot s True cns)) = cs_SlotCanceled cns" for cns
    by (simp_all add: SetWaitingAllSignaturesTimeOutIfSlot_def same_core_def)
  then show ?thesis using assms by (auto simp: waitAllSignaturesTimeout_def keeps_refl intro!: keeps_core)
qed

end
