(* ===== verification/ConsensusSafety.thy ===== *)
theory ConsensusSafety
  imports ConsensusKeepEnd
begin

text \<open>
  Safety of a node over whole runs: in whatever order the chronology, the worker and the timers act, the node signs at most one
  hash in a slot and commits at most one block, and both are of a block it accepted in that slot.
\<close>

section \<open>A new slot\<close>

lemma dom_fold_resetOne: "dom (fold resetOne pks states) = dom states"
proof (induction pks arbitrary: states)
  case (Cons p pks)
  have "dom (resetOne p states) = dom states" by (auto simp: resetOne_def split: option.split)
  with Cons.IH show ?case by simp
qed simp

lemma resetSlot_undone:
  assumes "dom (rc_validatorSlotStates rcns) \<subseteq> set (groupOf rcns)"
  shows "JobDone pk s (ResetSlotState rcns) \<noteq> Inr True"
proof (cases "pk \<in> set (groupOf rcns)")
  case True
  then show ?thesis by (rule ResetSlotState_undone)
next
  case False
  with assms have "pk \<notin> dom (rc_validatorSlotStates (ResetSlotState rcns))" by (auto simp: ResetSlotState_def dom_fold_resetOne)
  then show ?thesis by (simp add: JobDone_def domIff)
qed

lemma BeginNewSlot_consensus:
  "cs_slotConsensus (BeginNewSlot idx ts cns) = ResetSlotState (cs_slotConsensus cns)"
  "cs_slotThreshold (BeginNewSlot idx ts cns) = cs_slotThreshold cns"
  by (simp_all add: BeginNewSlot_def resetSlot_def resetSlotStateLocked_def)

lemma groupOf_ResetSlotState [simp]: "groupOf (ResetSlotState rcns) = groupOf rcns"
  by (simp add: ResetSlotState_def groupOf_def)

lemma doStartSlotJob_inv:
  assumes "node_inv hh v4 nd" "nd_Index nd < i"
  shows "node_inv hh v4 (fst (doStartSlotJob env (nd\<lparr>nd_Index := i\<rparr>)))"
proof -
  note inv = node_inv_state [OF assms(1)]
  let ?cns = "BeginNewSlot i (ev_Timestamp env) (nd_cs nd)"
  have dom: "dom (rc_validatorSlotStates (ResetSlotState (cs_slotConsensus (nd_cs nd)))) \<subseteq> set (groupOf (cs_slotConsensus (nd_cs nd)))"
    using state_inv_facts(12) [OF inv] by (simp add: ResetSlotState_def dom_fold_resetOne)
  have "\<not> IsJobDone pk SrBlock ?cns" for pk
    using resetSlot_undone [OF state_inv_facts(12) [OF inv]] by (simp add: IsJobDone_iff BeginNewSlot_consensus)
  moreover have "commitsAt i (nd_log nd) = []" using commitsAt_future [OF node_inv_log [OF assms(1)] assms(2)] by simp
  ultimately have "state_inv hh ?cns i (nd_log nd)"
    using inv dom by (simp add: state_inv_def BeginNewSlot_fields BeginNewSlot_consensus)
  moreover have "log_inv hh v4 i (nd_log nd)" by (rule log_inv_index [OF node_inv_log [OF assms(1)]]) (use assms(2) in simp)
  ultimately show ?thesis by (simp add: doStartSlotJob_def node_inv_def)
qed

text \<open>Until the start of the slot is finished the group may change: there is no header, no job done and no commit.\<close>

definition restarts :: "(BlockHeader option \<Rightarrow> bytes option) \<Rightarrow> bool \<Rightarrow> ('pk, 'sk) Node \<Rightarrow> ('pk, 'sk) Node \<Rightarrow> bool" where
  "restarts hh v4 nd nd' \<longleftrightarrow>
     node_inv hh v4 nd' \<and> nd_Index nd' = nd_Index nd \<and> cs_SlotIndex (nd_cs nd') = cs_SlotIndex (nd_cs nd) \<and> nd_log nd' = nd_log nd \<and>
     (\<forall>k. IsSubslotFinished k (nd_cs nd) \<longrightarrow> IsSubslotFinished k (nd_cs nd'))"

lemma keeps_restarts: "keeps hh v4 True True nd nd' \<Longrightarrow> nd_log nd' = nd_log nd \<Longrightarrow> restarts hh v4 nd nd'"
  by (simp add: keeps_def ext_def restarts_def)

lemma restarts_trans: "restarts hh v4 x y \<Longrightarrow> restarts hh v4 y z \<Longrightarrow> restarts hh v4 x z"
  by (simp add: restarts_def)

lemma NewSlotState_undone [simp]: "\<not> state_JobDone s NewSlotState"
  by (simp add: NewSlotState_def state_JobDone_def)

lemma SetConsensusGroup_undone: "JobDone pk s (SetConsensusGroup g rcns) \<noteq> Inr True"
  by (auto simp: JobDone_def SetConsensusGroup_def split: option.split dest!: map_of_SomeD)

lemma restarts_group:
  assumes "node_inv hh v4 nd" "\<not> IsSubslotFinished SrStartSlot (nd_cs nd)"
  shows "restarts hh v4 nd (updCs (\<lambda>cns. cns\<lparr>cs_slotConsensus := SetConsensusGroup g (cs_slotConsensus cns)\<rparr>) nd)"
proof -
  note inv = node_inv_state [OF assms(1)]
  let ?cns = "(nd_cs nd)\<lparr>cs_slotConsensus := SetConsensusGroup g (cs_slotConsensus (nd_cs nd))\<rparr>"
  have fin: "IsSubslotFinished j ?cns = IsSubslotFinished j (nd_cs nd)" for j by (simp add: IsSubslotFinished_def)
  have none: "commitsAt (nd_Index nd) (nd_log nd) = []" "\<not> IsSubslotFinished SrBlock (nd_cs nd)"
    using state_inv_facts(9,3) [OF inv] assms(2) by blast+
  have "\<not> IsJobDone pk SrBlock ?cns" for pk using SetConsensusGroup_undone by (simp add: IsJobDone_iff)
  moreover have "dom (rc_validatorSlotStates (SetConsensusGroup g (cs_slotConsensus (nd_cs nd)))) \<subseteq> set (groupOf (SetConsensusGroup g (cs_slotConsensus (nd_cs nd))))"
    by (auto simp: SetConsensusGroup_def groupOf_def dest!: map_of_SomeD)
  ultimately have "state_inv hh ?cns (nd_Index nd) (nd_log nd)"
    using inv none unfolding state_inv_def fin by simp
  then show ?thesis using assms(1) by (simp add: restarts_def node_inv_def fin)
qed

lemma generateNextConsensusGroup_restarts:
  assumes "node_inv hh v4 nd" "\<not> IsSubslotFinished SrStartSlot (nd_cs nd)"
  shows "restarts hh v4 nd (fst (generateNextConsensusGroup env nd))"
  using restarts_group [OF assms] keeps_restarts [OF keeps_refl [OF assms(1)]]
  by (auto simp: generateNextConsensusGroup_def split: option.split)

lemma resetMultiSigner_restarts:
  assumes "node_inv hh v4 nd"
  shows "restarts hh v4 nd (fst (resetMultiSigner env nd))"
proof -
  have "restarts hh v4 nd (nd\<lparr>nd_ms := ms\<rparr>)" for ms by (rule keeps_restarts [OF keeps_ms [OF assms]]) simp
  then show ?thesis
    using keeps_restarts [OF keeps_refl [OF assms]] by (simp add: resetMultiSigner_def split: sum.split)
qed

lemma restarts_finish:
  assumes "node_inv hh v4 nd" "cs_SlotIndex (nd_cs nd) = nd_Index nd"
  shows "restarts hh v4 nd (fst (cancelSlot nd))" "restarts hh v4 nd (updCs (SetStatus SrStartSlot SsFinished) nd)"
proof -
  show "restarts hh v4 nd (fst (cancelSlot nd))"
    by (rule keeps_restarts [OF keeps_cancelSlot [OF assms(1)]]) (simp add: cancelSlot_def)
  have "keeps hh v4 True True nd (updCs (SetStatus SrStartSlot SsFinished) nd)"
    by (rule keeps_status [OF assms]) (simp_all add: sr_consts)
  then show "restarts hh v4 nd (updCs (SetStatus SrStartSlot SsFinished) nd)" by (rule keeps_restarts) simp
qed

lemma initCurrentSlot_restarts:
  assumes "node_inv hh v4 nd" "\<not> IsSubslotFinished SrStartSlot (nd_cs nd)" "cs_SlotIndex (nd_cs nd) = nd_Index nd"
  shows "restarts hh v4 nd (fst (initCurrentSlot env nd))"
proof -
  have go: "restarts hh v4 nd x \<Longrightarrow> restarts hh v4 nd (fst (cancelSlot x)) \<and> restarts hh v4 nd (updCs (SetStatus SrStartSlot SsFinished) x)" for x
    using restarts_finish [of hh v4 x] assms(3) restarts_trans by (metis restarts_def)
  obtain nd1 r1 where g: "generateNextConsensusGroup env nd = (nd1, r1)" by fastforce
  obtain nd2 r2 where m: "resetMultiSigner env nd1 = (nd2, r2)" by fastforce
  have 1: "restarts hh v4 nd nd1" using generateNextConsensusGroup_restarts [OF assms(1,2), of env] g by simp
  have 2: "restarts hh v4 nd nd2"
    by (rule restarts_trans [OF 1]) (use resetMultiSigner_restarts [of hh v4 nd1 env] 1 m in \<open>simp add: restarts_def\<close>)
  show ?thesis
    using go [OF 1] go [OF 2] 1 2 keeps_restarts [OF keeps_refl [OF assms(1)]]
    by (cases r1; cases r2) (simp_all add: initCurrentSlot_def g m split: sum.split)
qed

lemma doStartSlotConsensusCheck_restarts:
  assumes "node_inv hh v4 nd" "cs_SlotIndex (nd_cs nd) = nd_Index nd"
  shows "restarts hh v4 nd (fst (doStartSlotConsensusCheck env nd))"
    and "snd (doStartSlotConsensusCheck env nd) \<Longrightarrow> IsSubslotFinished SrStartSlot (nd_cs (fst (doStartSlotConsensusCheck env nd)))"
proof -
  show "restarts hh v4 nd (fst (doStartSlotConsensusCheck env nd))"
    using initCurrentSlot_restarts [OF assms(1) _ assms(2)] keeps_restarts [OF keeps_refl [OF assms(1)]]
    by (simp add: doStartSlotConsensusCheck_def)
  show "IsSubslotFinished SrStartSlot (nd_cs (fst (doStartSlotConsensusCheck env nd)))" if "snd (doStartSlotConsensusCheck env nd)"
    using that
    by (auto simp: doStartSlotConsensusCheck_def initCurrentSlot_def cancelSlot_def split: if_splits prod.splits bool.splits sum.splits)
qed

section \<open>The machine\<close>

text \<open>
  The subslots before the current one are finished; the node has not signed before the job of the signature subslot, and a
  leader has not committed before the job of the last one.
\<close>

definition chronology_inv :: "('pk, 'sk) Node \<Rightarrow> nat \<Rightarrow> bool \<Rightarrow> bool" where
  "chronology_inv nd k pending \<longleftrightarrow>
     k \<le> SrEndSlot \<and> cs_SlotIndex (nd_cs nd) = nd_Index nd \<and> (\<forall>j<k. IsSubslotFinished j (nd_cs nd)) \<and> (k = SrStartSlot \<longrightarrow> \<not> pending) \<and>
     (k < SrSignature \<or> k = SrSignature \<and> pending \<longrightarrow> signsAt (nd_Index nd) (nd_log nd) = []) \<and>
     (k < SrEndSlot \<or> k = SrEndSlot \<and> pending \<longrightarrow> IsSelfLeaderInCurrentSlot (nd_cs nd) \<longrightarrow> commitsAt (nd_Index nd) (nd_log nd) = [])"

text \<open>A message of the current slot is in the channel only after the subslot it waits for; one of another slot is an old one.\<close>

definition queued :: "('pk, 'sk) Node \<Rightarrow> Message \<Rightarrow> bool" where
  "queued nd m \<longleftrightarrow> cm_SlotIndex m \<le> nd_Index nd \<and> (cm_SlotIndex m = nd_Index nd \<longrightarrow> CanProceed (cm_MsgType m) (nd_cs nd))"

definition hash_ok :: "(BlockHeader option \<Rightarrow> bytes option) \<Rightarrow> (bytes \<Rightarrow> Block option) \<Rightarrow> Message \<Rightarrow> bool" where
  "hash_ok hh dec m \<longleftrightarrow>
     (\<forall>d h. cm_MsgType m = MtBlockHeader \<longrightarrow> cm_BlockHeaderHash m = Some d \<longrightarrow> dec (bytesOf (cm_Header m)) = Some h \<longrightarrow> hh (bl_Header h) = Some d)"

definition machine_inv ::
  "(BlockHeader option \<Rightarrow> bytes option) \<Rightarrow> bool \<Rightarrow> (bytes \<Rightarrow> Block option) \<Rightarrow> ('pk, 'sk) Machine \<Rightarrow> bool"
where
  "machine_inv hh v4 dec mc \<longleftrightarrow>
     node_inv hh v4 (mc_node mc) \<and> (\<forall>k. mc_subslot mc = Some k \<longrightarrow> chronology_inv (mc_node mc) k (mc_pending mc)) \<and>
     (\<forall>m\<in>set (mc_queue mc). queued (mc_node mc) m \<and> hash_ok hh dec m) \<and>
     (\<forall>t m. Some m \<in> set (mc_received mc t) \<longrightarrow> hash_ok hh dec m)"

lemma queued_mono:
  "queued nd m \<Longrightarrow> nd_Index nd' = nd_Index nd \<Longrightarrow> (\<And>k. IsSubslotFinished k (nd_cs nd) \<Longrightarrow> IsSubslotFinished k (nd_cs nd')) \<Longrightarrow> queued nd' m"
  by (auto simp: queued_def CanProceed_def split: if_splits)

lemma chronology_subslot:
  assumes "chronology_inv nd k pending"
  shows "k = SrStartSlot \<and> \<not> pending \<or> k = SrBlock \<or> k = SrSignature \<or> k = SrEndSlot"
proof -
  have "k \<le> 3" "k = 0 \<longrightarrow> \<not> pending" using assms by (simp_all add: chronology_inv_def sr_consts)
  then show ?thesis unfolding sr_consts by linarith
qed

lemma chronology_inv_ext:
  assumes "chronology_inv nd k pending" "ext a b nd nd'" "a \<or> k = SrSignature \<and> \<not> pending'" "b \<or> k = SrEndSlot \<and> \<not> pending'"
    and "pending' \<longrightarrow> pending"
  shows "chronology_inv nd' k pending'"
proof -
  have e: "nd_Index nd' = nd_Index nd" "cs_SlotIndex (nd_cs nd') = cs_SlotIndex (nd_cs nd)"
    "\<And>j. IsSubslotFinished j (nd_cs nd) \<Longrightarrow> IsSubslotFinished j (nd_cs nd')"
    "a \<Longrightarrow> signsAt (nd_Index nd) (nd_log nd') = signsAt (nd_Index nd) (nd_log nd)"
    "b \<Longrightarrow> IsSelfLeaderInCurrentSlot (nd_cs nd) \<Longrightarrow> commitsAt (nd_Index nd) (nd_log nd') = commitsAt (nd_Index nd) (nd_log nd)"
    using assms(2) by (simp_all add: ext_def)
  have l: "IsSelfLeaderInCurrentSlot (nd_cs nd') = IsSelfLeaderInCurrentSlot (nd_cs nd)"
    by (rule leader_cong) (use assms(2) in \<open>simp_all add: ext_def\<close>)
  have "k < SrSignature \<or> k = SrSignature \<and> pending' \<longrightarrow> signsAt (nd_Index nd) (nd_log nd') = []"
    using assms(1,3,5) e(4) by (auto simp: chronology_inv_def)
  moreover have "k < SrEndSlot \<or> k = SrEndSlot \<and> pending' \<longrightarrow> IsSelfLeaderInCurrentSlot (nd_cs nd) \<longrightarrow> commitsAt (nd_Index nd) (nd_log nd') = []"
    using assms(1,4,5) e(5) by (auto simp: chronology_inv_def)
  moreover have "k = SrStartSlot \<longrightarrow> \<not> pending'" using assms(1,5) by (auto simp: chronology_inv_def)
  ultimately show ?thesis using assms(1) e(3) by (simp add: chronology_inv_def e(1,2) l)
qed

lemma machine_inv_ext:
  assumes "machine_inv hh v4 dec mc" "keeps hh v4 a b (mc_node mc) nd'"
    and "\<And>k. mc_subslot mc = Some k \<Longrightarrow> (a \<or> k = SrSignature \<and> \<not> p) \<and> (b \<or> k = SrEndSlot \<and> \<not> p)" "p \<longrightarrow> mc_pending mc"
  shows "machine_inv hh v4 dec (mc\<lparr>mc_node := nd', mc_pending := p\<rparr>)"
proof -
  have e: "ext a b (mc_node mc) nd'" and inv: "node_inv hh v4 nd'" using assms(2) by (simp_all add: keeps_def)
  have q: "queued nd' m" if "queued (mc_node mc) m" for m
    by (rule queued_mono [OF that]) (use e in \<open>simp_all add: ext_def\<close>)
  have c: "chronology_inv nd' k p" if "mc_subslot mc = Some k" for k
    by (rule chronology_inv_ext [OF _ e]) (use assms(1,3,4) that in \<open>auto simp: machine_inv_def\<close>)
  show ?thesis using assms(1) inv q c by (simp add: machine_inv_def)
qed

lemma machine_inv_keeps:
  assumes "machine_inv hh v4 dec mc" "keeps hh v4 True True (mc_node mc) nd'"
  shows "machine_inv hh v4 dec (mc\<lparr>mc_node := nd'\<rparr>)"
  using machine_inv_ext [OF assms, of "mc_pending mc"] by simp

lemma machine_inv_node: "machine_inv hh v4 dec mc \<Longrightarrow> node_inv hh v4 (mc_node mc)"
  by (simp add: machine_inv_def)

lemma machine_inv_chronology: "machine_inv hh v4 dec mc \<Longrightarrow> mc_subslot mc = Some k \<Longrightarrow> chronology_inv (mc_node mc) k (mc_pending mc)"
  by (simp add: machine_inv_def)

lemma machine_inv_restarts:
  assumes "machine_inv hh v4 dec mc" "restarts hh v4 (mc_node mc) nd'" "mc_subslot mc = Some SrStartSlot"
    and "\<not> IsSubslotFinished SrStartSlot (nd_cs (mc_node mc))"
  shows "machine_inv hh v4 dec (mc\<lparr>mc_node := nd'\<rparr>)"
proof -
  have r: "node_inv hh v4 nd'" "nd_Index nd' = nd_Index (mc_node mc)" "nd_log nd' = nd_log (mc_node mc)"
    "cs_SlotIndex (nd_cs nd') = cs_SlotIndex (nd_cs (mc_node mc))"
    "\<And>k. IsSubslotFinished k (nd_cs (mc_node mc)) \<Longrightarrow> IsSubslotFinished k (nd_cs nd')"
    using assms(2) by (simp_all add: restarts_def)
  have "commitsAt (nd_Index (mc_node mc)) (nd_log (mc_node mc)) = []"
    using state_inv_facts(9) [OF node_inv_state [OF machine_inv_node [OF assms(1)]]] assms(4) by blast
  then have "chronology_inv nd' SrStartSlot (mc_pending mc)"
    using machine_inv_chronology [OF assms(1,3)] by (simp add: chronology_inv_def r sr_consts)
  moreover have "queued nd' m" if "queued (mc_node mc) m" for m by (rule queued_mono [OF that r(2,5)])
  ultimately show ?thesis using assms(1,3) r(1) by (simp add: machine_inv_def)
qed

lemma machine_inv_advance:
  assumes "machine_inv hh v4 dec mc" "mc_subslot mc = Some k" "IsSubslotFinished k (nd_cs (mc_node mc))"
    and "\<not> mc_pending mc"
  shows "machine_inv hh v4 dec (mc\<lparr>mc_subslot := nextSubslot k, mc_pending := (nextSubslot k \<noteq> None)\<rparr>)"
proof -
  have "chronology_inv (mc_node mc) (k + 1) True" if "k \<noteq> SrEndSlot"
    using machine_inv_chronology [OF assms(1,2)] assms(3,4) that
    by (auto simp: chronology_inv_def sr_consts less_Suc_eq)
  then show ?thesis using assms(1) by (simp add: machine_inv_def nextSubslot_def)
qed

section \<open>Messages\<close>

lemma executeMessage_set:
  "executeMessage cns l = (l', out) \<Longrightarrow> (\<forall>m\<in>set out. Some m \<in> set l \<and> canExecute cns m) \<and> (\<forall>m. Some m \<in> set l' \<longrightarrow> Some m \<in> set l)"
  by (induction cns l arbitrary: l' out rule: executeMessage.induct) (force split: prod.splits if_splits)+

lemma executeType_set:
  assumes "\<forall>t m. Some m \<in> set (received t) \<longrightarrow> Q m" "\<forall>m\<in>set out. Q m \<and> canExecute cns m" "executeType cns idx i (received, out) = (received', out')"
  shows "(\<forall>t m. Some m \<in> set (received' t) \<longrightarrow> Q m) \<and> (\<forall>m\<in>set out'. Q m \<and> canExecute cns m)"
proof -
  obtain l o1 where e: "executeMessage cns (received i) = (l, o1)" by fastforce
  note s = executeMessage_set [OF e]
  have "Q m" if "Some m \<in> set (getCleanedList idx l)" for m
    using that s assms(1) by (auto simp: getCleanedList_def)
  moreover have "Q m \<and> canExecute cns m" if "m \<in> set o1" for m using that s assms(1) by blast
  ultimately show ?thesis using assms e by (auto simp: executeType_def split: if_splits)
qed

lemma executeStoredMessages_set:
  assumes "\<forall>t m. Some m \<in> set (received t) \<longrightarrow> Q m" "executeStoredMessages cns idx received = (received', out)"
  shows "(\<forall>t m. Some m \<in> set (received' t) \<longrightarrow> Q m) \<and> (\<forall>m\<in>set out. Q m \<and> canExecute cns m)"
proof -
  have "(\<forall>t m. Some m \<in> set (received' t) \<longrightarrow> Q m) \<and> (\<forall>m\<in>set out'. Q m \<and> canExecute cns m)"
    if "fold (executeType cns idx) is (received0, out0) = (received', out')" "\<forall>t m. Some m \<in> set (received0 t) \<longrightarrow> Q m"
      "\<forall>m\<in>set out0. Q m \<and> canExecute cns m" for "is" received0 out0 received' out'
    using that
  proof (induction "is" arbitrary: received0 out0)
    case (Cons i "is")
    obtain r1 o1 where e: "executeType cns idx i (received0, out0) = (r1, o1)" by fastforce
    have "fold (executeType cns idx) is (r1, o1) = (received', out')" using Cons.prems(1) e by simp
    from Cons.IH [OF this] executeType_set [OF Cons.prems(2,3) e] show ?case by blast
  qed auto
  from this [of GetMessageRange received "[]" received' out] assms show ?thesis by (simp add: executeStoredMessages_def)
qed

text \<open>What can be executed is of the current slot.\<close>

lemma canExecute_queued:
  assumes "node_inv hh v4 nd" "canExecute (nd_cs nd) m"
  shows "queued nd m"
proof -
  obtain k where "IsSubslotFinished k (nd_cs nd)" using assms(2) by (auto simp: canExecute_def CanProceed_def split: if_splits)
  from state_inv_facts(1) [OF node_inv_state [OF assms(1)] this] show ?thesis using assms(2) by (simp add: canExecute_def queued_def)
qed

lemma machine_inv_execute:
  assumes "machine_inv hh v4 dec mc" "\<forall>t m. Some m \<in> set (received t) \<longrightarrow> hash_ok hh dec m"
    and "executeStoredMessages (nd_cs (mc_node mc)) (nd_Index (mc_node mc)) received = (received', out)"
  shows "machine_inv hh v4 dec (mc\<lparr>mc_received := received', mc_queue := mc_queue mc @ out\<rparr>)"
  using assms(1) executeStoredMessages_set [OF assms(2,3)] canExecute_queued [OF machine_inv_node [OF assms(1)]]
  by (auto simp: machine_inv_def)

lemma storeMessage_ok:
  "\<forall>t m. Some m \<in> set (received t) \<longrightarrow> Q m \<Longrightarrow> Q m \<Longrightarrow> \<forall>t m'. Some m' \<in> set (storeMessage m received t) \<longrightarrow> Q m'"
  by (auto simp: storeMessage_def)

text \<open>
  The environments a node meets: they compute the hash \<open>hh\<close> of an inner header and decode headers with \<open>dec\<close>; with
  \<open>v4\<close> the fix V4 is active.
\<close>

definition env_ok :: "(BlockHeader option \<Rightarrow> bytes option) \<Rightarrow> bool \<Rightarrow> (bytes \<Rightarrow> Block option) \<Rightarrow> ('pk, 'sk) Env \<Rightarrow> bool" where
  "env_ok hh v4 dec env \<longleftrightarrow>
     CalculateHash (hv_marshal (ev_hv env)) (hv_hasher (ev_hv env)) = hh \<and> ev_DecodeBlockHeader env = dec \<and> (v4 \<longrightarrow> ev_FixAuditChangesV4 env)"

lemma validateMessageWithHeader_ok:
  assumes "env_ok hh v4 dec env" "validateMessageWithHeader env m = Inr h"
  shows "hash_ok hh dec m"
  using assms by (auto simp: validateMessageWithHeader_def hash_ok_def env_ok_def split: option.splits if_splits)

lemma ProcessReceivedMessage_inv:
  assumes "machine_inv hh v4 dec mc" "env_ok hh v4 dec env"
  shows "machine_inv hh v4 dec (fst (ProcessReceivedMessage env verify seen m originator mc))"
proof -
  let ?mc = "\<lambda>mv. mc\<lparr>mc_node := (mc_node mc)\<lparr>nd_mv := mv\<rparr>\<rparr>"
  have 1: "machine_inv hh v4 dec (?mc mv)" for mv
    by (rule machine_inv_keeps [OF assms(1)], rule keeps_core) (use assms(1) in \<open>simp_all add: machine_inv_def\<close>)
  have received: "\<forall>t m. Some m \<in> set (mc_received mc t) \<longrightarrow> hash_ok hh dec m" using assms(1) by (simp add: machine_inv_def)
  have 2: "machine_inv hh v4 dec ((?mc mv)\<lparr>mc_received := storeMessage m (mc_received (?mc mv))\<rparr>)" if "hash_ok hh dec m" for mv
    using 1 [of mv] storeMessage_ok [OF received that] by (simp add: machine_inv_def)
  have 3: "machine_inv hh v4 dec (executeReceivedMessages m (?mc mv))" if "hash_ok hh dec m" for mv
    unfolding executeReceivedMessages_def
    using machine_inv_execute [OF 1 storeMessage_ok [OF received that]] by (simp split: prod.split)
  have hash: "hash_ok hh dec m" if "IsMessageWithBlockHeader (cm_MsgType m) \<Longrightarrow> \<exists>h. validateMessageWithHeader env m = Inr h"
    using that validateMessageWithHeader_ok [OF assms(2), of m] by (auto simp: hash_ok_def IsMessageWithBlockHeader_def)
  obtain mv r where c: "checkConsensusMessageValidity verify (nd_cs (mc_node mc)) m originator seen (nd_mv (mc_node mc)) = (mv, r)" by fastforce
  show ?thesis
  proof (cases "hash_ok hh dec m")
    case True
    then show ?thesis
      using assms(1) 1 2 3 by (auto simp: ProcessReceivedMessage_def c Let_def split: sum.split)
  next
    case False
    with hash have "IsMessageWithBlockHeader (cm_MsgType m)" "\<exists>e. validateMessageWithHeader env m = Inl e"
      by (metis sumE)+
    then show ?thesis using assms(1) 1 by (auto simp: ProcessReceivedMessage_def c Let_def split: sum.split)
  qed
qed

lemma callReceivedMessage_keeps:
  assumes "node_inv hh v4 nd" "env_ok hh v4 dec env" "queued nd m" "hash_ok hh dec m"
  shows "keeps hh v4 a b nd (fst (callReceivedMessage env m nd))"
proof -
  have "keeps hh v4 a b nd (fst (receivedBlockHeader env m nd))" if "cm_MsgType m = MtBlockHeader"
    by (rule receivedBlockHeader_keeps [OF assms(1)])
      (use assms(2-4) that in \<open>auto simp: queued_def CanProceed_def hash_ok_def env_ok_def\<close>)
  moreover have "v4 \<longrightarrow> ev_FixAuditChangesV4 env" using assms(2) by (simp add: env_ok_def)
  ultimately show ?thesis
    using assms(1) receivedBlockHeaderFinalInfo_keeps [OF assms(1)] receivedSignature_keeps [OF assms(1)]
    by (simp add: callReceivedMessage_def keeps_refl)
qed

lemma checkChannels_inv:
  assumes "machine_inv hh v4 dec mc" "env_ok hh v4 dec env"
  shows "machine_inv hh v4 dec (checkChannels env mc)"
proof (cases "mc_queue mc")
  case (Cons m rest)
  then have "machine_inv hh v4 dec (mc\<lparr>mc_queue := rest\<rparr>)" "queued (mc_node mc) m" "hash_ok hh dec m"
    using assms(1) by (simp_all add: machine_inv_def)
  then show ?thesis
    using machine_inv_keeps callReceivedMessage_keeps [OF machine_inv_node [OF assms(1)] assms(2)] Cons by (fastforce simp: checkChannels_def)
qed (simp add: checkChannels_def assms)

section \<open>Steps\<close>

lemma slot_inv:
  assumes "machine_inv hh v4 dec mc" "nd_Index (mc_node mc) < i"
  shows "machine_inv hh v4 dec (doJob SrStartSlot env (updateSlot i mc))"
proof -
  let ?nd = "fst (doStartSlotJob env ((mc_node mc)\<lparr>nd_Index := i\<rparr>))"
  have "nd_Index ?nd = i" "nd_log ?nd = nd_log (mc_node mc)" "cs_SlotIndex (nd_cs ?nd) = i"
    by (simp_all add: doStartSlotJob_def BeginNewSlot_fields)
  moreover have "commitsAt i (nd_log (mc_node mc)) = [] \<and> signsAt i (nd_log (mc_node mc)) = []"
    by (rule commitsAt_future [OF node_inv_log [OF machine_inv_node [OF assms(1)]] assms(2)])
  ultimately have "chronology_inv ?nd SrStartSlot False" "queued (mc_node mc) m \<Longrightarrow> queued ?nd m" for m
    using assms(2) by (simp_all add: chronology_inv_def queued_def sr_consts)
  then show ?thesis
    using assms(1) doStartSlotJob_inv [OF machine_inv_node [OF assms(1)] assms(2), of env]
    by (simp add: machine_inv_def doJob_def updateSlot_def Job_def)
qed

lemma job_inv:
  assumes "machine_inv hh v4 dec mc" "env_ok hh v4 dec env" "mc_subslot mc = Some k" "mc_pending mc"
  shows "machine_inv hh v4 dec (doJob k env mc)"
proof -
  note node = machine_inv_node [OF assms(1)] and c = machine_inv_chronology [OF assms(1,3)]
  have v4: "v4 \<longrightarrow> ev_FixAuditChangesV4 env" "CalculateHash (hv_marshal (ev_hv env)) (hv_hasher (ev_hv env)) = hh"
    using assms(2) by (simp_all add: env_ok_def)
  have "keeps hh v4 (k \<noteq> SrSignature) (k \<noteq> SrEndSlot) (mc_node mc) (fst (Job k env (mc_node mc)))"
  proof -
    consider "k = SrBlock" | "k = SrSignature" | "k = SrEndSlot"
      using chronology_subslot [OF c] assms(4) by blast
    then show ?thesis
    proof cases
      case 1
      then show ?thesis using doBlockJob_keeps [OF node _ v4(2)] c by (simp add: Job_def chronology_inv_def sr_consts)
    next
      case 2
      then show ?thesis using doSignatureJob_keeps [OF node] c assms(4) by (simp add: Job_def chronology_inv_def sr_consts)
    next
      case 3
      then show ?thesis using doEndSlotJob_keeps [OF node _ _ v4(1)] c assms(4) by (simp add: Job_def chronology_inv_def sr_consts)
    qed
  qed
  then show ?thesis unfolding doJob_def by (rule machine_inv_ext [OF assms(1)]) (use assms(3) in auto)
qed

lemma doCheck_inv:
  assumes "machine_inv hh v4 dec (mc\<lparr>mc_node := fst (Check k env (mc_node mc))\<rparr>)" "mc_subslot mc = Some k" "\<not> mc_pending mc"
    and "snd (Check k env (mc_node mc)) \<Longrightarrow> IsSubslotFinished k (nd_cs (fst (Check k env (mc_node mc))))"
  shows "machine_inv hh v4 dec (doCheck k env mc)"
proof -
  obtain nd r where c: "Check k env (mc_node mc) = (nd, r)" by fastforce
  show ?thesis
    using machine_inv_advance [OF assms(1)] assms by (cases r) (simp_all add: doCheck_def c)
qed

lemma check_inv:
  assumes "machine_inv hh v4 dec mc" "mc_subslot mc = Some k" "\<not> mc_pending mc"
  shows "machine_inv hh v4 dec (doCheck k env mc)"
proof -
  note node = machine_inv_node [OF assms(1)] and c = machine_inv_chronology [OF assms(1,2)]
  have idx: "cs_SlotIndex (nd_cs (mc_node mc)) = nd_Index (mc_node mc)" using c by (simp add: chronology_inv_def)
  note start = doStartSlotConsensusCheck_restarts [OF node idx, of env]
  consider "k = SrStartSlot" | "k = SrBlock" | "k = SrSignature" | "k = SrEndSlot"
    using chronology_subslot [OF c] by blast
  then show ?thesis
  proof cases
    case 1
    have "machine_inv hh v4 dec (mc\<lparr>mc_node := fst (Check k env (mc_node mc))\<rparr>)"
    proof (cases "IsSubslotFinished SrStartSlot (nd_cs (mc_node mc))")
      case True
      then show ?thesis using assms(1) 1 by (simp add: Check_def doStartSlotConsensusCheck_def)
    next
      case False
      with machine_inv_restarts [OF assms(1) start(1)] assms(2) 1 show ?thesis by (simp add: Check_def)
    qed
    then show ?thesis by (rule doCheck_inv [OF _ assms(2,3)]) (use start(2) 1 in \<open>simp add: Check_def\<close>)
  next
    case 2
    then have "IsSubslotFinished SrStartSlot (nd_cs (mc_node mc))" using c by (simp add: chronology_inv_def sr_consts)
    note b = doBlockConsensusCheck_keeps [OF node this]
    show ?thesis
      by (rule doCheck_inv [OF machine_inv_keeps [OF assms(1)] assms(2,3)]) (use b 2 in \<open>simp_all add: Check_def sr_consts\<close>)
  next
    case 3
    then have "IsSubslotFinished SrBlock (nd_cs (mc_node mc))" using c by (simp add: chronology_inv_def sr_consts)
    note b = doSignatureConsensusCheck_keeps [OF node this]
    show ?thesis
      by (rule doCheck_inv [OF machine_inv_keeps [OF assms(1)] assms(2,3)]) (use b 3 in \<open>simp_all add: Check_def sr_consts\<close>)
  next
    case 4
    show ?thesis
      by (rule doCheck_inv [OF machine_inv_keeps [OF assms(1)] assms(2,3)])
        (use 4 keeps_refl [OF node] in \<open>simp_all add: Check_def doEndSlotConsensusCheck_def sr_consts split: if_splits\<close>)
  qed
qed

lemma timeout_inv:
  assumes "machine_inv hh v4 dec mc"
  shows "machine_inv hh v4 dec (doTimeout k mc)"
proof -
  have core: "same_core cns (SetExtendedCalled True cns)" "cs_SlotCanceled (SetExtendedCalled True cns) = cs_SlotCanceled cns" for cns
    by (simp_all add: SetExtendedCalled_def same_core_def)
  let ?nd1 = "updCs (SetSlotCanceled True) (mc_node mc)"
  let ?nd2 = "updCs (SetExtendedCalled True) ?nd1"
  have 1: "keeps hh v4 True True (mc_node mc) ?nd2"
    by (rule keeps_trans [OF keeps_cancel [OF machine_inv_node [OF assms]] keeps_core]) (simp_all add: core)
  have 2: "keeps hh v4 True True (mc_node mc) (logE (EvRevert x) ?nd2)" for x by (rule keeps_trans [OF 1 keeps_log]) simp_all
  have "keeps hh v4 True True (mc_node mc) (Extend k ?nd1)" using 1 2 by (simp add: Extend_def Let_def)
  from machine_inv_keeps [OF assms this] show ?thesis by (simp add: doTimeout_def machine_inv_def)
qed

lemma step_inv:
  assumes "step (env_ok hh v4 dec) mc mc'" "machine_inv hh v4 dec mc"
  shows "machine_inv hh v4 dec mc'"
  using assms(1)
proof cases
  case (slot env index)
  then show ?thesis using slot_inv [OF assms(2)] by simp
next
  case (job env k)
  then show ?thesis using job_inv [OF assms(2)] by simp
next
  case (check env k)
  then show ?thesis using check_inv [OF assms(2)] by simp
next
  case (timeout k)
  then show ?thesis using timeout_inv [OF assms(2)] by simp
next
  case (message env verify seen m originator)
  then show ?thesis using ProcessReceivedMessage_inv [OF assms(2)] by simp
next
  case stored
  have "\<forall>t m. Some m \<in> set (mc_received mc t) \<longrightarrow> hash_ok hh dec m" using assms(2) by (simp add: machine_inv_def)
  with stored show ?thesis
    using machine_inv_execute [OF assms(2)] by (simp add: ExecuteStoredMessages_def split: prod.split)
next
  case (consume env)
  then show ?thesis using checkChannels_inv [OF assms(2)] by simp
next
  case (header env h)
  then have "v4 \<longrightarrow> ev_FixAuditChangesV4 env" by (simp add: env_ok_def)
  with header show ?thesis
    using assms(2) machine_inv_keeps [OF assms(2) receivedHeader_keeps [OF machine_inv_node [OF assms(2)]]] by (simp add: ReceivedHeader_def)
next
  case (signatures s)
  then show ?thesis
    using machine_inv_keeps [OF assms(2) waitAllSignaturesTimeout_keeps [OF machine_inv_node [OF assms(2)]]] by simp
qed

lemma NewMachine_inv: "machine_inv hh v4 dec (NewMachine index electedNodes consensusGroupSize selfId ms mv)"
proof -
  let ?cns = "nd_cs (mc_node (NewMachine index electedNodes consensusGroupSize selfId ms mv))"
  note defs = NewMachine_def initConsensusThreshold_def NewConsensusState_def ResetConsensusState_def resetSlot_def
    resetSlotStateLocked_def Let_def NewSlotConsensus_def NewSlotThreshold_def NewSlotStatus_def
  have "\<not> IsSubslotFinished k ?cns" for k by (simp add: defs IsSubslotFinished_def status_Status_def ResetSlotStatus_def)
  moreover have "rc_validatorSlotStates (cs_slotConsensus ?cns) = Map.empty" by (simp add: defs ResetSlotState_def groupOf_def)
  moreover have "\<not> IsJobDone pk k ?cns" for pk k by (simp add: IsJobDone_iff JobDone_def calculation(2))
  moreover have "th_threshold (cs_slotThreshold ?cns) SrBlock = Some 1" "cs_Data ?cns = None" "cs_Header ?cns = None"
    by (simp_all add: defs SetThreshold_def SetFallbackThreshold_def sr_consts)
  ultimately have "state_inv hh ?cns index []" by (simp add: state_inv_def commitsAt_def)
  then show ?thesis
    by (simp add: machine_inv_def node_inv_def NewMachine_def log_inv_Nil InitReceivedMessages_def)
qed

lemma reachable_inv: "reachable (env_ok hh v4 dec) mc \<Longrightarrow> machine_inv hh v4 dec mc"
  by (induction rule: reachable.induct) (simp_all add: NewMachine_inv step_inv)

end
