(* ===== verification/ConsensusLeader.thy ===== *)
theory ConsensusLeader
  imports ConsensusSafety
begin

text \<open>
  The leader at the end of a slot: the shares it collected aggregate to a signature the check of headers accepts, and
  the job of the last subslot commits the block that carries it.
\<close>

section \<open>Collected signatures\<close>

text \<open>
  The state of a leader with the signatures: the group of the slot is the one the header's check computes, the multi-signer
  was reset for it, and every member whose signature job is done, the leader among them, has a share that verifies.
\<close>

definition collected :: "('pk, 'sk) HeaderSigVerifier \<Rightarrow> ('pk, 'sk) Node \<Rightarrow> bytes list \<Rightarrow> Block \<Rightarrow> bytes \<Rightarrow> bool" where
  "collected hv nd ks h d \<longleftrightarrow>
     rc_consensusGroup (cs_slotConsensus (nd_cs nd)) = Some ks \<and> ks \<noteq> [] \<and> length ks < 65536 \<and>
     cs_Header (nd_cs nd) = Some h \<and> cs_Data (nd_cs nd) = Some d \<and> hashOfHeader hv h = Some d \<and> headerGroup hv h = Some ks \<and>
     convertStringsToPubKeys (hv_ll hv) ks = Inr (md_pubKeys (nd_ms nd)) \<and> length (md_sigShares (nd_ms nd)) = length ks \<and>
     IsJobDone (ks ! 0) SrSignature (nd_cs nd) \<and>
     (\<forall>i<length ks. IsJobDone (ks ! i) SrSignature (nd_cs nd) \<longrightarrow>
        (\<exists>sig. md_sigShares (nd_ms nd) ! i = Some sig \<and> ll_VerifySigShare (hv_ll hv) (md_pubKeys (nd_ms nd) ! i) d sig))"

lemma collected_keys: "collected hv nd ks h d \<Longrightarrow> length (md_pubKeys (nd_ms nd)) = length ks"
  by (auto simp: collected_def dest: convertStringsToPubKeys_length)

lemma collected_group: "collected hv nd ks h d \<Longrightarrow> groupOf (cs_slotConsensus (nd_cs nd)) = ks"
  by (simp add: collected_def groupOf_def)

lemma collected_members:
  "collected hv nd ks h d \<Longrightarrow> membersOf (GenerateBitmap SrSignature (nd_cs nd)) = {i. i < length ks \<and> IsJobDone (ks ! i) SrSignature (nd_cs nd)}"
  by (simp add: membersOf_GenerateBitmap collected_group)

lemma collected_share:
  "collected hv nd ks h d \<Longrightarrow> i < length ks \<Longrightarrow> IsJobDone (ks ! i) SrSignature (nd_cs nd) \<Longrightarrow>
    \<exists>sig. md_sigShares (nd_ms nd) ! i = Some sig \<and> ll_VerifySigShare (hv_ll hv) (md_pubKeys (nd_ms nd) ! i) d sig"
  by (simp add: collected_def)

lemma collected_valid:
  assumes "collected (ev_hv env) nd ks h d"
  shows "checkSignaturesValidity env (GenerateBitmap SrSignature (nd_cs nd)) nd"
proof -
  let ?bm = "GenerateBitmap SrSignature (nd_cs nd)"
  note g = collected_group [OF assms] and k = collected_keys [OF assms]
  have size: "length ?bm * 8 \<ge> length ks" using bitmapBytes_bits(1) [of "length ks"] by (simp add: GenerateBitmap_length g)
  have "checkShare env ?bm nd i" if "i < length ks" for i
  proof (cases "bitAt ?bm i")
    case True
    then have "i \<in> membersOf ?bm" using that size by (simp add: membersOf_def)
    then have job: "IsJobDone (ks ! i) SrSignature (nd_cs nd)" using collected_members [OF assms] by simp
    from collected_share [OF assms that job] obtain sig
      where "md_sigShares (nd_ms nd) ! i = Some sig" "ll_VerifySigShare (hv_ll (ev_hv env)) (md_pubKeys (nd_ms nd) ! i) d sig" by blast
    with job that assms show ?thesis
      by (simp add: checkShare_def True g k IsJobDone_iff SignatureShare_def VerifySignatureShare_def collected_def u16_def bytesOf_def)
  qed (simp add: checkShare_def)
  then show ?thesis using size by (simp add: checkSignaturesValidity_def Let_def g list_all_iff)
qed

text \<open>The check of headers reads the signatures of a block and the inner header.\<close>

lemma inner_header_only:
  assumes "bl_Header b = bl_Header h"
  shows "GetSlot b = GetSlot h" "headerGroup hv b = headerGroup hv h" "ShouldApplyFallbackValidation hv (Some b) = ShouldApplyFallbackValidation hv (Some h)"
proof -
  show "GetSlot b = GetSlot h" by (simp add: block_getters headerField_def assms)
  show "headerGroup hv b = headerGroup hv h" by (simp add: block_getters headerField_def signingEpoch_def assms)
  show "ShouldApplyFallbackValidation hv (Some b) = ShouldApplyFallbackValidation hv (Some h)"
    by (simp add: ShouldApplyFallbackValidation_def block_getters headerField_def assms split: option.split)
qed

lemma collected_verifies:
  assumes "collected hv nd ks h d" "ll_complete (hv_ll hv)"
    and "jobsDone SrSignature (nd_cs nd) \<ge>
      (if ShouldApplyFallbackValidation hv (Some h) then GetPBFTFallbackThreshold (length ks) else GetPBFTThreshold (length ks))"
  obtains agg where "AggregateSigs (hv_ll hv) (Some (GenerateBitmap SrSignature (nd_cs nd))) (nd_ms nd) = Inr agg" "agg \<noteq> []"
    "\<And>b. bl_Header b = bl_Header h \<Longrightarrow> bl_PubKeysBitmap b = GenerateBitmap SrSignature (nd_cs nd) \<Longrightarrow> bl_Signature b = agg \<Longrightarrow>
      VerifySignature hv b = Inr ()"
proof -
  let ?bm = "GenerateBitmap SrSignature (nd_cs nd)"
  note g = collected_group [OF assms(1)] and k = collected_keys [OF assms(1)] and m = collected_members [OF assms(1)]
  have c: "ks \<noteq> []" "length ks < 65536" "hashOfHeader hv h = Some d" "headerGroup hv h = Some ks"
    "convertStringsToPubKeys (hv_ll hv) ks = Inr (md_pubKeys (nd_ms nd))" "length (md_sigShares (nd_ms nd)) = length ks"
    "IsJobDone (ks ! 0) SrSignature (nd_cs nd)"
    using assms(1) by (simp_all add: collected_def)
  have bm: "length ?bm = bitmapBytes (length ks)" "\<not> HasPaddingBitsSet ?bm (length ks)" "0 \<in> membersOf ?bm"
    using GenerateBitmap_length [of SrSignature "nd_cs nd"] GenerateBitmap_padding [of SrSignature "nd_cs nd"] c(1,7) m by (simp_all add: g)
  have shares: "\<forall>i\<in>membersOf ?bm. \<exists>sig. md_sigShares (nd_ms nd) ! i = Some sig \<and> ll_VerifySigShare (hv_ll hv) (md_pubKeys (nd_ms nd) ! i) d sig"
    using collected_share [OF assms(1)] by (simp add: m)
  obtain agg where agg: "AggregateSigs (hv_ll hv) (Some ?bm) (nd_ms nd) = Inr agg" "agg \<noteq> []" "ll_VerifySigBytes (hv_ll hv) agg"
    "\<And>bms'. md_pubKeys bms' = md_pubKeys (nd_ms nd) \<Longrightarrow> md_aggSig bms' = Some agg \<Longrightarrow> bms_Verify (hv_ll hv) d (Some ?bm) bms' = Inr ()"
    using aggregated_verifies [OF assms(2), of "nd_ms nd" ?bm d] bm shares by (auto simp: k c)
  have "VerifySignature hv b = Inr ()" if b: "bl_Header b = bl_Header h" "bl_PubKeysBitmap b = ?bm" "bl_Signature b = agg" for b
  proof -
    have "verifyConsensusSize hv ks b = Inr ()"
      using assms(3) bm b by (simp add: verifyConsensusSize_Inr GenerateBitmap_ones ComputeSize_def jobsDone_def inner_header_only(3) [OF b(1)])
    moreover have "bms_Create (hv_ll hv) ks 0 (hv_multiSigVerifier hv) = Inr \<lparr>md_pubKeys = md_pubKeys (nd_ms nd),
        md_privKey = md_privKey (hv_multiSigVerifier hv), md_sigShares = replicate (u16 (length ks)) None, md_aggSig = None, md_ownIndex = 0\<rparr>"
      using c(1,2,5) by (simp add: bms_Create_def NewBLSMultisig_def u16_def)
    moreover have "bitAt ?bm 0" "?bm \<noteq> []" using bm(3) by (auto simp: membersOf_def)
    ultimately show ?thesis using agg(3,4) b c inner_header_only(2) [OF b(1), of hv] by (auto simp: VerifySignature_Inr)
  qed
  with agg that show ?thesis by blast
qed

section \<open>The leader commits\<close>

lemma leaderCommit_commits:
  assumes "\<not> cs_ExtendedCalled (nd_cs nd)" "\<not> GetSlot b < SafeI64ToU64 (nd_Index nd)" "\<not> ev_outOfTime env" "ev_CommitBlock env b"
  shows "(nd_Index nd, EvCommit b True) \<in> set (nd_log (fst (leaderCommit env b nd)))"
    "IsSubslotFinished SrEndSlot (nd_cs (fst (leaderCommit env b nd)))"
    "cs_SlotCanceled (nd_cs (fst (leaderCommit env b nd))) = cs_SlotCanceled (nd_cs nd)"
  using assms by (simp_all add: leaderCommit_def isOutOfTime_def Let_def createAndBroadcastHeaderFinalInfo_def)

lemma guarded_commits:
  assumes "\<not> cs_ExtendedCalled (nd_cs nd)" "\<not> cs_SlotCanceled (nd_cs nd)" "\<not> GetSlot b < SafeI64ToU64 (nd_Index nd)" "\<not> ev_outOfTime env"
    and "ev_CommitBlock env b"
  shows "(nd_Index nd, EvCommit b True) \<in> set (nd_log (fst (guarded s (leaderCommit env b) nd)))"
    "IsSubslotFinished SrEndSlot (nd_cs (fst (guarded s (leaderCommit env b) nd)))"
    "\<not> cs_SlotCanceled (nd_cs (fst (guarded s (leaderCommit env b) nd)))"
proof -
  obtain cns acquired where acq: "AcquireProcessingBlock s (nd_cs nd) = (cns, acquired)" by fastforce
  let ?nd = "nd\<lparr>nd_cs := cns\<rparr>"
  obtain nd' r where c: "leaderCommit env b ?nd = (nd', r)" by fastforce
  have core: "cs_SlotCanceled cns = cs_SlotCanceled (nd_cs nd)" "cs_ExtendedCalled cns = cs_ExtendedCalled (nd_cs nd)"
    using acq by (auto simp: AcquireProcessingBlock_def SetProcessingBlockIfSlot_def split: if_splits)
  note l = leaderCommit_commits [of ?nd b env, simplified c, simplified, unfolded core, OF assms(1,3,4,5)]
  show "(nd_Index nd, EvCommit b True) \<in> set (nd_log (fst (guarded s (leaderCommit env b) nd)))"
    "IsSubslotFinished SrEndSlot (nd_cs (fst (guarded s (leaderCommit env b) nd)))"
    "\<not> cs_SlotCanceled (nd_cs (fst (guarded s (leaderCommit env b) nd)))"
    using l assms(2) by (simp_all add: guarded_def acq c same_core_eq [OF guard_core(3)] guard_core(4))
qed

lemma doEndSlotJobByLeader_commits:
  assumes "collected (ev_hv env) nd ks h d" "ll_complete (hv_ll (ev_hv env))"
    and "jobsDone SrSignature (nd_cs nd) \<ge> (if ShouldApplyFallbackValidation (ev_hv env) (Some h)
      then GetPBFTFallbackThreshold (length ks) else GetPBFTThreshold (length ks))"
    and "\<not> cs_ExtendedCalled (nd_cs nd)" "\<not> cs_SlotCanceled (nd_cs nd)" "GetSlot h = SafeI64ToU64 (nd_Index nd)" "\<not> ev_outOfTime env"
    and "\<forall>m. \<exists>sig. ev_Sign env m = Some sig \<and> sig \<noteq> []"
    and "\<forall>b. same_body b h \<longrightarrow> VerifySignature (ev_hv env) b = Inr () \<longrightarrow> ev_CommitBlock env b"
  obtains b where "same_body b h" "VerifySignature (ev_hv env) b = Inr ()"
    "(nd_Index nd, EvCommit b True) \<in> set (nd_log (fst (doEndSlotJobByLeader env nd)))"
    "IsSubslotFinished SrEndSlot (nd_cs (fst (doEndSlotJobByLeader env nd)))"
    "\<not> cs_SlotCanceled (nd_cs (fst (doEndSlotJobByLeader env nd)))"
proof -
  let ?bm = "GenerateBitmap SrSignature (nd_cs nd)"
  obtain agg where agg: "AggregateSigs (hv_ll (ev_hv env)) (Some ?bm) (nd_ms nd) = Inr agg" "agg \<noteq> []"
    "\<And>b. bl_Header b = bl_Header h \<Longrightarrow> bl_PubKeysBitmap b = ?bm \<Longrightarrow> bl_Signature b = agg \<Longrightarrow> VerifySignature (ev_hv env) b = Inr ()"
    using collected_verifies [OF assms(1-3)] by metis
  let ?h1 = "SetSignature agg (SetPubKeysBitmap ?bm h)"
  have c: "cs_Header (nd_cs nd) = Some h" "hashOfHeader (ev_hv env) h = Some d" using assms(1) by (simp_all add: collected_def)
  have "0 \<in> membersOf ?bm" using assms(1) collected_members [OF assms(1)] by (simp add: collected_def)
  then have "?bm \<noteq> []" by (auto simp: membersOf_def)
  obtain bytes where bytes: "hv_marshal (ev_hv env) (bl_Header h) = Some bytes" using c(2) by (auto simp: CalculateHash_def split: option.splits)
  obtain sig where sig: "ev_Sign env bytes = Some sig" "sig \<noteq> []" using assms(8) by blast
  let ?b = "SetProducerSignature sig ?h1"
  have b: "same_body ?b h" "bl_Header ?b = bl_Header h" "bl_PubKeysBitmap ?b = ?bm" "bl_Signature ?b = agg" "bl_ProducerSignature ?b = sig"
    "bl_Header ?h1 = bl_Header h"
    by (simp_all add: same_body_def SetSignature_def SetPubKeysBitmap_def SetProducerSignature_def)
  note v = agg(3) [OF b(2-4)]
  have "fst (doEndSlotJobByLeader env nd) = fst (guarded (SafeU64ToI64 (GetSlot ?b)) (leaderCommit env ?b) (updCs (\<lambda>cns. cns\<lparr>cs_Header := Some ?b\<rparr>) nd))"
    using c(1) agg(1,2) sig bytes \<open>?bm \<noteq> []\<close> assms(6)
    by (simp add: doEndSlotJobByLeader_def Let_def collected_valid [OF assms(1)] isHeaderSlotInTheFuture_def signBlockHeader_def b)
  moreover note guarded_commits [of "updCs (\<lambda>cns. cns\<lparr>cs_Header := Some ?b\<rparr>) nd" ?b env "SafeU64ToI64 (GetSlot ?b)"]
  ultimately show ?thesis
    using that [OF b(1) v] assms(4-7) assms(9) b(1) v inner_header_only(1) [OF b(2)] by simp
qed

text \<open>The thresholds of the factory, for a group of the configured size.\<close>

lemma threshold_reached:
  assumes "numSigs = n \<or> (if fallback then GetPBFTFallbackThreshold n else GetPBFTThreshold n) \<le> numSigs" "0 < n"
  shows "(if fallback then GetPBFTFallbackThreshold n else GetPBFTThreshold n) \<le> numSigs"
proof -
  have "GetPBFTThreshold n \<le> n" "GetPBFTFallbackThreshold n \<le> n"
    using assms(2) unfolding GetPBFTThreshold_def GetPBFTFallbackThreshold_def by presburger+
  then show ?thesis using assms(1) by auto
qed

text \<open>The signatures of the whole group have arrived, or enough of them and the time to wait for the rest is over.\<close>

definition enough_signatures :: "('pk, 'sk) HeaderSigVerifier \<Rightarrow> Block \<Rightarrow> ConsensusState \<Rightarrow> bool" where
  "enough_signatures hv h cns \<longleftrightarrow>
     jobsDone SrSignature cns = rc_consensusGroupSize (cs_slotConsensus cns) \<or>
     cs_WaitingAllSignaturesTimeOut cns \<and>
       (if ShouldApplyFallbackValidation hv (Some h) then FallbackThreshold SrSignature (cs_slotThreshold cns)
        else Threshold SrSignature (cs_slotThreshold cns)) \<le> jobsDone SrSignature cns"

lemma doSignatureConsensusCheck_leader:
  assumes "enough_signatures (ev_hv env) h (nd_cs nd)" "cs_Header (nd_cs nd) = Some h" "IsSelfLeaderInCurrentSlot (nd_cs nd)"
    and "\<not> cs_SlotCanceled (nd_cs nd)" "\<not> IsSubslotFinished SrSignature (nd_cs nd)"
  shows "doSignatureConsensusCheck env nd = (updCs (SetStatus SrSignature SsFinished) nd, True)"
  using assms by (auto simp: doSignatureConsensusCheck_def enough_signatures_def areSignaturesCollected_def Let_def)

end
