(* ===== verification/ConsensusSlots.thy ===== *)
theory ConsensusSlots
  imports ConsensusSafety
begin

text \<open>
  With the fix V4 the blocks a node proposes or processes in a slot are blocks of that slot: only two handlers add
  such an entry to the log, and both compare the slots.
\<close>

section \<open>Entries of the log\<close>

definition slots_ok :: "(int \<times> event) list \<Rightarrow> bool" where
  "slots_ok log \<longleftrightarrow> (\<forall>s h. acceptedAt s log h \<longrightarrow> GetSlot h = SafeI64ToU64 s)"

lemma slots_ok_Cons:
  "slots_ok log \<Longrightarrow> (\<And>h. e = EvPropose h \<or> e = EvProcess h True \<Longrightarrow> GetSlot h = SafeI64ToU64 t) \<Longrightarrow> slots_ok ((t, e) # log)"
  by (auto simp: slots_ok_def acceptedAt_def)

definition quiet :: "('pk, 'sk) Node \<Rightarrow> ('pk, 'sk) Node \<Rightarrow> bool" where
  "quiet nd nd' \<longleftrightarrow> nd_Index nd' = nd_Index nd \<and> (slots_ok (nd_log nd) \<longrightarrow> slots_ok (nd_log nd'))"

fun accepts :: "event \<Rightarrow> bool" where
  "accepts (EvPropose h) = True"
| "accepts (EvProcess h ok) = True"
| "accepts _ = False"

lemma quiet_refl [simp]: "quiet nd nd"
  by (simp add: quiet_def)

lemma quiet_trans: "quiet x y \<Longrightarrow> quiet y z \<Longrightarrow> quiet x z"
  by (simp add: quiet_def)

lemma quiet_updCs [simp]: "quiet nd (updCs f nd') \<longleftrightarrow> quiet nd nd'"
  by (simp add: quiet_def)

lemma quiet_fields [simp]: "quiet nd (nd'\<lparr>nd_ms := ms\<rparr>) \<longleftrightarrow> quiet nd nd'" "quiet nd (nd'\<lparr>nd_mv := mv\<rparr>) \<longleftrightarrow> quiet nd nd'"
  "quiet nd (nd'\<lparr>nd_cs := cns\<rparr>) \<longleftrightarrow> quiet nd nd'" "quiet (nd\<lparr>nd_cs := cns\<rparr>) nd' \<longleftrightarrow> quiet nd nd'"
  by (simp_all add: quiet_def)

lemma quiet_logE [simp]: "\<not> accepts e \<Longrightarrow> quiet nd nd' \<Longrightarrow> quiet nd (logE e nd')"
  by (cases e) (auto simp: quiet_def intro!: slots_ok_Cons)

lemma quiet_accept: "quiet nd nd' \<Longrightarrow> (\<And>h. e = EvPropose h \<or> e = EvProcess h True \<Longrightarrow> GetSlot h = SafeI64ToU64 (nd_Index nd)) \<Longrightarrow> quiet nd (logE e nd')"
  by (auto simp: quiet_def intro!: slots_ok_Cons)

lemma quiet_setJob [simp]: "quiet nd nd' \<Longrightarrow> quiet nd (fst (setJob pk k nd'))"
  by (simp add: setJob_def split: sum.split)

lemma quiet_cancelSlot [simp]: "quiet nd nd' \<Longrightarrow> quiet nd (fst (cancelSlot nd'))"
  by (simp add: cancelSlot_def)

lemma quiet_guarded:
  assumes "\<And>cns. quiet nd (fst (body (nd\<lparr>nd_cs := cns\<rparr>)))"
  shows "quiet nd (fst (guarded s body nd))"
proof -
  obtain cns acquired where acq: "AcquireProcessingBlock s (nd_cs nd) = (cns, acquired)" by fastforce
  show ?thesis using assms [of cns] by (simp add: guarded_def acq case_prod_beta)
qed

section \<open>The handlers\<close>

text \<open>The block the processor fills keeps the slot of its header.\<close>

definition slot_env :: "('pk, 'sk) Env \<Rightarrow> bool" where
  "slot_env env \<longleftrightarrow> ev_FixAuditChangesV4 env \<and> (\<forall>h b. ev_CreateBlock env h = Some b \<longrightarrow> GetSlot b = GetSlot h)"

lemma setters_keep_slot:
  "SetParentHash x h = Some h' \<Longrightarrow> GetSlot h' = GetSlot h" "SetTimestamp t h = Some h' \<Longrightarrow> GetSlot h' = GetSlot h"
  "SetPrevRandSeed x h = Some h' \<Longrightarrow> GetSlot h' = GetSlot h" "SetRandSeed x h = Some h' \<Longrightarrow> GetSlot h' = GetSlot h"
  "SetChainID x h = Some h' \<Longrightarrow> GetSlot h' = GetSlot h"
  by (auto simp: SetParentHash_def SetTimestamp_def SetPrevRandSeed_def SetRandSeed_def SetChainID_def setHeader_def block_getters
      split: option.splits)

lemma createHeader_slot: "createHeader env nd = Some h \<Longrightarrow> GetSlot h = SafeI64ToU64 (nd_Index nd)"
  by (auto simp: createHeader_def bind_eq_Some_conv setters_keep_slot CreateNewHeader_def block_getters(4) headerField_def
      split: option.splits dest!: setters_keep_slot)

lemma doBlockJob_quiet:
  assumes "slot_env env"
  shows "quiet nd (fst (doBlockJob env nd))"
proof -
  have send: "quiet nd (fst (sendBlock env b nd))" if "GetSlot b = SafeI64ToU64 (nd_Index nd)" for b
    using that by (auto simp: sendBlock_def sendBlockHeader_def Let_def intro!: quiet_accept split: option.split)
  have "quiet nd (fst (case sendBlock env b nd of (nd1, False) \<Rightarrow> (nd1, False) | (nd1, True) \<Rightarrow> setJob (selfKey nd1) SrBlock nd1))"
    if "GetSlot b = SafeI64ToU64 (nd_Index nd)" for b
  proof -
    obtain nd1 r where s: "sendBlock env b nd = (nd1, r)" by fastforce
    then show ?thesis using send [OF that] by (cases r) simp_all
  qed
  then show ?thesis
    using assms createHeader_slot [of env nd] by (auto simp: doBlockJob_def slot_env_def split: option.split)
qed

lemma receivedBlockHeader_quiet:
  assumes "slot_env env"
  shows "quiet nd (fst (receivedBlockHeader env m nd))"
proof -
  let ?nd = "\<lambda>d h. updCs (\<lambda>cns. cns\<lparr>cs_Data := Some d, cs_Header := Some h\<rparr>) nd"
  have body: "quiet nd (fst (processGuarded env m h nd'))" if "GetSlot h = SafeI64ToU64 (nd_Index nd)" "quiet nd nd'" for h nd'
  proof -
    have "quiet nd (logE (EvProcess h ok) nd')" for ok by (rule quiet_accept [OF that(2)]) (use that(1) in auto)
    then show ?thesis using that(2) by (simp add: processGuarded_def Let_def)
  qed
  have process: "quiet nd (fst (processReceivedBlock env m (?nd d h)))" if "GetSlot h = SafeI64ToU64 (nd_Index nd)" for d h
  proof -
    have "quiet (?nd d h) (fst (guarded s (processGuarded env m h) (?nd d h)))" for s
      by (rule quiet_guarded) (use body [OF that] in \<open>simp add: quiet_def\<close>)
    then show ?thesis by (simp add: processReceivedBlock_def quiet_def)
  qed
  have "quiet nd (logE (EvScore pk i) (fst (processReceivedBlock env m (?nd d h))))" if "GetSlot h = SafeI64ToU64 (nd_Index nd)" for d h pk i
    using process [OF that] by simp
  then show ?thesis
    using assms
    by (auto simp: receivedBlockHeader_def Let_def slot_env_def isHeaderSlotBoundToMessage_def CanProcessReceivedMessage_def case_prod_beta
        split: option.split)
qed

lemma receivedSignature_quiet: "quiet nd (fst (receivedSignature env m nd))"
  by (auto simp: receivedSignature_def Let_def setJob_def split: sum.split)

lemma doSignatureJob_quiet: "quiet nd (fst (doSignatureJob env nd))"
  by (auto simp: doSignatureJob_def Let_def split: sum.split option.split)

lemma log_handlers_quiet [simp]:
  "quiet nd nd' \<Longrightarrow> quiet nd (setHeaderForValidator env h nd')" "quiet nd nd' \<Longrightarrow> quiet nd (prepareBroadcastBlockDataForValidator env nd')"
  "quiet nd nd' \<Longrightarrow> quiet nd (createAndBroadcastHeaderFinalInfo env h nd')"
  by (auto simp: setHeaderForValidator_def prepareBroadcastBlockDataForValidator_def createAndBroadcastHeaderFinalInfo_def Let_def split: sum.split)

lemma commit_quiet: "quiet nd nd' \<Longrightarrow> quiet nd (fst (participantCommit env h nd'))" "quiet nd nd' \<Longrightarrow> quiet nd (fst (leaderCommit env h nd'))"
  by (simp_all add: participantCommit_def leaderCommit_def isOutOfTime_def Let_def)

lemma doEndSlotJobByParticipant_quiet: "quiet nd (fst (doEndSlotJobByParticipant env m nd))"
  by (simp add: doEndSlotJobByParticipant_def quiet_guarded commit_quiet split: option.split)

lemma participant_quiet [simp]: "quiet nd nd' \<Longrightarrow> quiet nd (fst (doEndSlotJobByParticipant env m nd'))"
  by (erule quiet_trans) (rule doEndSlotJobByParticipant_quiet)

lemma receivedBlockHeaderFinalInfo_quiet: "quiet nd (fst (receivedBlockHeaderFinalInfo env m nd))"
  by (simp add: receivedBlockHeaderFinalInfo_def Let_def)

lemma receivedHeader_quiet: "quiet nd (receivedHeader env h nd)"
  by (simp add: receivedHeader_def)

lemma doEndSlotJob_quiet: "quiet nd (fst (doEndSlotJob env nd))"
proof -
  have g: "quiet nd (fst (guarded s (leaderCommit env h) (updCs f nd)))" for s h f
    by (rule quiet_trans [of _ "updCs f nd"]) (simp_all add: quiet_guarded commit_quiet)
  have "quiet nd (fst (doEndSlotJobByLeader env nd))"
    using g by (auto simp: doEndSlotJobByLeader_def Let_def split: sum.split option.split)
  then show ?thesis by (simp add: doEndSlotJob_def)
qed

lemma start_check_quiet: "quiet nd (fst (doStartSlotConsensusCheck env nd))"
proof -
  have m: "quiet nd (fst (resetMultiSigner env nd'))" if "quiet nd nd'" for nd' using that by (simp add: resetMultiSigner_def split: sum.split)
  obtain nd1 r1 where g: "generateNextConsensusGroup env nd = (nd1, r1)" by fastforce
  obtain nd2 r2 where r: "resetMultiSigner env nd1 = (nd2, r2)" by fastforce
  have 1: "quiet nd nd1" using g by (auto simp: generateNextConsensusGroup_def split: option.splits)
  have 2: "quiet nd nd2" using m [OF 1] r by simp
  show ?thesis
    using 1 2 by (cases r1; cases r2) (simp_all add: doStartSlotConsensusCheck_def initCurrentSlot_def g r split: sum.split)
qed

lemma Check_quiet: "quiet nd (fst (Check k env nd))"
  using start_check_quiet [of nd env]
  by (simp add: Check_def doBlockConsensusCheck_def doSignatureConsensusCheck_def doEndSlotConsensusCheck_def Let_def split: prod.split)

section \<open>Runs\<close>

lemma executeReceivedMessages_log: "nd_log (mc_node (executeReceivedMessages m mc)) = nd_log (mc_node mc)"
  by (simp add: executeReceivedMessages_def case_prod_beta)

lemma ProcessReceivedMessage_log: "nd_log (mc_node (fst (ProcessReceivedMessage env verify seen m originator mc))) = nd_log (mc_node mc)"
proof -
  obtain mv r where c: "checkConsensusMessageValidity verify (nd_cs (mc_node mc)) m originator seen (nd_mv (mc_node mc)) = (mv, r)" by fastforce
  show ?thesis
    by (cases r) (simp_all add: ProcessReceivedMessage_def c Let_def executeReceivedMessages_log split: sum.split)
qed

lemma step_slots_ok:
  assumes "step slot_env mc mc'" "slots_ok (nd_log (mc_node mc))"
  shows "slots_ok (nd_log (mc_node mc'))"
proof -
  have q: "slots_ok (nd_log nd')" if "quiet (mc_node mc) nd'" for nd' using that assms(2) by (simp add: quiet_def)
  show ?thesis using assms(1)
  proof cases
    case (slot env index)
    then show ?thesis using assms(2) by (simp add: doJob_def updateSlot_def Job_def doStartSlotJob_def)
  next
    case (job env k)
    have "slots_ok (nd_log (fst (Job k env (mc_node mc))))"
      using assms(2)
      by (simp add: Job_def doStartSlotJob_def q [OF doBlockJob_quiet [OF job(2)]] q [OF doSignatureJob_quiet] q [OF doEndSlotJob_quiet])
    with job show ?thesis by (simp add: doJob_def)
  next
    case (check env k)
    have "slots_ok (nd_log (fst (Check k env (mc_node mc))))" by (rule q [OF Check_quiet])
    with check show ?thesis by (cases "Check k env (mc_node mc)") (simp add: doCheck_def split: bool.split)
  next
    case (timeout k)
    have "quiet (mc_node mc) (Extend k (updCs (SetSlotCanceled True) (mc_node mc)))" by (simp add: Extend_def Let_def)
    with timeout q show ?thesis by (simp add: doTimeout_def)
  next
    case (message env verify seen m originator)
    with assms(2) show ?thesis by (simp add: ProcessReceivedMessage_log)
  next
    case stored
    with assms(2) show ?thesis by (simp add: ExecuteStoredMessages_def split: prod.split)
  next
    case (consume env)
    have "quiet (mc_node mc) (fst (callReceivedMessage env m (mc_node mc)))" for m
      by (simp add: callReceivedMessage_def receivedBlockHeader_quiet [OF consume(2)] receivedSignature_quiet receivedBlockHeaderFinalInfo_quiet)
    with q consume assms(2) show ?thesis by (simp add: checkChannels_def split: list.split)
  next
    case (header env h)
    with q [OF receivedHeader_quiet] assms(2) show ?thesis by (simp add: ReceivedHeader_def)
  next
    case (signatures s)
    have "quiet (mc_node mc) (waitAllSignaturesTimeout s (mc_node mc))" by (simp add: waitAllSignaturesTimeout_def)
    with signatures q show ?thesis by simp
  qed
qed

lemma reachable_slots_ok: "reachable slot_env mc \<Longrightarrow> slots_ok (nd_log (mc_node mc))"
proof (induction rule: reachable.induct)
  case start
  show ?case by (simp add: NewMachine_def slots_ok_def acceptedAt_def)
qed (simp add: step_slots_ok)

lemma step_mono: "step P mc mc' \<Longrightarrow> (\<And>env. P env \<Longrightarrow> Q env) \<Longrightarrow> step Q mc mc'"
  by (induction rule: step.induct) (blast intro: step.intros)+

lemma reachable_mono: "reachable P mc \<Longrightarrow> (\<And>env. P env \<Longrightarrow> Q env) \<Longrightarrow> reachable Q mc"
  by (induction rule: reachable.induct) (blast intro: reachable.intros step_mono)+

end
