(* ===== verification/ConsensusDemo.thy ===== *)
theory ConsensusDemo
  imports ConsensusLeader ConsensusSlots
begin

text \<open>
  A run of a network with one validator: in slot 5 the node proposes a block, signs it, aggregates the one signature
  and commits the block.
\<close>

definition demo_marshal :: "BlockHeader option \<Rightarrow> bytes option" where
  "demo_marshal h = map_option (\<lambda>h. if bh_Slot h = 5 \<and> bh_Nonce h = 7 then [7] else [0, 0]) h"

definition demo_hv :: "(bytes, bytes) HeaderSigVerifier" where
  "demo_hv = \<lparr>hv_marshal = demo_marshal, hv_hasher = (\<lambda>x. x),
     hv_ComputeConsensusGroup = (\<lambda>rand slot epoch. Some [[1]]), hv_ll = demo_ll,
     hv_multiSigVerifier = \<lparr>md_pubKeys = [], md_privKey = [1], md_sigShares = [], md_aggSig = None, md_ownIndex = 0\<rparr>,
     hv_singleVerify = (\<lambda>pk m sig. True), hv_FixAuditChangesV7InEpoch = (\<lambda>_. True), hv_GetHeader = (\<lambda>_. None)\<rparr>"

definition demo_env :: "(bytes, bytes) Env" where
  "demo_env = \<lparr>ev_Timestamp = 0, ev_TimestampUnix = 0, ev_IndexAfterProcess = 5, ev_outOfTime = False, ev_synchronized = True,
     ev_redundancyMainActive = False, ev_FixAuditChangesV4 = True, ev_hv = demo_hv, ev_IntegrityVerify = (\<lambda>_. True),
     ev_marshalBlock = (\<lambda>_. Some []), ev_DecodeBlockHeader = (\<lambda>_. None), ev_CreateBlock = Some, ev_ProcessBlock = (\<lambda>_. True),
     ev_CommitBlock = (\<lambda>_. True), ev_Marshalized = (\<lambda>_. True), ev_Sign = (\<lambda>_. Some [9]), ev_Broadcast = (\<lambda>_. True),
     ev_CurrentBlockHeader = Some (CreateNewHeader 4 6), ev_CurrentBlockHeaderHash = [3], ev_GenesisHeader = None,
     ev_GenesisHeaderHash = [], ev_ChainID = [], ev_Pid = []\<rparr>"

definition demo_validator :: consensusMessageValidator where
  "demo_validator = \<lparr>mv_signatureSize = 2, mv_publicKeySize = 1, mv_publicKeyBitmapSize = 1, mv_hasherSize = 1, mv_chainID = [],
     mv_mapPkConsensusMessages = Map.empty\<rparr>"

definition demo_start :: "(bytes, bytes) Machine" where
  "demo_start = NewMachine 4 {} 1 [1] (hv_multiSigVerifier demo_hv) demo_validator"

text \<open>The machine in slot 5, after the group is set.\<close>

definition demo_node ::
  "slotStatus \<Rightarrow> slotState \<Rightarrow> (bytes \<times> Block) option \<Rightarrow> bytes option \<Rightarrow> (int \<times> event) list \<Rightarrow> (bytes, bytes) Node"
where
  "demo_node status jobs header share log =
     \<lparr>nd_cs = \<lparr>cs_Data = map_option fst header, cs_Header = map_option snd header, cs_SlotIndex = 5, cs_SlotTimestamp = 0,
        cs_SlotCanceled = False, cs_ExtendedCalled = False, cs_WaitingAllSignaturesTimeOut = False, cs_receivedHeaders = [],
        cs_processingBlock = False, cs_processingBlockSlot = 0,
        cs_slotConsensus = \<lparr>rc_electedNodes = {[1]}, rc_consensusGroup = Some [[1]], rc_consensusGroupSize = 1, rc_selfPubKey = [1],
          rc_validatorSlotStates = [[1] \<mapsto> jobs]\<rparr>,
        cs_slotThreshold = \<lparr>th_threshold = [1 \<mapsto> 1, 2 \<mapsto> 1], th_fallbackThreshold = [1 \<mapsto> 1, 2 \<mapsto> 1]\<rparr>, cs_slotStatus = status\<rparr>,
      nd_ms = \<lparr>md_pubKeys = [[1]], md_privKey = [1], md_sigShares = [share], md_aggSig = None, md_ownIndex = 0\<rparr>,
      nd_mv = demo_validator, nd_Index = 5, nd_log = log\<rparr>"

definition demo_machine :: "(bytes, bytes) Node \<Rightarrow> nat \<Rightarrow> bool \<Rightarrow> (bytes, bytes) Machine" where
  "demo_machine nd k pending = \<lparr>mc_node = nd, mc_received = InitReceivedMessages, mc_queue = [], mc_subslot = Some k, mc_pending = pending\<rparr>"

lemma demo_fields [simp]:
  "ev_outOfTime demo_env = False" "ev_synchronized demo_env = True" "ev_redundancyMainActive demo_env = False"
  "ev_FixAuditChangesV4 demo_env = True" "ev_hv demo_env = demo_hv" "ev_marshalBlock demo_env b = Some []" "ev_CreateBlock demo_env = Some"
  "ev_CommitBlock demo_env b = True" "ev_Marshalized demo_env x = True" "ev_Sign demo_env m = Some [9]" "ev_Broadcast demo_env msg = True"
  "ev_CurrentBlockHeader demo_env = Some (CreateNewHeader 4 6)" "ev_Timestamp demo_env = 0" "ev_DecodeBlockHeader demo_env = (\<lambda>_. None)"
  "hv_marshal demo_hv = demo_marshal" "hv_hasher demo_hv = (\<lambda>x. x)" "hv_ComputeConsensusGroup demo_hv rand slot epoch = Some [[1]]"
  "hv_ll demo_hv = demo_ll" "hv_FixAuditChangesV7InEpoch demo_hv e = True" "md_privKey (hv_multiSigVerifier demo_hv) = [1]"
  by (simp_all add: demo_env_def demo_hv_def)

lemmas demo_eval = demo_node_def demo_machine_def demo_start_def demo_validator_def doCheck_def Check_def Job_def
  doJob_def nextSubslot_def sr_consts updCs_def logE_def setJob_def Let_def

text \<open>The block of the slot, before it is signed.\<close>

definition demo_block5 :: Block where
  "demo_block5 = (CreateNewHeader 5 7)\<lparr>bl_Header :=
     map_option (\<lambda>h. h\<lparr>bh_ParentHash := [3], bh_RandSeed := [9]\<rparr>) (bl_Header (CreateNewHeader 5 7))\<rparr>"

lemma demo_header: "nd_Index nd = 5 \<Longrightarrow> createHeader demo_env nd = Some demo_block5"
  by (simp add: createHeader_def demo_env_def demo_block5_def CreateNewHeader_def block_getters SetParentHash_def SetTimestamp_def
      SetPrevRandSeed_def SetRandSeed_def SetChainID_def setHeader_def u64_def SafeI64ToU64_def)

lemma demo_hash: "CalculateHash demo_marshal (\<lambda>x. x) (bl_Header demo_block5) = Some [7]"
  by (simp add: CalculateHash_def demo_marshal_def demo_block5_def CreateNewHeader_def)

lemma demo_slot:
  "doCheck 0 demo_env (doJob 0 demo_env (updateSlot 5 demo_start)) =
    demo_machine (demo_node [0 \<mapsto> SsFinished] Map.empty None None []) 1 True"
  by (simp add: demo_eval NewMachine_def updateSlot_def doStartSlotJob_def
   BeginNewSlot_def resetSlot_def resetSlotStateLocked_def NewConsensusState_def ResetConsensusState_def initConsensusThreshold_def
   NewSlotConsensus_def NewSlotThreshold_def NewSlotStatus_def ResetSlotState_def ResetSlotStatus_def groupOf_def
   resetConsensusMessages_def SetThreshold_def SetFallbackThreshold_def GetPBFTThreshold_def GetPBFTFallbackThreshold_def
   InitReceivedMessages_def comp_def doStartSlotConsensusCheck_def initCurrentSlot_def generateNextConsensusGroup_def
   GetNextConsensusGroup_def IsSubslotFinished_def status_Status_def SetConsensusGroup_def GetLeader_def resetMultiSigner_def
   SelfConsensusGroupIndex_def ConsensusGroupIndex_def bms_Reset_def u16_def demo_ll_def SetStatus_def status_SetStatus_def NewSlotState_def)

lemmas demo_state_eval = IsSelfLeaderInCurrentSlot_def IsNodeLeaderInCurrentSlot_def GetLeader_def IsSubslotFinished_def status_Status_def
  IsSelfJobDone_def IsJobDone_def JobDone_def state_JobDone_def SetJobDone_def state_SetJobDone_def SetStatus_def status_SetStatus_def
  jobsDone_def groupOf_def Threshold_def

lemma demo_propose:
  "\<exists>log. doCheck 1 demo_env (doJob 1 demo_env (demo_machine (demo_node [0 \<mapsto> SsFinished] Map.empty None None []) 1 True)) =
    demo_machine (demo_node [0 \<mapsto> SsFinished, 1 \<mapsto> SsFinished] [1 \<mapsto> True] (Some ([7], demo_block5)) None log) 2 True"
proof -
  have "getSlotInLastCommittedBlock demo_env = 4"
    by (simp add: getSlotInLastCommittedBlock_def demo_env_def CreateNewHeader_def block_getters SafeU64ToI64_def i64_def go_int_consts)
  then show ?thesis
    by (simp add: demo_eval demo_header doBlockJob_def sendBlock_def sendBlockHeader_def demo_hash demo_state_eval doBlockConsensusCheck_def
        isBlockReceived_def)
qed

abbreviation demo_proposed :: "(int \<times> event) list \<Rightarrow> (bytes, bytes) Machine" where
  "demo_proposed log \<equiv> demo_machine (demo_node [0 \<mapsto> SsFinished, 1 \<mapsto> SsFinished] [1 \<mapsto> True] (Some ([7], demo_block5)) None log) 2 True"

definition demo_signed :: "(int \<times> event) list \<Rightarrow> (bytes, bytes) Node" where
  "demo_signed log = demo_node [0 \<mapsto> SsFinished, 1 \<mapsto> SsFinished] [1 \<mapsto> True, 2 \<mapsto> True] (Some ([7], demo_block5)) (Some [1, 7]) ((5, EvSign [7]) # log)"

lemma demo_sign: "doJob 2 demo_env (demo_proposed log) = demo_machine (demo_signed log) 2 False"
  by (simp add: demo_eval demo_signed_def doSignatureJob_def demo_state_eval IsNodeInConsensusGroup_def CanDoSubslotJob_def IsConsensusDataSet_def
      CreateSignatureShare_def demo_ll_def bytesOf_def)

lemma demo_bitmap: "GenerateBitmap SrSignature (nd_cs (demo_signed log)) = [1]"
  by (simp add: GenerateBitmap_def demo_signed_def demo_node_def demo_state_eval markMember_def setBit_def bitmap_eval sr_consts Let_def)

section \<open>The run\<close>

lemma demo_run:
  assumes "P demo_env"
  shows "\<exists>log. reachable P (demo_machine (demo_signed log) 2 False)"
proof -
  let ?mc1 = "doJob 0 demo_env (updateSlot 5 demo_start)"
  let ?mc2 = "demo_machine (demo_node [0 \<mapsto> SsFinished] Map.empty None None []) 1 True"
  let ?mc3 = "doJob 1 demo_env ?mc2"
  have "reachable P demo_start" unfolding demo_start_def by (rule reachable.start)
  then have "reachable P ?mc1"
    by (rule reachable.step) (use step.slot [of P demo_env demo_start 5] assms in \<open>simp add: demo_start_def NewMachine_def sr_consts\<close>)
  then have "reachable P ?mc2"
    by (rule reachable.step) (use step.check [of P demo_env ?mc1 0] assms in \<open>simp add: demo_slot, simp add: doJob_def updateSlot_def sr_consts\<close>)
  then have 3: "reachable P ?mc3"
    by (rule reachable.step) (use step.job [of P demo_env ?mc2 1] assms in \<open>simp add: demo_machine_def\<close>)
  have "step P ?mc3 (doCheck 1 demo_env ?mc3)" by (rule step.check) (simp_all add: assms doJob_def demo_machine_def)
  with demo_propose obtain log where "step P ?mc3 (demo_proposed log)" by auto
  with 3 have "reachable P (demo_proposed log)" by (rule reachable.step)
  moreover have "step P (demo_proposed log) (doJob 2 demo_env (demo_proposed log))" by (rule step.job) (simp_all add: assms demo_machine_def)
  ultimately have "reachable P (doJob 2 demo_env (demo_proposed log))" by (rule reachable.step)
  then show ?thesis unfolding demo_sign by blast
qed

lemma demo_collected: "collected demo_hv (demo_signed log) [[1]] demo_block5 [7]"
  using demo_hash
  by (simp add: collected_def demo_signed_def demo_node_def demo_state_eval sr_consts) (simp add: demo_ll_def)

lemma demo_leader:
  "IsSelfLeaderInCurrentSlot (nd_cs (demo_signed log))" "\<not> IsSubslotFinished SrSignature (nd_cs (demo_signed log))"
  "\<not> cs_ExtendedCalled (nd_cs (demo_signed log))" "\<not> cs_SlotCanceled (nd_cs (demo_signed log))"
  "enough_signatures demo_hv demo_block5 (nd_cs (demo_signed log))" "jobsDone SrSignature (nd_cs (demo_signed log)) = 1"
  "nd_Index (demo_signed log) = 5" "GetSlot demo_block5 = 5" "SafeI64ToU64 5 = 5"
  "rc_consensusGroupSize (cs_slotConsensus (nd_cs (demo_signed log))) = 1"
  "Threshold SrSignature (cs_slotThreshold (nd_cs (demo_signed log))) = 1"
  "FallbackThreshold SrSignature (cs_slotThreshold (nd_cs (demo_signed log))) = 1"
  by (simp_all add: demo_signed_def demo_node_def demo_state_eval sr_consts enough_signatures_def FallbackThreshold_def
      demo_block5_def CreateNewHeader_def block_getters SafeI64ToU64_def u64_def)

lemma demo_committed:
  assumes "P demo_env"
  shows "\<exists>mc b. reachable P mc \<and> (5, EvCommit b True) \<in> set (nd_log (mc_node mc))"
proof -
  obtain log where "reachable P (demo_machine (demo_signed log) 2 False)" using demo_run [of P] assms by blast
  let ?nd = "demo_signed log"
  let ?nd1 = "updCs (SetStatus SrSignature SsFinished) ?nd"
  let ?mc = "demo_machine ?nd 2 False"
  have "cs_Header (nd_cs ?nd) = Some demo_block5" by (simp add: demo_signed_def demo_node_def)
  with doSignatureConsensusCheck_leader [of demo_env demo_block5 ?nd] demo_leader
  have "doCheck 2 demo_env ?mc = demo_machine ?nd1 3 True"
    by (simp add: doCheck_def Check_def demo_machine_def nextSubslot_def sr_consts)
  moreover have "step P ?mc (doCheck 2 demo_env ?mc)" by (rule step.check) (simp_all add: assms demo_machine_def)
  ultimately have 1: "reachable P (demo_machine ?nd1 3 True)" using \<open>reachable P ?mc\<close> by (auto intro: reachable.step)
  have "step P (demo_machine ?nd1 3 True) (doJob 3 demo_env (demo_machine ?nd1 3 True))" by (rule step.job) (simp_all add: assms demo_machine_def)
  with 1 have 2: "reachable P (doJob 3 demo_env (demo_machine ?nd1 3 True))" by (rule reachable.step)
  have col: "collected demo_hv ?nd1 [[1]] demo_block5 [7]" using demo_collected [of log] by (simp add: collected_def)
  have jobs: "jobsDone SrSignature (nd_cs ?nd1) = 1" using demo_leader(6) by (simp add: jobsDone_def)
  obtain b where b: "(nd_Index ?nd1, EvCommit b True) \<in> set (nd_log (fst (doEndSlotJobByLeader demo_env ?nd1)))"
    by (rule doEndSlotJobByLeader_commits [of demo_env ?nd1 "[[1]]" demo_block5 "[7]"])
      (use col demo_leader jobs in \<open>simp_all add: demo_ll_complete GetPBFTThreshold_def GetPBFTFallbackThreshold_def SetStatus_def\<close>)
  have "mc_node (doJob 3 demo_env (demo_machine ?nd1 3 True)) = fst (doEndSlotJobByLeader demo_env ?nd1)"
    using demo_leader(1) by (simp add: doJob_def Job_def demo_machine_def doEndSlotJob_def sr_consts)
  with 2 b demo_leader(7) show ?thesis by (metis node_fields(2))
qed

lemma demo_env_ok: "env_ok (CalculateHash demo_marshal (\<lambda>x. x)) True (\<lambda>_. None) demo_env" "slot_env demo_env"
  by (simp_all add: env_ok_def slot_env_def)

lemma demo_verified:
  "VerifySignature demo_hv (demo_block5\<lparr>bl_PubKeysBitmap := [1], bl_Signature := [1, 1, 7], bl_TxResults := r\<rparr>) = Inr ()"
  using demo_hash
  by (simp add: VerifySignature_def verifyConsensusSize_def no_fallback_after_V7 Let_def
      GetPBFTThreshold_def bitmap_eval bms_Create_def NewBLSMultisig_def u16_def demo_ll_def cryptoE_def SetAggregatedSig_def
      bms_Verify_def selectedKeys_def isIndexInBitmap_def)

end
