(* ===== verification/ConsensusProps.thy ===== *)
theory ConsensusProps
  imports ConsensusDemo
begin

text \<open>
  The properties of the consensus: what a node signs and commits over any run, that the blocks the network verifies agree, and
  that a leader that has collected the signatures of its group commits a block every node's check of headers accepts.
\<close>

text \<open>
  C3: a node signs one block per slot. Over any run of a node in which the slot index never falls, whatever messages it
  receives and in whatever order the chronology, the worker and the timers act, it signs at most once in each slot, and what it signs is the hash of a block it
  proposed or processed with success in that slot.
\<close>

theorem node_signs_once:
  assumes "reachable (env_ok hh v4 dec) mc"
  shows "length (signsAt s (nd_log (mc_node mc))) \<le> 1 \<and>
    (\<forall>d. (s, EvSign d) \<in> set (nd_log (mc_node mc)) \<longrightarrow> (\<exists>h. hh (bl_Header h) = Some d \<and> acceptedAt s (nd_log (mc_node mc)) h))"
proof -
  have inv: "log_inv hh v4 (nd_Index (mc_node mc)) (nd_log (mc_node mc))"
    by (rule node_inv_log [OF machine_inv_node [OF reachable_inv [OF assms]]])
  then have "length (signsAt s (nd_log (mc_node mc))) \<le> 1" by (simp add: log_inv_def)
  with log_inv_sign [OF inv] show ?thesis by blast
qed

theorem node_signs_once_witness:
  "\<exists>mc h. (5, EvSign [7]) \<in> set (nd_log (mc_node (mc :: (bytes, bytes) Machine))) \<and> length (signsAt 5 (nd_log (mc_node mc))) \<le> 1 \<and>
    demo_marshal (bl_Header h) = Some [7] \<and> acceptedAt 5 (nd_log (mc_node mc)) h"
proof -
  obtain log where r: "reachable (env_ok (CalculateHash demo_marshal (\<lambda>x. x)) True (\<lambda>_. None)) (demo_machine (demo_signed log) 2 False)"
    using demo_run demo_env_ok(1) by blast
  have s: "(5, EvSign [7]) \<in> set (nd_log (mc_node (demo_machine (demo_signed log) 2 False)))"
    by (simp add: demo_machine_def demo_signed_def demo_node_def)
  from node_signs_once [OF r, of 5] s show ?thesis by (auto simp: CalculateHash_def)
qed

text \<open>
  C6: a node commits one block per slot. Over any run in which the slot index never falls, a node hands at most one block per slot to the block processor to
  commit, that block has the header and the transactions of a block the node proposed or processed with success in that
  slot, and with the fix V4 it is a block of that slot.
\<close>

theorem node_commits_once:
  assumes "reachable (env_ok hh v4 dec) mc"
  shows "length (commitsAt s (nd_log (mc_node mc))) \<le> 1 \<and>
    (\<forall>b ok. (s, EvCommit b ok) \<in> set (nd_log (mc_node mc)) \<longrightarrow>
       (\<exists>h. same_body b h \<and> acceptedAt s (nd_log (mc_node mc)) h) \<and> (v4 \<longrightarrow> GetSlot b = SafeI64ToU64 s))"
proof -
  have inv: "log_inv hh v4 (nd_Index (mc_node mc)) (nd_log (mc_node mc))"
    by (rule node_inv_log [OF machine_inv_node [OF reachable_inv [OF assms]]])
  then have "length (commitsAt s (nd_log (mc_node mc))) \<le> 1" by (simp add: log_inv_def)
  with log_inv_commit [OF inv] show ?thesis by blast
qed

theorem node_commits_once_witness:
  "\<exists>mc b. (5, EvCommit b True) \<in> set (nd_log (mc_node (mc :: (bytes, bytes) Machine))) \<and> length (commitsAt 5 (nd_log (mc_node mc))) \<le> 1 \<and>
    GetSlot b = 5 \<and> (\<exists>h. same_body b h \<and> acceptedAt 5 (nd_log (mc_node mc)) h)"
proof -
  obtain mc b where r: "reachable (env_ok (CalculateHash demo_marshal (\<lambda>x. x)) True (\<lambda>_. None)) (mc :: (bytes, bytes) Machine)"
    and c: "(5, EvCommit b True) \<in> set (nd_log (mc_node mc))"
    using demo_committed demo_env_ok(1) by blast
  from node_commits_once [OF r, of 5] c show ?thesis by (intro exI [of _ mc] exI [of _ b]) (auto simp: demo_leader(9))
qed

text \<open>
  C1: the blocks of the network agree. Two headers of the same slot whose signatures are verified against the same consensus
  group, in epochs with the fix V7, have the same hash, if at most a third of the group is faulty. The other members run
  the consensus with the fix V4, their slot index never falls, and nobody else signs with their keys. The certificates of
  the two headers are not forged: each, as it verifies, was made from a signature of every key it names. No block of
  another slot that a correct member accepted has the hash of one of the two headers.
\<close>

theorem network_agrees:
  assumes "VerifySignature hv g = Inr ()" "VerifySignature hv h = Inr ()"
    and "headerGroup hv g = Some ks" "headerGroup hv h = Some ks" "GetSlot g = GetSlot h"
    and "hv_FixAuditChangesV7InEpoch hv (GetEpoch g)" "hv_FixAuditChangesV7InEpoch hv (GetEpoch h)"
    and "length ks < 65536" "ll_sound (hv_ll hv) known hasSigned" "finite F" "3 * card F \<le> length ks"
    and "certificateOf hv ks g \<in> known" "certificateOf hv ks h \<in> known"
    and nodes: "\<forall>i<length ks. i \<notin> F \<longrightarrow> reachable (\<lambda>env. env_ok (CalculateHash (hv_marshal hv) (hv_hasher hv)) True dec env \<and> slot_env env) (node i)"
    and signed: "\<forall>i<length ks. i \<notin> F \<longrightarrow> (\<forall>pk d. kg_PublicKeyFromByteArray (hv_ll hv) (ks ! i) = Some pk \<longrightarrow> hasSigned pk d \<longrightarrow>
      (\<exists>s. is_i64 s \<and> 0 \<le> s \<and> (s, EvSign d) \<in> set (nd_log (mc_node (node i)))))"
    and collision: "\<forall>i<length ks. i \<notin> F \<longrightarrow> (\<forall>s c. acceptedAt s (nd_log (mc_node (node i))) c \<longrightarrow>
      (\<forall>b\<in>{g, h}. hashOfHeader hv c = hashOfHeader hv b \<longrightarrow> GetSlot c = GetSlot b))"
  shows "hashOfHeader hv g = hashOfHeader hv h"
proof -
  obtain i pk dg dh where i: "i < length ks" "i \<notin> F" "kg_PublicKeyFromByteArray (hv_ll hv) (ks ! i) = Some pk"
    "hashOfHeader hv g = Some dg" "hashOfHeader hv h = Some dh" "hasSigned pk dg" "hasSigned pk dh"
    by (rule verified_common_signer [OF assms(1-4) assms(6-13)])
  let ?log = "nd_log (mc_node (node i))"
  have run: "reachable (env_ok (CalculateHash (hv_marshal hv) (hv_hasher hv)) True dec) (node i)" "reachable slot_env (node i)"
    using nodes i(1,2) by (auto intro: reachable_mono)
  note inv = node_inv_log [OF machine_inv_node [OF reachable_inv [OF run(1)]]]
  have slot: "GetSlot b = SafeI64ToU64 s" if "(s, EvSign d) \<in> set ?log" "hashOfHeader hv b = Some d" "b \<in> {g, h}" for s d b
  proof -
    from log_inv_sign [OF inv that(1)] obtain c where "hashOfHeader hv c = Some d" "acceptedAt s ?log c" by blast
    moreover from this have "GetSlot c = GetSlot b" using collision i(1,2) that(2,3) by metis
    ultimately show ?thesis using reachable_slots_ok [OF run(2)] by (metis slots_ok_def)
  qed
  obtain s t where s: "is_i64 s" "0 \<le> s" "(s, EvSign dg) \<in> set ?log" and t: "is_i64 t" "0 \<le> t" "(t, EvSign dh) \<in> set ?log"
    using signed i by blast
  have "SafeI64ToU64 s = SafeI64ToU64 t" using slot [OF s(3) i(4)] slot [OF t(3) i(5)] assms(5) by simp
  then have "s = t" using s(1,2) t(1,2) by (simp add: SafeI64ToU64_def u64_def is_i64_def go_int_consts)
  then have "(s, EvSign dg) \<in> set (signsAt s ?log)" "(s, EvSign dh) \<in> set (signsAt s ?log)" using s(3) t(3) by (simp_all add: signsAt_def)
  moreover have "length (signsAt s ?log) \<le> 1" using inv by (simp add: log_inv_def)
  ultimately have "dg = dh" by (cases "signsAt s ?log") auto
  then show ?thesis using i(4,5) by simp
qed

text \<open>An instance with a scheme in which every message has a signature that verifies.\<close>

theorem network_agrees_witness:
  "(\<forall>m. \<exists>agg. ll_VerifyAggregatedSig (hv_ll demo_hv) [[1]] (Some agg) m) \<and>
   hashOfHeader demo_hv (demo_block5\<lparr>bl_PubKeysBitmap := [1], bl_Signature := [1, 1, 7], bl_TxResults := []\<rparr>) =
   hashOfHeader demo_hv (demo_block5\<lparr>bl_PubKeysBitmap := [1], bl_Signature := [1, 1, 7], bl_TxResults := [1]\<rparr>)"
proof -
  obtain log where r: "reachable (\<lambda>env. env_ok (CalculateHash demo_marshal (\<lambda>x. x)) True (\<lambda>_. None) env \<and> slot_env env)
      (demo_machine (demo_signed log) 2 False)"
    using demo_run [of "\<lambda>env. env_ok (CalculateHash demo_marshal (\<lambda>x. x)) True (\<lambda>_. None) env \<and> slot_env env"] demo_env_ok by blast
  show ?thesis
  proof (rule conjI, simp add: demo_ll_signs, rule network_agrees [where ks = "[[1]]" and F = "{}"
        and known = "{([[1]], [1, 1, 7], Some [7])}" and hasSigned = "\<lambda>pk m. m = [7]" and dec = "\<lambda>_. None"
        and node = "\<lambda>_. demo_machine (demo_signed log) 2 False"])
    show "ll_sound (hv_ll demo_hv) {([[1]], [1, 1, 7], Some [7])} (\<lambda>pk m. m = [7])" by (simp add: demo_ll_sound)
    show "\<forall>i<length [[1]]. i \<notin> {} \<longrightarrow> (\<forall>pk d. kg_PublicKeyFromByteArray (hv_ll demo_hv) ([[1]] ! i) = Some pk \<longrightarrow> d = [7] \<longrightarrow>
        (\<exists>s. is_i64 s \<and> 0 \<le> s \<and> (s, EvSign d) \<in> set (nd_log (mc_node (demo_machine (demo_signed log) 2 False)))))"
      by (auto simp: demo_machine_def demo_signed_def demo_node_def is_i64_def go_int_consts intro!: exI [of _ "5::int"])
    show "\<forall>i<length [[1]]. i \<notin> {} \<longrightarrow> (\<forall>s c. acceptedAt s (nd_log (mc_node (demo_machine (demo_signed log) 2 False))) c \<longrightarrow>
        (\<forall>b\<in>{demo_block5\<lparr>bl_PubKeysBitmap := [1], bl_Signature := [1, 1, 7], bl_TxResults := []\<rparr>,
          demo_block5\<lparr>bl_PubKeysBitmap := [1], bl_Signature := [1, 1, 7], bl_TxResults := [1]\<rparr>}.
        hashOfHeader demo_hv c = hashOfHeader demo_hv b \<longrightarrow> GetSlot c = GetSlot b))"
      using demo_hash demo_leader(8)
      by (auto simp: block_getters CalculateHash_def demo_marshal_def split: if_splits option.splits)
  qed (use r demo_hash in \<open>simp_all add: demo_verified block_getters CalculateHash_def certificateOf_def bitmap_eval demo_ll_def\<close>)
qed

text \<open>
  C7: a leader with the signatures commits. In the signature subslot of a slot that was not canceled and whose subslot is not
  finished, when the leader has collected the signatures and the processor commits the blocks whose signature verifies,
  three steps of the node commit a block with the body of the header of the slot; the check of headers accepts its aggregated
  signature, and the slot ends. The signature scheme is complete: shares that verify aggregate to a signature that does.
\<close>

theorem leader_commits:
  assumes "mc_subslot mc = Some SrSignature" "\<not> mc_pending mc" "nd = mc_node mc" "cns = nd_cs nd" "P env"
    and "collected (ev_hv env) nd ks h d" "ll_complete (hv_ll (ev_hv env))" "enough_signatures (ev_hv env) h cns"
    and "rc_consensusGroupSize (cs_slotConsensus cns) = length ks"
    and "Threshold SrSignature (cs_slotThreshold cns) = GetPBFTThreshold (length ks)"
    and "FallbackThreshold SrSignature (cs_slotThreshold cns) = GetPBFTFallbackThreshold (length ks)"
    and "IsSelfLeaderInCurrentSlot cns" "\<not> IsSubslotFinished SrSignature cns" "\<not> cs_ExtendedCalled cns" "\<not> cs_SlotCanceled cns"
    and "GetSlot h = SafeI64ToU64 (nd_Index nd)" "\<not> ev_outOfTime env"
    and "\<forall>m. \<exists>sig. ev_Sign env m = Some sig \<and> sig \<noteq> []"
    and "\<forall>b. same_body b h \<longrightarrow> VerifySignature (ev_hv env) b = Inr () \<longrightarrow> ev_CommitBlock env b"
  shows "\<exists>mc' b. (step P)\<^sup>*\<^sup>* mc mc' \<and> same_body b h \<and> VerifySignature (ev_hv env) b = Inr () \<and>
    (nd_Index nd, EvCommit b True) \<in> set (nd_log (mc_node mc')) \<and> mc_subslot mc' = None"
proof -
  let ?nd1 = "updCs (SetStatus SrSignature SsFinished) nd"
  let ?mc1 = "mc\<lparr>mc_node := ?nd1, mc_subslot := Some SrEndSlot, mc_pending := True\<rparr>"
  let ?mc2 = "?mc1\<lparr>mc_node := fst (doEndSlotJobByLeader env ?nd1), mc_pending := False\<rparr>"
  have h: "cs_Header (nd_cs nd) = Some h" using assms(6) by (simp add: collected_def)
  have "doCheck SrSignature env mc = ?mc1"
    using doSignatureConsensusCheck_leader [of env h nd] assms(3,4,8,12,13,15) h
    by (simp add: doCheck_def Check_def nextSubslot_def sr_consts)
  then have 1: "step P mc ?mc1" using step.check [of P env mc SrSignature] assms(1,2,5) by simp
  have "doJob SrEndSlot env ?mc1 = ?mc2" using assms(3,4,12) by (simp add: doJob_def Job_def doEndSlotJob_def sr_consts)
  then have 2: "step P ?mc1 ?mc2" using step.job [of P env ?mc1 SrEndSlot] assms(5) by simp
  have col: "collected (ev_hv env) ?nd1 ks h d" using assms(6) by (simp add: collected_def)
  have jobs: "jobsDone SrSignature (nd_cs ?nd1) = jobsDone SrSignature cns" by (simp add: jobsDone_def assms(3,4))
  have "jobsDone SrSignature (nd_cs ?nd1) \<ge> (if ShouldApplyFallbackValidation (ev_hv env) (Some h)
      then GetPBFTFallbackThreshold (length ks) else GetPBFTThreshold (length ks))"
    unfolding jobs by (rule threshold_reached) (use assms(6,8-11) in \<open>auto simp: enough_signatures_def collected_def\<close>)
  then obtain b where b: "same_body b h" "VerifySignature (ev_hv env) b = Inr ()"
    "(nd_Index nd, EvCommit b True) \<in> set (nd_log (mc_node ?mc2))" "IsSubslotFinished SrEndSlot (nd_cs (mc_node ?mc2))"
    "\<not> cs_SlotCanceled (nd_cs (mc_node ?mc2))"
    using doEndSlotJobByLeader_commits [OF col assms(7)] assms(4,14-19) by (auto simp: SetStatus_def)
  have "doCheck SrEndSlot env ?mc2 = ?mc2\<lparr>mc_subslot := None, mc_pending := False\<rparr>"
    using b(4,5) by (simp add: doCheck_def Check_def doEndSlotConsensusCheck_def nextSubslot_def sr_consts)
  then have 3: "step P ?mc2 (?mc2\<lparr>mc_subslot := None, mc_pending := False\<rparr>)" using step.check [of P env ?mc2 SrEndSlot] assms(5) by simp
  from 1 2 3 have "(step P)\<^sup>*\<^sup>* mc (?mc2\<lparr>mc_subslot := None, mc_pending := False\<rparr>)" by (meson converse_rtranclp_into_rtranclp rtranclp.rtrancl_refl)
  with b(1-3) show ?thesis by (intro exI [of _ "?mc2\<lparr>mc_subslot := None, mc_pending := False\<rparr>"] exI [of _ b]) simp
qed

theorem leader_commits_witness:
  "\<exists>mc b. (5, EvCommit b True) \<in> set (nd_log (mc_node (mc :: (bytes, bytes) Machine))) \<and> same_body b demo_block5 \<and>
    VerifySignature demo_hv b = Inr () \<and> mc_subslot mc = None"
proof -
  let ?mc = "demo_machine (demo_signed []) SrSignature False"
  have "\<exists>mc b. (step (\<lambda>env. env = demo_env))\<^sup>*\<^sup>* ?mc mc \<and> same_body b demo_block5 \<and> VerifySignature (ev_hv demo_env) b = Inr () \<and>
      (nd_Index (demo_signed []), EvCommit b True) \<in> set (nd_log (mc_node mc)) \<and> mc_subslot mc = None"
    by (rule leader_commits [where cns = "nd_cs (demo_signed [])" and ks = "[[1]]" and d = "[7]"])
      (simp_all add: demo_machine_def demo_leader demo_collected demo_ll_complete GetPBFTThreshold_def GetPBFTFallbackThreshold_def)
  then show ?thesis by (auto simp: demo_leader(7))
qed

end
