(* ===== verification/Spec2Isabelle.thy ===== *)
theory Spec2Isabelle
  imports PatriciaTrie Rating KvmMath TwosComplement KdaUtils DataTrie StakingProps UserAccountProps TxCacheRun ConsensusProps
begin

text \<open>
  Verification of klever-go, the node of the KleverChain blockchain. Paths below are relative to \<open>src/\<close>.

  \<^bold>\<open>The program.\<close> A validator takes transactions from its pool, proposes or checks a block of them, agrees on
  the block with the other validators of the slot by collecting BLS signatures, and applies it to the accounts, whose
  balances and storage live in Merkle tries. The development follows these parts from the bottom up: the trie, the
  accounts and the staking rules over it, the pool, and the consensus with the check of headers every other node
  applies to its result. Checked arithmetic, asset identifiers and validator ratings are used across them.

  \<^bold>\<open>Conventions\<close> (\<open>GoPrelude\<close>, \<open>GoStrconv\<close>, \<open>GoFloat\<close>, \<open>CommonErrors\<close>). A Go function is a HOL function of the same
  name, prefixed by its type where names clash. Integers are \<^typ>\<open>int\<close> with the wrap-around of their width written out
  (\<^const>\<open>i64\<close>, \<^const>\<open>u64\<close>, \<^const>\<open>u32\<close>), bytes are 8-bit words, a pointer or slice compared with nil is an option. A
  fallible function returns \<^term>\<open>Inl e\<close> or \<^term>\<open>Inr x\<close>; a method that mutates its receiver returns the receiver as the
  call leaves it, on errors as well. A Go map is an association list or a HOL map; where the order of an iteration
  shows, the theorems hold for every order. A float64 is the rational it denotes, rounded to 53 bits after each
  operation. A method that holds a lock is one step.

  \<^bold>\<open>The trie\<close> (\<open>data/trie\<close>).
  \<^item> \<open>TrieKeys\<close>: the key codec of \<open>node.go\<close>; the encoding is injective, prefix free and exactly inverted.
  \<^item> \<open>TrieNode\<close>: \<open>leafNode.go\<close>, \<open>extensionNode.go\<close>, \<open>branchNode.go\<close> with \<open>tryGet\<close>, \<open>insert\<close>, \<open>delete\<close> and
    the loading of collapsed nodes. The database and the codec are the fields of \<open>trie_env\<close>.
  \<^item> \<open>TrieMap\<close>, \<open>TrieDelete\<close>: every node operation keeps \<^const>\<open>wf_node\<close> and does to the content \<^const>\<open>holds\<close> what it
    should. The well-formedness of a collapsed node says that its children can be loaded.
  \<^item> \<open>PatriciaTrie\<close>: \<open>patriciaMerkleTrie.go\<close>. The trie interprets the contract \<open>kv_store\<close> of \<open>KVStore\<close>, in which the
    refinement of a finite map is proved; the eviction bookkeeping never drops a hash still in use.
  \<^item> \<open>DataTrie\<close>: the write cache of an account's storage (\<open>data/state/trackableDataTrie.go\<close>) and the loops of
    \<open>accountsDB.go\<close> and \<open>journalEntries.go\<close> that save and revert it.

  \<^bold>\<open>Accounts\<close> (\<open>data/state\<close>, \<open>kapps\<close>).
  \<^item> \<open>KappsData\<close>: the messages of \<open>kapps/*.pb.go\<close> that are stored, and the fork gates.
  \<^item> \<open>Staking\<close>, \<open>StakingProps\<close>: freezing, delegating, withdrawing and claiming on the asset record of a user. The step relation
    \<^const>\<open>stake_step\<close> carries the invariant that the frozen balance is the sum of the live buckets. It needs that the native
    assets, which alone have several buckets, have no yearly rate, as genesis creates them.
  \<^item> \<open>Permissions\<close>: permission masks (\<open>data/transaction/utils.go\<close>), exact in both directions.
  \<^item> \<open>UserAccount\<close>, \<open>UserAccountProps\<close>: \<open>userAccount.go\<close> and \<open>baseAccount.go\<close>; transfers conserve value, balances never become
    negative, claims respect the supply.

  \<^bold>\<open>The transaction pool\<close> (\<open>storage/txcache\<close>).
  \<^item> \<open>ConcurrentMap\<close>: \<open>maps/concurrentMap.go\<close>, an instance of the contract \<open>go_map\<close>.
  \<^item> \<open>TxList\<close>, \<open>TxListProps\<close>: \<open>txListForSender.go\<close> over linked lists with identities; the list stays sorted, its totals exact.
  \<^item> \<open>TxCache\<close>, \<open>TxCacheInv\<close>, \<open>TxCacheProps\<close>, \<open>TxCacheRun\<close>: \<open>txCache.go\<close>, \<open>eviction.go\<close>, \<open>sweeping.go\<close>, \<open>txByHashMap.go\<close>,
    \<open>txListBySenderMap.go\<close> and \<open>maps/bucketSortedMap.go\<close>; any sequence of operations keeps the two indexes equal, the counters
    exact and the score chunks consistent, and the selection ends.

  \<^bold>\<open>Blocks and the check of headers.\<close>
  \<^item> \<open>BlockData\<close>: \<open>data/block\<close> and the check of a body against its header in \<open>core/process/block/block.go\<close>.
  \<^item> \<open>Bitmap\<close>, \<open>MultiSig\<close>: \<open>tools/bitmap\<close> and \<open>crypto/signing/multisig\<close>. The locales \<open>certificate_check\<close> and
    \<open>bft_certificate_check\<close> state what a quorum of signers gives: two quorums share a correct member.
  \<^item> \<open>HeaderCheck\<close>, \<open>HeaderCheckProps\<close>: \<open>core/process/headerCheck\<close> and \<open>core/fallback\<close>. The check of the bitmap interprets both
    locales; the integrity verifier with its cache of versions decides what the configured list says.
  \<^item> \<open>Rating\<close>: \<open>core/process/rating/blockSigningRater.go\<close>.

  \<^bold>\<open>Consensus\<close> (\<open>core/consensus\<close>).
  \<^item> \<open>SlotConsensus\<close>, \<open>SlotConsensusProps\<close>: the state of a slot (\<open>slot/consensusState.go\<close> and the types it embeds).
  \<^item> \<open>ConsensusMessage\<close>: messages and their validator. Validations overlap: the limit of messages is looked up in one state of the
    validator and the message counted in a later one, so that the limit holds up to the number of validations running at once.
  \<^item> \<open>ConsensusBls\<close>, \<open>ConsensusEnd\<close>: the jobs, checks and handlers of the four subslots (\<open>slot/bls\<close>). A node is the record
    \<open>Node\<close>; its log lists, with the slot they happened in, the blocks proposed and processed, the hashes signed and the
    blocks committed. Everything a handler asks of the rest of the program (clock, block processor, signer, broadcast,
    chain) is a field of the record \<open>Env\<close>, chosen anew in every step.
  \<^item> \<open>ConsensusRun\<close>: the worker, the chronology and the step relation \<^const>\<open>step\<close>, in which the chronology, the worker and the
    timers interleave in any order; \<^const>\<open>reachable\<close> is its closure from a new node.
  \<^item> \<open>ConsensusInv\<close>, \<open>ConsensusKeep\<close>, \<open>ConsensusKeepEnd\<close>, \<open>ConsensusSafety\<close>: the invariant of a node, kept by every primitive
    update, by every handler and by every step.
  \<^item> \<open>ConsensusSlots\<close>: with the fix V4 the blocks accepted in a slot are blocks of that slot.
  \<^item> \<open>ConsensusLeader\<close>: shares a leader collected aggregate to a signature the check of headers accepts.
  \<^item> \<open>ConsensusDemo\<close>: a run of a network of one validator, from the start of a slot to the commit.
  \<^item> \<open>ConsensusProps\<close>: a node signs and commits once per slot; verified headers of a slot agree; a leader with enough
    signatures commits. The agreement composes the check of headers with the runs of the correct members.

  \<^bold>\<open>Arithmetic and identifiers.\<close> \<open>SafeConverter\<close> (\<open>tools/safeConverter.go\<close>), \<open>KvmMath\<close> and \<open>TwosComplement\<close> (\<open>kvm/math\<close>),
  \<open>KdaUtils\<close> (\<open>core/process/kda/kdautils\<close>): results are exact or reported, conversions clamp, encodings round trip, storage keys
  do not collide.

  \<^bold>\<open>Bounds.\<close> The node methods of the trie call each other through an interface, so the model bounds the call depth by
  \<^const>\<open>callDepth\<close>, the length of the encoded key plus one plus an arbitrary extra: every call shortens the key, and the theorems
  show that no such call runs out. \<^const>\<open>selectPasses\<close> has fuel for the passes of a selection; one pass more than the number of
  transactions requested is enough, since a pass that adds nothing is the last.

  \<^bold>\<open>Assumptions.\<close> They are premises of the theorems that need them: the codec of nodes and records decodes what it encoded;
  the aggregated signature scheme is sound (\<^const>\<open>ll_sound\<close>: a certificate somebody has put together and that verifies was made
  from a signature of every key it names; nothing is said of the strings nobody has found) or complete (shares that verify
  aggregate to a signature that does); a hash does not collide on the values in question, which are the strings hashed and
  the blocks accepted in the runs. In the step relation a handler is one step, where the code holds its locks per object and
  guards the block processing, and the slot index never falls, where the code follows any change of the clock; only the
  validation of messages overlaps with everything else. The iterations of Go maps whose order shows take it as an
  argument or are quantified over.

  \<^bold>\<open>Not modelled.\<close>
  \<^item> The commit, snapshot, proof and synchronisation of tries: goroutines over databases and the network.
  \<^item> Sharding and the selection of the consensus group: it enters the header check and the consensus as a parameter.
  \<^item> The block processor, the contract handlers of \<open>core/kapp\<close> and the virtual machine: they drive databases and the Wasmer
    library. The account and staking operations they call are modelled; for the consensus they are the functions of \<open>Env\<close>.
  \<^item> The score of a transaction list, a function of logarithms of floats: the parameter \<open>score\<close> of the pool, for whose every
    value the theorems hold.
  \<^item> \<open>SafeF64ToU32\<close> and \<open>computeRatingStep\<close>, conversions and divisions of float32 values.
  \<^item> Elliptic curves, hash functions and generated protobuf code: libraries or generated files, parameters where they are used.
  \<^item> Network, REST API, indexer, storage engines, configuration, start-up, monitoring, metrics and log output: I/O.
\<close>

end
